(* ===== verification/Prelude.thy ===== *)
theory Prelude
  imports Main "HOL-Library.Word" "HOL-Library.AList" "HOL-Library.Char_ord"
    "HOL-Library.List_Lexorder" "HOL-Library.Product_Lexorder" "HOL-Library.Monad_Syntax"
    "HOL-Library.Sublist"
begin

text \<open>
  Shared vocabulary of the tiny-redis verification: machine integers of the C++ source
  (\<open>long long\<close> with its undefined overflow), the faults a C++ run can hit, decimal
  printing and reading as \<open>snprintf\<close>, \<open>std::to_string\<close>, \<open>std::stoll\<close> and \<open>strtoll\<close> do
  it, loops that may fail, and facts on lists and association lists that several
  components use.
\<close>

section \<open>Collections of facts\<close>

named_theorems dec_simps \<open>decimal printing and reading\<close>
named_theorems fault_simps \<open>unfolding of the fault monad\<close>

section \<open>Faults and results\<close>

text \<open>
  A run of the C++ code that the language does not define (a null pointer read, an index
  past the end of a vector, a signed overflow, an iterator moved out of its range, a loop
  or pointer walk that does not end in a value) is a value of the left summand of
  \<open>'a result\<close>.
\<close>

datatype fault =
    NullDeref
  | OutOfBounds
  | SignedOverflow
  | BadIterator
  | Diverges
  | UseAfterFree

type_synonym 'a result = "fault + 'a"

definition bind_result :: "'a result \<Rightarrow> ('a \<Rightarrow> 'b result) \<Rightarrow> 'b result" where
  "bind_result r f = (case r of Inl e \<Rightarrow> Inl e | Inr x \<Rightarrow> f x)"

lemma bind_result_simps [simp, fault_simps]:
  "bind_result (Inl e) f = Inl e"
  "bind_result (Inr x) f = f x"
  by (simp_all add: bind_result_def)

lemma bind_result_Inr_iff:
  "bind_result r f = Inr y \<longleftrightarrow> (\<exists>x. r = Inr x \<and> f x = Inr y)"
  by (cases r) auto

section \<open>\<open>long long\<close>\<close>

definition LLONG_MAX :: int where
  "LLONG_MAX = 9223372036854775807"

definition LLONG_MIN :: int where
  "LLONG_MIN = - 9223372036854775808"

definition in_ll :: "int \<Rightarrow> bool" where
  "in_ll i \<longleftrightarrow> LLONG_MIN \<le> i \<and> i \<le> LLONG_MAX"

text \<open>Signed arithmetic whose overflow is undefined behaviour.\<close>

definition ll_check :: "int \<Rightarrow> int result" where
  "ll_check i = (if in_ll i then Inr i else Inl SignedOverflow)"

lemma ll_check_Inr [simp]: "ll_check i = Inr j \<longleftrightarrow> in_ll i \<and> j = i"
  by (auto simp: ll_check_def)

lemma ll_check_in [simp]: "in_ll i \<Longrightarrow> ll_check i = Inr i"
  by (simp add: ll_check_def)

section \<open>Loops that may fail\<close>

fun foldM :: "('s \<Rightarrow> 'a \<Rightarrow> 's option) \<Rightarrow> 's \<Rightarrow> 'a list \<Rightarrow> 's option" where
  "foldM f s [] = Some s"
| "foldM f s (x # xs) = Option.bind (f s x) (\<lambda>s'. foldM f s' xs)"

lemma foldM_append: "foldM f s (xs @ ys) = Option.bind (foldM f s xs) (\<lambda>s'. foldM f s' ys)"
  by (induction xs arbitrary: s) (auto simp: bind_eq_Some_conv split: bind_splits)

section \<open>Decimal numbers\<close>

definition is_digit :: "char \<Rightarrow> bool" where
  "is_digit c \<longleftrightarrow> 48 \<le> (of_char c :: nat) \<and> (of_char c :: nat) \<le> 57"

definition digit_val :: "char \<Rightarrow> nat" where
  "digit_val c = of_char c - 48"

definition digit_char :: "nat \<Rightarrow> char" where
  "digit_char d = char_of (48 + d)"

fun nat_str :: "nat \<Rightarrow> string" where
  "nat_str n = (if n < 10 then [digit_char n] else nat_str (n div 10) @ [digit_char (n mod 10)])"

declare nat_str.simps [simp del]

definition int_str :: "int \<Rightarrow> string" where
  "int_str i = (if i < 0 then CHR ''-'' # nat_str (nat (- i)) else nat_str (nat i))"

definition dec_val :: "string \<Rightarrow> nat" where
  "dec_val s = foldl (\<lambda>a c. 10 * a + digit_val c) 0 s"

lemma digit_val_char [dec_simps]: "d < 10 \<Longrightarrow> digit_val (digit_char d) = d"
  by (simp add: digit_val_def digit_char_def)

lemma is_digit_char [dec_simps]: "d < 10 \<Longrightarrow> is_digit (digit_char d)"
  by (simp add: is_digit_def digit_char_def)

lemma dec_val_snoc [dec_simps]: "dec_val (s @ [c]) = 10 * dec_val s + digit_val c"
  by (simp add: dec_val_def)

lemma dec_val_Nil [dec_simps]: "dec_val [] = 0"
  by (simp add: dec_val_def)

lemma nat_str_not_Nil [simp]: "nat_str n \<noteq> []"
  by (subst nat_str.simps) simp

lemma dec_val_nat_str [simp]: "dec_val (nat_str n) = n"
proof (induction n rule: nat_str.induct)
  case (1 n)
  show ?case
  proof (cases "n < 10")
    case True
    then show ?thesis
      using dec_val_snoc [of "[]" "digit_char n"]
      by (simp add: nat_str.simps [of n] dec_simps)
  next
    case False
    with 1 show ?thesis by (simp add: nat_str.simps [of n] dec_simps)
  qed
qed

lemma nat_str_digits [simp]: "list_all is_digit (nat_str n)"
proof (induction n rule: nat_str.induct)
  case (1 n)
  then show ?case
    by (cases "n < 10") (simp_all add: nat_str.simps [of n] is_digit_char)
qed

lemma nat_str_digit_mem: "c \<in> set (nat_str n) \<Longrightarrow> is_digit c"
  using nat_str_digits [of n] by (simp add: list_all_iff)

lemma length_nat_str: "n < 10 ^ k \<Longrightarrow> 0 < k \<Longrightarrow> length (nat_str n) \<le> k"
proof (induction n arbitrary: k rule: nat_str.induct)
  case (1 n)
  show ?case
  proof (cases "n < 10")
    case True
    with "1.prems" show ?thesis by (simp add: nat_str.simps [of n])
  next
    case False
    with "1.prems" obtain j where j: "k = Suc j" "0 < j"
      by (cases k; cases "k = 1") auto
    with "1.prems" have "n div 10 < 10 ^ j"
      by (simp add: div_less_iff_less_mult mult.commute)
    with "1.IH" [OF False] j have "length (nat_str (n div 10)) \<le> j" by blast
    with False j show ?thesis by (simp add: nat_str.simps [of n])
  qed
qed

lemma is_digit_neq:
  "is_digit c \<Longrightarrow> c \<noteq> CHR 0x0D \<and> c \<noteq> CHR 0x0A \<and> c \<noteq> CHR ''-'' \<and> c \<noteq> CHR ''+'' \<and> c \<noteq> CHR '' ''"
  by (auto simp: is_digit_def)

section \<open>Lists\<close>

lemma drop_exact: "n = length xs \<Longrightarrow> drop n (xs @ ys) = ys"
  by simp

section \<open>Association lists\<close>

lemmas alist_simps = update_conv delete_conv

lemma distinct_fst_delete [simp]:
  "distinct (map fst t) \<Longrightarrow> distinct (map fst (AList.delete k t))"
  by (rule distinct_delete)

lemma distinct_fst_update [simp]:
  "distinct (map fst t) \<Longrightarrow> distinct (map fst (AList.update k v t))"
  by (rule distinct_update)

lemma update_new: "k \<notin> fst ` set al \<Longrightarrow> AList.update k v al = al @ [(k, v)]"
  by (induction al) auto

lemma delete_length:
  "distinct (map fst xs) \<Longrightarrow> map_of xs k = Some v \<Longrightarrow> length xs = Suc (length (AList.delete k xs))"
  by (induction xs) (auto simp: image_iff split: if_splits)

lemma delete_set:
  assumes "distinct (map fst xs)" and "map_of xs k = Some v"
  shows "set (AList.delete k xs) = set xs - {(k, v)}"
proof -
  have "(k, x) \<in> set xs \<longleftrightarrow> x = v" for x using assms(2) map_of_eq_Some_iff [OF assms(1), of k x] by auto
  then show ?thesis by (auto simp: AList.delete_eq)
qed

end
