(* ===== verification/Double.thy ===== *)
theory Double
  imports Prelude
begin

text \<open>
  The C++ type \<open>double\<close> (IEEE 754 binary64) by its bit pattern, as \<open>PutF64\<close> and \<open>F64\<close> copy
  it. Comparison is on sign and magnitude, NaN being unordered; a lemma relates it to the
  numbers the patterns stand for. On top of it, the order of sorted sets: by score, then by
  member (\<open>KeyLess\<close> and \<open>KeyEqual\<close> of \<open>src/zskiplist.cpp\<close>).
\<close>

section \<open>Bit patterns\<close>

type_synonym double = "64 word"

definition d_mag :: "double \<Rightarrow> int" where
  "d_mag x = uint x mod 2 ^ 63"

definition d_neg :: "double \<Rightarrow> bool" where
  "d_neg x \<longleftrightarrow> 2 ^ 63 \<le> uint x"

definition d_inf_mag :: int where
  "d_inf_mag = 2047 * 2 ^ 52"

definition d_isnan :: "double \<Rightarrow> bool" where
  "d_isnan x \<longleftrightarrow> d_inf_mag < d_mag x"

definition d_isinf :: "double \<Rightarrow> bool" where
  "d_isinf x \<longleftrightarrow> d_mag x = d_inf_mag"

definition d_key :: "double \<Rightarrow> int" where
  "d_key x = (if d_neg x then - d_mag x else d_mag x)"

definition d_lt :: "double \<Rightarrow> double \<Rightarrow> bool" where
  "d_lt x y \<longleftrightarrow> \<not> d_isnan x \<and> \<not> d_isnan y \<and> d_key x < d_key y"

definition d_eq :: "double \<Rightarrow> double \<Rightarrow> bool" where
  "d_eq x y \<longleftrightarrow> \<not> d_isnan x \<and> \<not> d_isnan y \<and> d_key x = d_key y"

definition d_le :: "double \<Rightarrow> double \<Rightarrow> bool" where
  "d_le x y \<longleftrightarrow> d_lt x y \<or> d_eq x y"

section \<open>The numbers they stand for\<close>

text \<open>
  The magnitude of a finite pattern in units of \<open>2\<^sup>-\<^sup>1\<^sup>0\<^sup>7\<^sup>4\<close>, the smallest subnormal: exponent
  field 0 means a subnormal number, any other adds the implicit leading bit. Infinity sits
  above every finite number.
\<close>

definition mag_units :: "nat \<Rightarrow> nat" where
  "mag_units m =
     (let e = m div 2 ^ 52; f = m mod 2 ^ 52
      in if e = 0 then f else (2 ^ 52 + f) * 2 ^ (e - 1))"

definition d_units :: "double \<Rightarrow> int" where
  "d_units x =
     (let u = int (mag_units (nat (d_mag x))) in if d_neg x then - u else u)"

lemma mag_units_split:
  "f < 2 ^ 52 \<Longrightarrow> mag_units (e * 2 ^ 52 + f) = (if e = 0 then f else (2 ^ 52 + f) * 2 ^ (e - 1))"
  by (simp add: mag_units_def Let_def)

lemma mag_units_Suc: "mag_units m < mag_units (Suc m)"
proof -
  define B where "B = (2 ^ 52 :: nat)"
  define e f where "e = m div B" and "f = m mod B"
  have m: "m = e * B + f" and f: "f < B" by (simp_all add: e_def f_def B_def)
  note split = mag_units_split [folded B_def]
  show ?thesis
  proof (cases "Suc f < B")
    case True
    then show ?thesis using split [OF f, of e] split [OF True, of e] by (simp add: m)
  next
    case False
    with f have "Suc m = Suc e * B + 0" by (simp add: m)
    then have S: "mag_units (Suc m) = B * 2 ^ e"
      using split [of 0 "Suc e"] f by simp
    show ?thesis
    proof (cases e)
      case 0
      with S split [OF f, of e] f show ?thesis by (simp add: m)
    next
      case (Suc k)
      have "(B + f) * 2 ^ k < (2 * B) * 2 ^ k" using f by (intro mult_strict_right_mono) simp_all
      with S Suc split [OF f, of e] show ?thesis by (simp add: m mult.assoc mult.left_commute)
    qed
  qed
qed

lemma mag_units_less_iff: "mag_units m < mag_units n \<longleftrightarrow> m < n"
proof -
  have "strict_mono mag_units" by (simp add: strict_mono_Suc_iff mag_units_Suc)
  then show ?thesis by (simp add: strict_mono_less)
qed

lemma mag_units_0 [simp]: "mag_units 0 = 0"
  by (simp add: mag_units_def)

text \<open>Comparing sign and magnitude compares the numbers.\<close>

lemma d_key_less_iff: "d_key x < d_key y \<longleftrightarrow> d_units x < d_units y"
proof -
  define a b where "a = nat (d_mag x)" and "b = nat (d_mag y)"
  have ab: "d_mag x = int a" "d_mag y = int b" by (simp_all add: a_def b_def d_mag_def)
  have pos: "0 < mag_units m \<longleftrightarrow> 0 < m" for m using mag_units_less_iff [of 0 m] by simp
  have opp: "- int m < int n \<longleftrightarrow> 0 < m \<or> 0 < n" "int m < - int n \<longleftrightarrow> False" for m n by auto
  show ?thesis
    unfolding d_key_def d_units_def Let_def ab nat_int
    by (cases "d_neg x"; cases "d_neg y") (simp_all only: if_True if_False simp_thms
        neg_less_iff_less of_nat_less_iff mag_units_less_iff opp pos)
qed

section \<open>The order of sorted sets\<close>

definition KeyLess :: "double \<Rightarrow> string \<Rightarrow> double \<Rightarrow> string \<Rightarrow> bool" where
  "KeyLess s1 m1 s2 m2 = (if \<not> d_eq s1 s2 then d_lt s1 s2 else m1 < m2)"

definition KeyEqual :: "double \<Rightarrow> string \<Rightarrow> double \<Rightarrow> string \<Rightarrow> bool" where
  "KeyEqual s1 m1 s2 m2 \<longleftrightarrow> d_eq s1 s2 \<and> m1 = m2"

text \<open>The linear order the two induce on pairs whose score is a number.\<close>

definition zkey :: "double \<times> string \<Rightarrow> int \<times> string" where
  "zkey p = (d_key (fst p), snd p)"

lemma KeyLess_zkey:
  "\<not> d_isnan s1 \<Longrightarrow> \<not> d_isnan s2 \<Longrightarrow> KeyLess s1 m1 s2 m2 \<longleftrightarrow> zkey (s1, m1) < zkey (s2, m2)"
  by (auto simp: KeyLess_def d_eq_def d_lt_def zkey_def less_prod_def')

lemma KeyEqual_zkey:
  "\<not> d_isnan s1 \<Longrightarrow> \<not> d_isnan s2 \<Longrightarrow> KeyEqual s1 m1 s2 m2 \<longleftrightarrow> zkey (s1, m1) = zkey (s2, m2)"
  by (auto simp: KeyEqual_def d_eq_def zkey_def)

end
