(* ===== verification/SkipList.thy ===== *)
theory SkipList
  imports Double
begin

text \<open>
  The skip list of \<open>include/zskiplist.h\<close> and \<open>src/zskiplist.cpp\<close>, on an explicit store of
  nodes: an address maps to a node or, once it is deleted, to nothing. Every operation is a
  value of an option type; \<open>None\<close> is a run the language does not define (a read through a
  dangling pointer, an index past a vector's end, an iterator out of range, a signed
  overflow) or a pointer walk that does not end.
\<close>

section \<open>Nodes and the list object\<close>

definition kMaxLevel :: nat where "kMaxLevel = 32"

record node =
  node_score :: double
  node_member :: string
  node_forward :: "nat option list"
  node_span :: "64 word list"

record score_range =
  range_min :: double
  range_max :: double
  min_exclusive :: bool
  max_exclusive :: bool

record skiplist =
  sl_heap :: "nat \<Rightarrow> node option"
  sl_header :: nat
  sl_level :: nat
  sl_length :: nat
  sl_fresh :: nat

definition header_node :: node where
  "header_node = \<lparr>node_score = 0, node_member = [],
     node_forward = replicate kMaxLevel None, node_span = replicate kMaxLevel 0\<rparr>"

definition new_skiplist :: skiplist where
  "new_skiplist = \<lparr>sl_heap = [0 \<mapsto> header_node], sl_header = 0, sl_level = 1, sl_length = 0,
     sl_fresh = 1\<rparr>"

section \<open>Reading and writing the store\<close>

definition vec_at :: "'a list \<Rightarrow> nat \<Rightarrow> 'a option" where
  "vec_at xs i = (if i < length xs then Some (xs ! i) else None)"

definition vec_set :: "'a list \<Rightarrow> nat \<Rightarrow> 'a \<Rightarrow> 'a list option" where
  "vec_set xs i v = (if i < length xs then Some (xs[i := v]) else None)"

definition get_forward :: "skiplist \<Rightarrow> nat \<Rightarrow> nat \<Rightarrow> nat option option" where
  "get_forward s a i = do { n \<leftarrow> sl_heap s a; vec_at (node_forward n) i }"

definition get_span :: "skiplist \<Rightarrow> nat \<Rightarrow> nat \<Rightarrow> 64 word option" where
  "get_span s a i = do { n \<leftarrow> sl_heap s a; vec_at (node_span n) i }"

definition set_node :: "skiplist \<Rightarrow> nat \<Rightarrow> node \<Rightarrow> skiplist" where
  "set_node s a n = s\<lparr>sl_heap := (sl_heap s)(a \<mapsto> n)\<rparr>"

definition set_forward :: "skiplist \<Rightarrow> nat \<Rightarrow> nat \<Rightarrow> nat option \<Rightarrow> skiplist option" where
  "set_forward s a i p = do {
     n \<leftarrow> sl_heap s a;
     f \<leftarrow> vec_set (node_forward n) i p;
     Some (set_node s a (n\<lparr>node_forward := f\<rparr>)) }"

definition set_span :: "skiplist \<Rightarrow> nat \<Rightarrow> nat \<Rightarrow> 64 word \<Rightarrow> skiplist option" where
  "set_span s a i v = do {
     n \<leftarrow> sl_heap s a;
     f \<leftarrow> vec_set (node_span n) i v;
     Some (set_node s a (n\<lparr>node_span := f\<rparr>)) }"

section \<open>Random levels\<close>

text \<open>
  \<open>rnd\<close> is the sequence of results of \<open>random()\<close>, numbers up to \<open>RAND_MAX = 2\<^sup>3\<^sup>1 - 1\<close>. The
  test \<open>(double)random() / (double)RAND_MAX < 0.25\<close> is exact: both operands are 31-bit
  integers and the quotient is never within half a unit in the last place of a quarter.
\<close>

function RandomLevelFrom :: "(nat \<Rightarrow> int) \<Rightarrow> nat \<Rightarrow> nat" where
  "RandomLevelFrom rnd level =
     (if level < kMaxLevel \<and> 4 * rnd (level - 1) < 2147483647
      then RandomLevelFrom rnd (Suc level) else level)"
  by pat_completeness auto
termination
  by (relation "measure (\<lambda>(rnd, level). kMaxLevel - level)") auto

declare RandomLevelFrom.simps [simp del]

definition RandomLevel :: "(nat \<Rightarrow> int) \<Rightarrow> nat" where
  "RandomLevel rnd = RandomLevelFrom rnd 1"

section \<open>Descending the levels\<close>

text \<open>
  One level: \<open>while (x->forward[i] && cond(x->forward[i])) { rank += x->span[i];
  x = x->forward[i]; }\<close>, and the same loop in the operations that keep no rank.
\<close>

partial_function (option) walk ::
  "(node \<Rightarrow> bool) \<Rightarrow> skiplist \<Rightarrow> nat \<Rightarrow> nat \<Rightarrow> 64 word \<Rightarrow> (nat \<times> 64 word) option" where
  "walk cond s i x rank = do {
     nxt \<leftarrow> get_forward s x i;
     (case nxt of
        None \<Rightarrow> Some (x, rank)
      | Some y \<Rightarrow> do {
          ny \<leftarrow> sl_heap s y;
          (if cond ny
           then do { sp \<leftarrow> get_span s x i; walk cond s i y (rank + sp) }
           else Some (x, rank)) }) }"

partial_function (option) advance ::
  "(node \<Rightarrow> bool) \<Rightarrow> skiplist \<Rightarrow> nat \<Rightarrow> nat \<Rightarrow> nat option" where
  "advance cond s i x = do {
     nxt \<leftarrow> get_forward s x i;
     (case nxt of
        None \<Rightarrow> Some x
      | Some y \<Rightarrow> do {
          ny \<leftarrow> sl_heap s y;
          (if cond ny then advance cond s i y else Some x) }) }"

text \<open>
  The descent of \<open>FindNode\<close> and \<open>Insert\<close> from level \<open>i - 1\<close> to 0; it fills \<open>update\<close> and
  \<open>rank\<close>. The rank of a level starts at the rank of the level above.
\<close>

fun descend ::
  "(node \<Rightarrow> bool) \<Rightarrow> skiplist \<Rightarrow> nat \<Rightarrow> nat \<Rightarrow> 64 word \<Rightarrow> nat option list \<Rightarrow> 64 word list \<Rightarrow>
   (nat \<times> nat option list \<times> 64 word list) option" where
  "descend cond s 0 x rk update rank = Some (x, update, rank)"
| "descend cond s (Suc i) x rk update rank = do {
     (x', rk') \<leftarrow> walk cond s i x rk;
     update' \<leftarrow> vec_set update i (Some x');
     rank' \<leftarrow> vec_set rank i rk';
     descend cond s i x' rk' update' rank' }"

fun descend_plain :: "(node \<Rightarrow> bool) \<Rightarrow> skiplist \<Rightarrow> nat \<Rightarrow> nat \<Rightarrow> nat option" where
  "descend_plain cond s 0 x = Some x"
| "descend_plain cond s (Suc i) x = do { x' \<leftarrow> advance cond s i x; descend_plain cond s i x' }"

definition before_key :: "double \<Rightarrow> string \<Rightarrow> node \<Rightarrow> bool" where
  "before_key score member n \<longleftrightarrow> KeyLess (node_score n) (node_member n) score member"

definition find_from_top ::
  "skiplist \<Rightarrow> double \<Rightarrow> string \<Rightarrow> (nat \<times> nat option list \<times> 64 word list) option" where
  "find_from_top s score member =
     descend (before_key score member) s (sl_level s) (sl_header s) 0
       (replicate kMaxLevel None) (replicate kMaxLevel 0)"

text \<open>\<open>Node* cand = x->forward[0]; if (cand && KeyEqual(...))\<close>: the node with that key.\<close>

definition candidate :: "skiplist \<Rightarrow> nat \<Rightarrow> double \<Rightarrow> string \<Rightarrow> nat option option" where
  "candidate s x score member = do {
     cand \<leftarrow> get_forward s x 0;
     (case cand of
        None \<Rightarrow> Some None
      | Some c \<Rightarrow> do {
          n \<leftarrow> sl_heap s c;
          Some (if KeyEqual (node_score n) (node_member n) score member then Some c else None) }) }"

definition FindNode ::
  "skiplist \<Rightarrow> double \<Rightarrow> string \<Rightarrow> (nat option \<times> nat option list) option" where
  "FindNode s score member = do {
     (x, update, rank) \<leftarrow> find_from_top s score member;
     c \<leftarrow> candidate s x score member;
     Some (c, update) }"

definition Contains :: "skiplist \<Rightarrow> double \<Rightarrow> string \<Rightarrow> bool option" where
  "Contains s score member = do {
     (x, update) \<leftarrow> FindNode s score member;
     Some (x \<noteq> None) }"

section \<open>Insert\<close>

text \<open>Levels above the current one: the header precedes everything there.\<close>

fun raise_step ::
  "skiplist \<times> nat option list \<times> 64 word list \<Rightarrow> nat \<Rightarrow>
   (skiplist \<times> nat option list \<times> 64 word list) option" where
  "raise_step (s, update, rank) i = do {
     rank' \<leftarrow> vec_set rank i 0;
     update' \<leftarrow> vec_set update i (Some (sl_header s));
     s' \<leftarrow> set_span s (sl_header s) i (of_nat (sl_length s));
     Some (s', update', rank') }"

definition raise_level ::
  "skiplist \<Rightarrow> nat \<Rightarrow> nat option list \<Rightarrow> 64 word list \<Rightarrow>
   (skiplist \<times> nat option list \<times> 64 word list) option" where
  "raise_level s level update rank =
     (if level > sl_level s then do {
        (s', update', rank') \<leftarrow> foldM raise_step (s, update, rank) [sl_level s..<level];
        Some (s'\<lparr>sl_level := level\<rparr>, update', rank') }
      else Some (s, update, rank))"

definition new_node :: "skiplist \<Rightarrow> nat \<Rightarrow> double \<Rightarrow> string \<Rightarrow> skiplist \<times> nat" where
  "new_node s level score member =
     (let a = sl_fresh s
      in (set_node (s\<lparr>sl_fresh := Suc a\<rparr>) a
            \<lparr>node_score = score, node_member = member,
             node_forward = replicate level None, node_span = replicate level 0\<rparr>, a))"

definition link_level ::
  "nat \<Rightarrow> nat option list \<Rightarrow> 64 word list \<Rightarrow> skiplist \<Rightarrow> nat \<Rightarrow> skiplist option" where
  "link_level nd update rank s i = do {
     ui \<leftarrow> vec_at update i;
     u \<leftarrow> ui;
     f \<leftarrow> get_forward s u i;
     s1 \<leftarrow> set_forward s nd i f;
     s2 \<leftarrow> set_forward s1 u i (Some nd);
     su \<leftarrow> get_span s2 u i;
     r0 \<leftarrow> vec_at rank 0;
     ri \<leftarrow> vec_at rank i;
     s3 \<leftarrow> set_span s2 nd i (su - (r0 - ri));
     set_span s3 u i ((r0 - ri) + 1) }"

definition bump_span :: "nat option list \<Rightarrow> skiplist \<Rightarrow> nat \<Rightarrow> skiplist option" where
  "bump_span update s i = do {
     ui \<leftarrow> vec_at update i;
     u \<leftarrow> ui;
     su \<leftarrow> get_span s u i;
     set_span s u i (su + 1) }"

text \<open>The part of \<open>Insert\<close> after the test for an equal key, once the level is drawn.\<close>

definition insert_new ::
  "skiplist \<Rightarrow> nat \<Rightarrow> nat option list \<Rightarrow> 64 word list \<Rightarrow> double \<Rightarrow> string \<Rightarrow> skiplist option" where
  "insert_new s level update rank score member = do {
     (s1, update1, rank1) \<leftarrow> raise_level s level update rank;
     let (s2, nd) = new_node s1 level score member;
     s3 \<leftarrow> foldM (link_level nd update1 rank1) s2 [0..<level];
     s4 \<leftarrow> foldM (bump_span update1) s3 [level..<sl_level s3];
     Some (s4\<lparr>sl_length := Suc (sl_length s4)\<rparr>) }"

definition Insert ::
  "skiplist \<Rightarrow> (nat \<Rightarrow> int) \<Rightarrow> double \<Rightarrow> string \<Rightarrow> (skiplist \<times> bool) option" where
  "Insert s rnd score member = do {
     (x, update, rank) \<leftarrow> find_from_top s score member;
     c \<leftarrow> candidate s x score member;
     (case c of
        Some a \<Rightarrow> do {
          n \<leftarrow> sl_heap s a;
          Some (set_node s a (n\<lparr>node_score := score\<rparr>), False) }
      | None \<Rightarrow> do {
          s' \<leftarrow> insert_new s (RandomLevel rnd) update rank score member;
          Some (s', True) }) }"

section \<open>Erase\<close>

definition unlink_level :: "nat \<Rightarrow> nat option list \<Rightarrow> skiplist \<Rightarrow> nat \<Rightarrow> skiplist option" where
  "unlink_level x update s i = do {
     ui \<leftarrow> vec_at update i;
     u \<leftarrow> ui;
     f \<leftarrow> get_forward s u i;
     (if f = Some x then do {
        fx \<leftarrow> get_forward s x i;
        s1 \<leftarrow> (case fx of
                 Some _ \<Rightarrow> do {
                   su \<leftarrow> get_span s u i;
                   sx \<leftarrow> get_span s x i;
                   set_span s u i (su + (sx - 1)) }
               | None \<Rightarrow> set_span s u i 0);
        set_forward s1 u i fx }
      else do {
        su \<leftarrow> get_span s u i;
        set_span s u i (su - 1) }) }"

text \<open>\<open>while (level_ > 1 && header_->forward[level_ - 1] == nullptr) --level_;\<close>\<close>

fun shrink_level :: "skiplist \<Rightarrow> nat \<Rightarrow> nat option" where
  "shrink_level s 0 = Some 0"
| "shrink_level s (Suc l) =
     (if Suc l > 1 then do {
        f \<leftarrow> get_forward s (sl_header s) l;
        (if f = None then shrink_level s l else Some (Suc l)) }
      else Some (Suc l))"

definition DeleteNode :: "skiplist \<Rightarrow> nat \<Rightarrow> nat option list \<Rightarrow> skiplist option" where
  "DeleteNode s x update = do {
     s1 \<leftarrow> foldM (unlink_level x update) s [0..<sl_level s];
     l \<leftarrow> shrink_level s1 (sl_level s1);
     Some (s1\<lparr>sl_level := l, sl_length := sl_length s1 - 1, sl_heap := (sl_heap s1)(x := None)\<rparr>) }"

definition Erase :: "skiplist \<Rightarrow> double \<Rightarrow> string \<Rightarrow> (skiplist \<times> bool) option" where
  "Erase s score member = do {
     (c, update) \<leftarrow> FindNode s score member;
     (case c of
        None \<Rightarrow> Some (s, False)
      | Some x \<Rightarrow> do { s' \<leftarrow> DeleteNode s x update; Some (s', True) }) }"

section \<open>Ranks\<close>

definition SIZE_MAX :: "64 word" where "SIZE_MAX = - 1"

definition upto_key :: "double \<Rightarrow> string \<Rightarrow> node \<Rightarrow> bool" where
  "upto_key score member n \<longleftrightarrow>
     d_lt (node_score n) score \<or> (d_eq (node_score n) score \<and> node_member n \<le> member)"

fun RankLoop ::
  "skiplist \<Rightarrow> double \<Rightarrow> string \<Rightarrow> nat \<Rightarrow> nat \<Rightarrow> 64 word \<Rightarrow> 64 word option" where
  "RankLoop s score member 0 x rank = Some SIZE_MAX"
| "RankLoop s score member (Suc i) x rank = do {
     (x', rank') \<leftarrow> walk (upto_key score member) s i x rank;
     n \<leftarrow> sl_heap s x';
     (if x' \<noteq> sl_header s \<and> d_eq (node_score n) score \<and> node_member n = member
      then Some (rank' - 1)
      else RankLoop s score member i x' rank') }"

definition Rank :: "skiplist \<Rightarrow> double \<Rightarrow> string \<Rightarrow> 64 word option" where
  "Rank s score member = RankLoop s score member (sl_level s) (sl_header s) 0"

definition RevRank :: "skiplist \<Rightarrow> double \<Rightarrow> string \<Rightarrow> 64 word option" where
  "RevRank s score member = do {
     r \<leftarrow> Rank s score member;
     Some (if r = SIZE_MAX then SIZE_MAX
           else if unat r \<ge> sl_length s then SIZE_MAX
           else of_nat (sl_length s) - 1 - r) }"

section \<open>Range queries\<close>

text \<open>The level-0 walk of \<open>RangeByRank\<close>: \<open>while (x && r <= stop)\<close>.\<close>

partial_function (option) collect_ranks ::
  "skiplist \<Rightarrow> int \<Rightarrow> int \<Rightarrow> nat option \<Rightarrow> int \<Rightarrow> (double \<times> string) list \<Rightarrow>
   (double \<times> string) list option" where
  "collect_ranks s start stop x r out =
     (case x of
        None \<Rightarrow> Some out
      | Some a \<Rightarrow>
          if r \<le> stop then do {
            n \<leftarrow> sl_heap s a;
            nxt \<leftarrow> get_forward s a 0;
            collect_ranks s start stop nxt (r + 1)
              (if r \<ge> start then out @ [(node_score n, node_member n)] else out) }
          else Some out)"

text \<open>The index window: \<open>None\<close> for the early returns with an empty answer.\<close>

definition rank_window :: "int \<Rightarrow> int \<Rightarrow> int \<Rightarrow> (int \<times> int) option" where
  "rank_window llen start stop =
     (if llen = 0 then None
      else let start1 = (if start < 0 then llen + start else start);
               stop1 = (if stop < 0 then llen + stop else stop);
               start2 = (if start1 < 0 then 0 else start1)
           in if start2 > llen - 1 then None
              else if stop1 < 0 then None
              else let stop2 = (if stop1 > llen - 1 then llen - 1 else stop1)
                   in if start2 > stop2 then None else Some (start2, stop2))"

definition RangeByRank ::
  "skiplist \<Rightarrow> int \<Rightarrow> int \<Rightarrow> bool \<Rightarrow> (double \<times> string) list option" where
  "RangeByRank s start stop rev' =
     (let llen = int (sl_length s)
      in case rank_window llen start stop of
           None \<Rightarrow> Some []
         | Some (lo, hi) \<Rightarrow>
             let lo' = (if rev' then llen - 1 - hi else lo);
                 hi' = (if rev' then llen - 1 - lo else hi)
             in do {
               first \<leftarrow> get_forward s (sl_header s) 0;
               out \<leftarrow> collect_ranks s lo' hi' first 0 [];
               Some (if rev' then rev out else out) })"

definition below_min :: "score_range \<Rightarrow> double \<Rightarrow> bool" where
  "below_min r v = (if min_exclusive r then d_le v (range_min r) else d_lt v (range_min r))"

definition above_max :: "score_range \<Rightarrow> double \<Rightarrow> bool" where
  "above_max r v = (if max_exclusive r then d_le (range_max r) v else d_lt (range_max r) v)"

text \<open>\<open>while (cur && cur->score == r.min) cur = cur->forward[0];\<close>\<close>

partial_function (option) skip_ties :: "skiplist \<Rightarrow> double \<Rightarrow> nat option \<Rightarrow> nat option option" where
  "skip_ties s v cur =
     (case cur of
        None \<Rightarrow> Some None
      | Some a \<Rightarrow> do {
          n \<leftarrow> sl_heap s a;
          (if d_eq (node_score n) v
           then do { nxt \<leftarrow> get_forward s a 0; skip_ties s v nxt }
           else Some cur) })"

text \<open>The forward loop with LIMIT; \<open>skipped\<close> counts the entries the offset drops.\<close>

partial_function (option) collect_scores ::
  "skiplist \<Rightarrow> score_range \<Rightarrow> int \<Rightarrow> int \<Rightarrow> nat option \<Rightarrow> int \<Rightarrow> (double \<times> string) list \<Rightarrow>
   (double \<times> string) list option" where
  "collect_scores s r offset count cur skipped out =
     (case cur of
        None \<Rightarrow> Some out
      | Some a \<Rightarrow> do {
          n \<leftarrow> sl_heap s a;
          let v = node_score n;
          (if below_min r v
           then do { nxt \<leftarrow> get_forward s a 0; collect_scores s r offset count nxt skipped out }
           else if above_max r v then Some out
           else if offset > 0 \<and> skipped < offset
           then do { nxt \<leftarrow> get_forward s a 0;
                     collect_scores s r offset count nxt (skipped + 1) out }
           else let out' = out @ [(v, node_member n)]
                in if count > 0 \<and> int (length out') \<ge> count then Some out'
                   else do { nxt \<leftarrow> get_forward s a 0;
                             collect_scores s r offset count nxt skipped out' }) })"

text \<open>The ascending collection of the reverse query, over the whole list.\<close>

partial_function (option) collect_asc ::
  "skiplist \<Rightarrow> score_range \<Rightarrow> nat option \<Rightarrow> (double \<times> string) list \<Rightarrow>
   (double \<times> string) list option" where
  "collect_asc s r cur out =
     (case cur of
        None \<Rightarrow> Some out
      | Some a \<Rightarrow> do {
          n \<leftarrow> sl_heap s a;
          nxt \<leftarrow> get_forward s a 0;
          collect_asc s r nxt
            (if below_min r (node_score n) \<or> above_max r (node_score n) then out
             else out @ [(node_score n, node_member n)]) })"

text \<open>
  The window of the reverse query: \<open>[asc.size() - end, asc.size() - start_idx)\<close> of the
  reversed vector. With a negative offset \<open>end\<close> exceeds the size and the iterator leaves its
  range; \<open>total - offset\<close> may overflow.
\<close>

definition reverse_window ::
  "(double \<times> string) list \<Rightarrow> int \<Rightarrow> int \<Rightarrow> (double \<times> string) list option" where
  "reverse_window asc offset count =
     (let total = int (length asc); end' = total - offset
      in if \<not> in_ll end' then None
         else if end' \<le> 0 then Some []
         else let start0 = (if count > 0 then end' - count else 0);
                  start_idx = (if start0 < 0 then 0 else start0)
              in if end' > total then None
                 else Some (take (nat (end' - start_idx)) (drop (nat (total - end')) (rev asc))))"

definition RangeByScore ::
  "skiplist \<Rightarrow> score_range \<Rightarrow> bool \<Rightarrow> int \<Rightarrow> int \<Rightarrow> (double \<times> string) list option" where
  "RangeByScore s r rev' offset count =
     (if count = 0 then Some []
      else if \<not> rev' then do {
        x \<leftarrow> descend_plain (\<lambda>n. d_lt (node_score n) (range_min r)) s (sl_level s) (sl_header s);
        cur \<leftarrow> get_forward s x 0;
        cur' \<leftarrow> (if min_exclusive r then skip_ties s (range_min r) cur else Some cur);
        collect_scores s r offset count cur' 0 [] }
      else do {
        first \<leftarrow> get_forward s (sl_header s) 0;
        asc \<leftarrow> collect_asc s r first [];
        reverse_window asc offset count })"

partial_function (option) count_scores ::
  "skiplist \<Rightarrow> score_range \<Rightarrow> nat option \<Rightarrow> nat \<Rightarrow> nat option" where
  "count_scores s r cur n =
     (case cur of
        None \<Rightarrow> Some n
      | Some a \<Rightarrow> do {
          nd \<leftarrow> sl_heap s a;
          (if below_min r (node_score nd)
           then do { nxt \<leftarrow> get_forward s a 0; count_scores s r nxt n }
           else if above_max r (node_score nd) then Some n
           else do { nxt \<leftarrow> get_forward s a 0; count_scores s r nxt (Suc n) }) })"

definition CountInRange :: "skiplist \<Rightarrow> score_range \<Rightarrow> nat option" where
  "CountInRange s r = do {
     first \<leftarrow> get_forward s (sl_header s) 0;
     count_scores s r first 0 }"

partial_function (option) score_scan :: "skiplist \<Rightarrow> string \<Rightarrow> nat option \<Rightarrow> double option" where
  "score_scan s member cur =
     (case cur of
        None \<Rightarrow> Some 0
      | Some a \<Rightarrow> do {
          n \<leftarrow> sl_heap s a;
          (if node_member n = member then Some (node_score n)
           else do { nxt \<leftarrow> get_forward s a 0; score_scan s member nxt }) })"

definition ScoreOf :: "skiplist \<Rightarrow> string \<Rightarrow> double option" where
  "ScoreOf s member = do {
     first \<leftarrow> get_forward s (sl_header s) 0;
     score_scan s member first }"

section \<open>Pops\<close>

definition PopMin :: "skiplist \<Rightarrow> (skiplist \<times> (double \<times> string) option) option" where
  "PopMin s = do {
     first \<leftarrow> get_forward s (sl_header s) 0;
     (case first of
        None \<Rightarrow> Some (s, None)
      | Some a \<Rightarrow> do {
          n \<leftarrow> sl_heap s a;
          (c, update) \<leftarrow> FindNode s (node_score n) (node_member n);
          s' \<leftarrow> DeleteNode s a update;
          Some (s', Some (node_score n, node_member n)) }) }"

definition PopMax :: "skiplist \<Rightarrow> (skiplist \<times> (double \<times> string) option) option" where
  "PopMax s = do {
     x \<leftarrow> descend_plain (\<lambda>n. True) s (sl_level s) (sl_header s);
     (if x = sl_header s then Some (s, None)
      else do {
        n \<leftarrow> sl_heap s x;
        (c, update) \<leftarrow> FindNode s (node_score n) (node_member n);
        s' \<leftarrow> DeleteNode s x update;
        Some (s', Some (node_score n, node_member n)) }) }"

declare walk.simps [code] advance.simps [code] collect_ranks.simps [code] skip_ties.simps [code]
  collect_scores.simps [code] collect_asc.simps [code] count_scores.simps [code]
  score_scan.simps [code]

end
