(* ===== verification/SkipListRefine.thy ===== *)
theory SkipListRefine imports SkipList begin

section \<open>One level as a list\<close>

text \<open>
  A level of the skip list, seen on the list of all nodes in order (header first): \<open>T\<close> tells
  which nodes reach the level, \<open>F\<close> is the forward pointer there and \<open>S\<close> the span. A
  forward pointer leads to the next node that reaches the level, and the span of a non-null
  pointer counts the steps. The span next to a null pointer is not constrained: the code
  leaves arbitrary values there.
\<close>

primrec linked ::
  "(nat \<Rightarrow> bool) \<Rightarrow> (nat \<Rightarrow> nat option) \<Rightarrow> (nat \<Rightarrow> 64 word) \<Rightarrow> nat list \<Rightarrow> bool" where
  "linked T F S [] = True"
| "linked T F S (a # as) =
     ((T a \<longrightarrow> F a = find T as \<and>
        (find T as \<noteq> None \<longrightarrow> S a = of_nat (Suc (length (takeWhile (\<lambda>b. \<not> T b) as))))) \<and>
      linked T F S as)"

definition none_of :: "('a \<Rightarrow> bool) \<Rightarrow> 'a list \<Rightarrow> bool" where
  "none_of T xs \<longleftrightarrow> (\<forall>x\<in>set xs. \<not> T x)"

lemma none_of_simps [simp]:
  "none_of T []"
  "none_of T (x # xs) \<longleftrightarrow> \<not> T x \<and> none_of T xs"
  "none_of T (xs @ ys) \<longleftrightarrow> none_of T xs \<and> none_of T ys"
  by (auto simp: none_of_def)

lemma find_skip: "none_of T U \<Longrightarrow> find T (U @ Y) = find T Y"
  by (induction U) auto

lemma takeWhile_skip:
  "none_of T U \<Longrightarrow> takeWhile (\<lambda>b. \<not> T b) (U @ Y) = U @ takeWhile (\<lambda>b. \<not> T b) Y"
  by (induction U) auto

lemma find_upto: "T x \<Longrightarrow> find T (U @ x # Y) = find T (U @ x # Z)"
  by (induction U) auto

lemma takeWhile_upto:
  "T x \<Longrightarrow> takeWhile (\<lambda>b. \<not> T b) (U @ x # Y) = takeWhile (\<lambda>b. \<not> T b) (U @ x # Z)"
  by (induction U) auto

lemma find_eq_None_iff: "find T xs = None \<longleftrightarrow> none_of T xs"
  by (induction xs) auto

lemma find_tall: "find T xs = Some b \<Longrightarrow> T b \<and> b \<in> set xs"
  by (induction xs) (auto split: if_splits)

lemma linked_skip: "none_of T U \<Longrightarrow> linked T F S (U @ Y) \<longleftrightarrow> linked T F S Y"
  by (induction U) auto

lemma linked_tail: "linked T F S (U @ Y) \<Longrightarrow> linked T F S Y"
  by (induction U) auto

lemma linked_replace:
  assumes "T x" and "linked T F S (U @ x # Y)" and "linked T F' S' (x # Z)"
    and "\<And>u. u \<in> set U \<Longrightarrow> F' u = F u \<and> S' u = S u"
  shows "linked T F' S' (U @ x # Z)"
  using assms
proof (induction U)
  case (Cons u U)
  then show ?case
    using find_upto [of T x U Y Z] takeWhile_upto [of T x U Y Z] by simp
qed simp

lemma linked_cong:
  "(\<And>a. a \<in> set as \<Longrightarrow> T' a = T a \<and> F' a = F a \<and> S' a = S a) \<Longrightarrow>
   linked T' F' S' as \<longleftrightarrow> linked T F S as"
proof (induction as)
  case (Cons a as)
  have "find T' as = find T as" using Cons.prems by (intro find_cong) auto
  moreover have "takeWhile (\<lambda>b. \<not> T' b) as = takeWhile (\<lambda>b. \<not> T b) as"
    using Cons.prems by (intro takeWhile_cong) auto
  ultimately show ?case using Cons by simp
qed simp

lemma linked_upd:
  "a \<notin> set as \<Longrightarrow> linked T (F(a := p)) (S(a := v)) as \<longleftrightarrow> linked T F S as"
  by (rule linked_cong) auto

lemma linked_upd_S: "a \<notin> set as \<Longrightarrow> linked T F (S(a := v)) as \<longleftrightarrow> linked T F S as"
  by (rule linked_cong) auto

text \<open>What a level does when a node enters or leaves after \<open>x\<close>, its last node before the spot.\<close>

lemma linked_insert_tall:
  assumes l: "linked T F S (U1 @ x # U2 @ B)" and T: "T x" "none_of T U2" "T nd"
    and d: "distinct (U1 @ x # U2 @ nd # B)"
  shows "linked T (F(nd := F x, x := Some nd))
           (S(nd := S x - of_nat (length U2), x := of_nat (length U2) + 1)) (U1 @ x # U2 @ nd # B)"
    (is "linked T ?F ?S _")
proof (rule linked_replace [of T x, OF T(1) l])
  have x: "F x = find T B"
    "find T B \<noteq> None \<Longrightarrow> S x = of_nat (Suc (length U2 + length (takeWhile (\<lambda>b. \<not> T b) B)))"
    and B: "linked T F S B"
    using linked_tail [OF l] T by (simp_all add: find_skip takeWhile_skip linked_skip)
  have "linked T ?F ?S B" using B d by (subst linked_cong) auto
  then have "linked T ?F ?S (nd # B)" using x T(3) d by auto
  then have "linked T ?F ?S (U2 @ nd # B)" by (simp only: linked_skip [OF T(2)])
  moreover have "?F x = find T (U2 @ nd # B)"
    "?S x = of_nat (Suc (length (takeWhile (\<lambda>b. \<not> T b) (U2 @ nd # B))))"
    using T by (simp_all add: find_skip takeWhile_skip)
  ultimately show "linked T ?F ?S (x # U2 @ nd # B)" by (simp only: linked.simps simp_thms)
qed (use d in auto)

lemma linked_insert_short:
  assumes l: "linked T F S (U1 @ x # U2 @ B)" and T: "T x" "none_of T U2" "\<not> T nd"
    and d: "distinct (U1 @ x # U2 @ nd # B)"
  shows "linked T F (S(x := S x + 1)) (U1 @ x # U2 @ nd # B)"
proof (rule linked_replace [of T x, OF T(1) l])
  have "linked T F (S(x := S x + 1)) B"
    using linked_tail [of T F S "U1 @ x # U2" B] l d by (subst linked_cong) auto
  with linked_tail [OF l] T show "linked T F (S(x := S x + 1)) (x # U2 @ nd # B)"
    by (auto simp: find_skip takeWhile_skip linked_skip)
qed (use d in auto)

lemma linked_delete_tall:
  assumes l: "linked T F S (U1 @ x # U2 @ nd # B)" and T: "T x" "none_of T U2" "T nd"
    and d: "distinct (U1 @ x # U2 @ nd # B)" and v: "F nd \<noteq> None \<Longrightarrow> v = S x + (S nd - 1)"
  shows "linked T (F(x := F nd)) (S(x := v)) (U1 @ x # U2 @ B)"
proof (rule linked_replace [of T x, OF T(1) l])
  have x: "F x = Some nd" "S x = of_nat (Suc (length U2))"
    and nd: "F nd = find T B"
    "find T B \<noteq> None \<Longrightarrow> S nd = of_nat (Suc (length (takeWhile (\<lambda>b. \<not> T b) B)))"
    and B: "linked T F S B"
    using linked_tail [OF l] T by (simp_all add: find_skip takeWhile_skip linked_skip)
  have "linked T (F(x := F nd)) (S(x := v)) B" using B d by (subst linked_cong) auto
  with x nd v T d show "linked T (F(x := F nd)) (S(x := v)) (x # U2 @ B)"
    by (auto simp: find_skip takeWhile_skip linked_skip)
qed (use d in auto)

lemma linked_delete_short:
  assumes l: "linked T F S (U1 @ x # U2 @ nd # B)" and T: "T x" "none_of T U2" "\<not> T nd"
    and d: "distinct (U1 @ x # U2 @ nd # B)"
  shows "linked T F (S(x := S x - 1)) (U1 @ x # U2 @ B)"
proof (rule linked_replace [of T x, OF T(1) l])
  have B: "linked T F S B"
    using linked_tail [of T F S "U1 @ x # U2 @ [nd]" B] l by simp
  then have "linked T F (S(x := S x - 1)) B" using d by (subst linked_cong) auto
  with linked_tail [OF l] T show "linked T F (S(x := S x - 1)) (x # U2 @ B)"
    by (auto simp: find_skip takeWhile_skip linked_skip)
qed (use d in auto)

text \<open>\<open>x\<close> at index \<open>k\<close> is the last node of \<open>A\<close> that reaches the level.\<close>

definition last_at :: "(nat \<Rightarrow> bool) \<Rightarrow> nat list \<Rightarrow> nat \<Rightarrow> nat \<Rightarrow> bool" where
  "last_at T A x k \<longleftrightarrow>
     (\<exists>U1 U2. A = U1 @ x # U2 \<and> T x \<and> none_of T U2 \<and> k = length U1)"

lemma last_at_E:
  assumes "last_at T A x k"
  obtains U1 U2 where "A = U1 @ x # U2" "T x" "none_of T U2" "k = length U1"
  using assms by (auto simp: last_at_def)

lemma last_at_mem: "last_at T A x k \<Longrightarrow> x \<in> set A \<and> T x"
  by (auto simp: last_at_def)

lemma last_at_prepend: "last_at T U y j \<Longrightarrow> last_at T (U1 @ U) y (length U1 + j)"
  unfolding last_at_def by (metis append.assoc length_append)

lemma last_at_bottom:
  assumes "\<forall>u\<in>set U. T u" and "last_at T (h # U) y k"
  shows "k = length U" and "y = last (h # U)"
proof -
  obtain U1 U2 where U: "h # U = U1 @ y # U2" "none_of T U2" "k = length U1"
    using assms(2) by (auto elim: last_at_E)
  have "set U2 \<subseteq> set U" using U(1) by (cases U1) auto
  with U(2) assms(1) have "U2 = []" by (cases U2) auto
  with U show "k = length U" "y = last (h # U)"
    by (metis length_Cons length_append_singleton nat.inject, metis last_snoc)
qed

text \<open>Inserting and deleting, in terms of the last node before the spot.\<close>

lemma linked_insert:
  assumes l: "linked T F S (h # U @ V)" and y: "last_at T (h # U) y k"
    and d: "distinct (h # U @ nd # V)" and T': "\<And>a. a \<noteq> nd \<Longrightarrow> T' a = T a"
  shows "T' nd \<Longrightarrow> linked T' (F(nd := F y, y := Some nd))
           (S(nd := S y - (of_nat (length U) - of_nat k), y := (of_nat (length U) - of_nat k) + 1))
           (h # U @ nd # V)"
    and "\<not> T' nd \<Longrightarrow> linked T' F (S(y := S y + 1)) (h # U @ nd # V)"
proof -
  obtain U1 U2 where U: "h # U = U1 @ y # U2" "T y" "none_of T U2" "k = length U1"
    using y by (auto elim: last_at_E)
  have A: "h # U @ V = U1 @ y # U2 @ V" "h # U @ nd # V = U1 @ y # U2 @ nd # V"
    using U(1) by (metis append.assoc append_Cons)+
  have "length U = length U1 + length U2"
    using U(1) by (metis add_Suc_right length_Cons length_append nat.inject)
  then have len: "of_nat (length U) - of_nat k = (of_nat (length U2) :: 64 word)" using U(4) by simp
  have neq: "y \<noteq> nd" "nd \<notin> set U2" using d unfolding A by auto
  have T: "T' y" "none_of T' U2" using U(2,3) neq T' by (simp, fastforce simp: none_of_def)
  have "linked T' F S (h # U @ V) = linked T F S (h # U @ V)"
  proof (intro linked_cong)
    fix a assume "a \<in> set (h # U @ V)"
    then have "a \<noteq> nd" using d by auto
    then show "T' a = T a \<and> F a = F a \<and> S a = S a" using T' by simp
  qed
  with l have "linked T' F S (U1 @ y # U2 @ V)" by (simp only: A)
  note ins = linked_insert_tall [OF this T] linked_insert_short [OF this T]
  show "T' nd \<Longrightarrow> linked T' (F(nd := F y, y := Some nd))
           (S(nd := S y - (of_nat (length U) - of_nat k), y := (of_nat (length U) - of_nat k) + 1))
           (h # U @ nd # V)"
    using ins(1) d unfolding A len by blast
  show "\<not> T' nd \<Longrightarrow> linked T' F (S(y := S y + 1)) (h # U @ nd # V)"
    using ins(2) d unfolding A by blast
qed

lemma linked_delete:
  assumes l: "linked T F S (h # U @ nd # V)" and y: "last_at T (h # U) y k"
    and d: "distinct (h # U @ nd # V)"
  shows "T nd \<Longrightarrow> F y = Some nd"
    and "\<not> T nd \<Longrightarrow> F y \<noteq> Some nd"
    and "T nd \<Longrightarrow> (F nd \<noteq> None \<Longrightarrow> v = S y + (S nd - 1)) \<Longrightarrow>
           linked T (F(y := F nd)) (S(y := v)) (h # U @ V)"
    and "\<not> T nd \<Longrightarrow> linked T F (S(y := S y - 1)) (h # U @ V)"
proof -
  obtain U1 U2 where U: "h # U = U1 @ y # U2" "T y" "none_of T U2"
    using y by (auto elim: last_at_E)
  have A: "h # U @ V = U1 @ y # U2 @ V" "h # U @ nd # V = U1 @ y # U2 @ nd # V"
    using U(1) by (metis append.assoc append_Cons)+
  note l' = l [unfolded A] and d' = d [unfolded A]
  have F: "F y = find T (nd # V)"
    using linked_tail [OF l'] U(2,3) by (simp add: find_skip)
  then show "T nd \<Longrightarrow> F y = Some nd" by simp
  show "\<not> T nd \<Longrightarrow> F y \<noteq> Some nd" using F find_tall [of T V nd] d' by auto
  show "T nd \<Longrightarrow> (F nd \<noteq> None \<Longrightarrow> v = S y + (S nd - 1)) \<Longrightarrow>
           linked T (F(y := F nd)) (S(y := v)) (h # U @ V)"
    using linked_delete_tall [OF l' U(2,3) _ d'] unfolding A by blast
  show "\<not> T nd \<Longrightarrow> linked T F (S(y := S y - 1)) (h # U @ V)"
    using linked_delete_short [OF l' U(2,3) _ d'] unfolding A by blast
qed

section \<open>The store, level by level\<close>

abbreviation nd_of :: "skiplist \<Rightarrow> nat \<Rightarrow> node" where
  "nd_of s a \<equiv> the (sl_heap s a)"

definition ht :: "skiplist \<Rightarrow> nat \<Rightarrow> nat" where
  "ht s a = length (node_forward (nd_of s a))"

definition wd :: "skiplist \<Rightarrow> nat \<Rightarrow> nat" where
  "wd s a = length (node_span (nd_of s a))"

definition fw :: "skiplist \<Rightarrow> nat \<Rightarrow> nat \<Rightarrow> nat option" where
  "fw s l a = node_forward (nd_of s a) ! l"

definition sp :: "skiplist \<Rightarrow> nat \<Rightarrow> nat \<Rightarrow> 64 word" where
  "sp s l a = node_span (nd_of s a) ! l"

definition nkey :: "skiplist \<Rightarrow> nat \<Rightarrow> double \<times> string" where
  "nkey s a = (node_score (nd_of s a), node_member (nd_of s a))"

definition same_shape :: "skiplist \<Rightarrow> skiplist \<Rightarrow> bool" where
  "same_shape s t \<longleftrightarrow>
     dom (sl_heap t) = dom (sl_heap s) \<and> ht t = ht s \<and> wd t = wd s \<and> nkey t = nkey s \<and>
     sl_header t = sl_header s \<and> sl_level t = sl_level s \<and> sl_length t = sl_length s \<and>
     sl_fresh t = sl_fresh s"

lemma same_shape_refl [simp]: "same_shape s s"
  by (simp add: same_shape_def)

lemma same_shape_trans: "same_shape s t \<Longrightarrow> same_shape t u \<Longrightarrow> same_shape s u"
  by (simp add: same_shape_def)

lemma get_forward_eq [simp]:
  "a \<in> dom (sl_heap s) \<Longrightarrow> i < ht s a \<Longrightarrow> get_forward s a i = Some (fw s i a)"
  by (auto simp: get_forward_def vec_at_def ht_def fw_def)

lemma get_span_eq [simp]:
  "a \<in> dom (sl_heap s) \<Longrightarrow> i < wd s a \<Longrightarrow> get_span s a i = Some (sp s i a)"
  by (auto simp: get_span_def vec_at_def wd_def sp_def)

lemma set_forward_ok:
  assumes "a \<in> dom (sl_heap s)" and "i < ht s a"
  obtains t where "set_forward s a i p = Some t" "same_shape s t" "sp t = sp s"
    "fw t = (fw s)(i := (fw s i)(a := p))"
proof -
  from assms obtain n where n: "sl_heap s a = Some n" "i < length (node_forward n)"
    by (auto simp: ht_def)
  let ?t = "set_node s a (n\<lparr>node_forward := (node_forward n)[i := p]\<rparr>)"
  show thesis
  proof
    show "set_forward s a i p = Some ?t" using n by (simp add: set_forward_def vec_set_def)
    show "same_shape s ?t" "sp ?t = sp s" "fw ?t = (fw s)(i := (fw s i)(a := p))"
      using n by (auto simp: same_shape_def set_node_def ht_def wd_def nkey_def sp_def fw_def
          fun_eq_iff nth_list_update)
  qed
qed

lemma set_span_ok:
  assumes "a \<in> dom (sl_heap s)" and "i < wd s a"
  obtains t where "set_span s a i v = Some t" "same_shape s t" "fw t = fw s"
    "sp t = (sp s)(i := (sp s i)(a := v))"
proof -
  from assms obtain n where n: "sl_heap s a = Some n" "i < length (node_span n)"
    by (auto simp: wd_def)
  let ?t = "set_node s a (n\<lparr>node_span := (node_span n)[i := v]\<rparr>)"
  show thesis
  proof
    show "set_span s a i v = Some ?t" using n by (simp add: set_span_def vec_set_def)
    show "same_shape s ?t" "fw ?t = fw s" "sp ?t = (sp s)(i := (sp s i)(a := v))"
      using n by (auto simp: same_shape_def set_node_def ht_def wd_def nkey_def sp_def fw_def
          fun_eq_iff nth_list_update)
  qed
qed

text \<open>A loop over the levels \<open>m, ..., n - 1\<close> whose turn \<open>i\<close> writes level \<open>i\<close> only.\<close>

definition level_step ::
  "(skiplist \<Rightarrow> nat \<Rightarrow> skiplist option) \<Rightarrow> skiplist \<Rightarrow> nat \<Rightarrow> (nat \<Rightarrow> nat option) \<Rightarrow>
   (nat \<Rightarrow> 64 word) \<Rightarrow> bool" where
  "level_step f s i F S \<longleftrightarrow>
     (\<forall>t. same_shape s t \<and> fw t i = fw s i \<and> sp t i = sp s i \<longrightarrow>
        (\<exists>u. f t i = Some u \<and> same_shape t u \<and> fw u = (fw t)(i := F) \<and> sp u = (sp t)(i := S)))"

lemma foldM_levels:
  assumes "\<And>i. m \<le> i \<Longrightarrow> i < n \<Longrightarrow> level_step f s i (F i) (S i)"
  obtains t where "foldM f s [m..<n] = Some t" "same_shape s t"
    "\<And>l. fw t l = (if m \<le> l \<and> l < n then F l else fw s l)"
    "\<And>l. sp t l = (if m \<le> l \<and> l < n then S l else sp s l)"
proof -
  have "\<exists>t. foldM f s [m..<n] = Some t \<and> same_shape s t \<and>
    (\<forall>l. fw t l = (if m \<le> l \<and> l < n then F l else fw s l)) \<and>
    (\<forall>l. sp t l = (if m \<le> l \<and> l < n then S l else sp s l))"
    using assms
  proof (induction n)
    case 0
    then show ?case by (intro exI [of _ s]) simp
  next
    case (Suc n)
    show ?case
    proof (cases "m \<le> n")
      case False
      then show ?thesis by (intro exI [of _ s]) auto
    next
      case True
      from Suc obtain t where t: "foldM f s [m..<n] = Some t" "same_shape s t"
        "\<forall>l. fw t l = (if m \<le> l \<and> l < n then F l else fw s l)"
        "\<forall>l. sp t l = (if m \<le> l \<and> l < n then S l else sp s l)"
        by auto
      moreover have "level_step f s n (F n) (S n)" using Suc.prems True by simp
      ultimately obtain u where u: "f t n = Some u" "same_shape t u"
        "fw u = (fw t)(n := F n)" "sp u = (sp t)(n := S n)"
        unfolding level_step_def by (metis less_irrefl)
      have "foldM f s [m..<Suc n] = Some u" using t u True by (simp add: foldM_append)
      moreover have "same_shape s u" using t u by (blast intro: same_shape_trans)
      ultimately show ?thesis using t u True by (intro exI [of _ u]) auto
    qed
  qed
  with that show thesis by blast
qed

section \<open>The invariant\<close>

text \<open>
  \<open>sl_ok s ns\<close>: the store holds exactly the header and the nodes \<open>ns\<close>, in strictly
  increasing key order; every level is linked; \<open>level_\<close> is the height of the tallest node
  (at least 1) and \<open>length_\<close> counts the nodes.
\<close>

abbreviation tall :: "skiplist \<Rightarrow> nat \<Rightarrow> nat \<Rightarrow> bool" where
  "tall s l a \<equiv> l < ht s a"

definition shape_ok :: "skiplist \<Rightarrow> nat list \<Rightarrow> bool" where
  "shape_ok s ns \<longleftrightarrow>
     distinct (sl_header s # ns) \<and> dom (sl_heap s) = set (sl_header s # ns) \<and>
     (\<forall>a\<in>set (sl_header s # ns). a < sl_fresh s \<and> wd s a = ht s a) \<and>
     ht s (sl_header s) = kMaxLevel \<and> (\<forall>a\<in>set ns. 0 < ht s a \<and> ht s a \<le> sl_level s) \<and>
     0 < sl_level s \<and> sl_level s \<le> kMaxLevel"

definition top_ok :: "skiplist \<Rightarrow> nat list \<Rightarrow> bool" where
  "top_ok s ns \<longleftrightarrow> sl_level s = 1 \<or> (\<exists>a\<in>set ns. ht s a = sl_level s)"

definition links_ok :: "skiplist \<Rightarrow> nat list \<Rightarrow> bool" where
  "links_ok s ns \<longleftrightarrow> (\<forall>l<kMaxLevel. linked (tall s l) (fw s l) (sp s l) (sl_header s # ns))"

definition num_score :: "double \<times> string \<Rightarrow> bool" where
  "num_score p \<longleftrightarrow> \<not> d_isnan (fst p)"

definition zsorted :: "(double \<times> string) list \<Rightarrow> bool" where
  "zsorted xs \<longleftrightarrow> sorted_wrt (<) (map zkey xs) \<and> (\<forall>p\<in>set xs. num_score p)"

definition sl_ok :: "skiplist \<Rightarrow> nat list \<Rightarrow> bool" where
  "sl_ok s ns \<longleftrightarrow>
     shape_ok s ns \<and> top_ok s ns \<and> links_ok s ns \<and> sl_length s = length ns \<and>
     zsorted (map (nkey s) ns)"

definition sl_rel :: "skiplist \<Rightarrow> (double \<times> string) list \<Rightarrow> bool" where
  "sl_rel s xs \<longleftrightarrow> (\<exists>ns. sl_ok s ns \<and> xs = map (nkey s) ns)"

lemma sl_ok_linked:
  "links_ok s ns \<Longrightarrow> l < kMaxLevel \<Longrightarrow> linked (tall s l) (fw s l) (sp s l) (sl_header s # ns)"
  by (simp add: links_ok_def)

section \<open>The descent finds the predecessors\<close>

lemma walk_correct:
  assumes "linked (tall s l) (fw s l) (sp s l) (a # U @ V)" and "tall s l a"
    and "\<forall>b\<in>set (a # U @ V). b \<in> dom (sl_heap s) \<and> wd s b = ht s b"
    and "\<forall>b\<in>set U. cond (nd_of s b)" and "\<forall>b\<in>set V. \<not> cond (nd_of s b)"
  shows "\<exists>x k. last_at (tall s l) (a # U) x k \<and> walk cond s l a r = Some (x, r + of_nat k)"
  using assms
proof (induction "length U" arbitrary: a U r rule: less_induct)
  case less
  have gf: "get_forward s a l = Some (fw s l a)" using less.prems by simp
  show ?case
  proof (cases "none_of (tall s l) U")
    case True
    then have f: "fw s l a = find (tall s l) V" using less.prems by (simp add: find_skip)
    have "walk cond s l a r = Some (a, r)"
    proof (cases "find (tall s l) V")
      case None
      with gf f show ?thesis by (simp add: walk.simps)
    next
      case (Some b)
      then have "b \<in> set V" using find_tall by metis
      with less.prems obtain n where "sl_heap s b = Some n" "\<not> cond n" by fastforce
      with gf f Some show ?thesis by (simp add: walk.simps)
    qed
    moreover have "last_at (tall s l) (a # U) a 0"
      using True less.prems(2) by (force simp: last_at_def)
    ultimately show ?thesis by (intro exI [of _ a] exI [of _ 0]) simp
  next
    case False
    then obtain W b U' where U: "U = W @ b # U'" "none_of (tall s l) W" "tall s l b"
      using split_list_first_prop [of U "tall s l"] by (auto simp: none_of_def)
    have fa: "fw s l a = Some b" "sp s l a = of_nat (Suc (length W))"
      using less.prems(1,2) U by (simp_all add: find_skip takeWhile_skip)
    have "b \<in> dom (sl_heap s)" "cond (nd_of s b)" using less.prems U by auto
    then obtain n where n: "sl_heap s b = Some n" "cond n" by auto
    have "linked (tall s l) (fw s l) (sp s l) (b # U' @ V)"
      using linked_tail [of "tall s l" "fw s l" "sp s l" "a # W" "b # U' @ V"] less.prems(1) U by simp
    then obtain x k where xk: "last_at (tall s l) (b # U') x k"
      "walk cond s l b (r + of_nat (Suc (length W))) = Some (x, r + of_nat (Suc (length W)) + of_nat k)"
      using less.hyps [of U' b "r + of_nat (Suc (length W))"] less.prems U by auto
    have "get_span s a l = Some (of_nat (Suc (length W)))" using less.prems(2,3) fa by simp
    with gf fa(1) n have "walk cond s l a r = walk cond s l b (r + of_nat (Suc (length W)))"
      by (simp add: walk.simps [of cond s l a r])
    with xk(2) have "walk cond s l a r = Some (x, r + of_nat (length (a # W) + k))"
      by (simp add: algebra_simps)
    moreover have "last_at (tall s l) (a # U) x (length (a # W) + k)"
      using last_at_prepend [OF xk(1), of "a # W"] U by simp
    ultimately show ?thesis by blast
  qed
qed

text \<open>
  After the descent from level \<open>i - 1\<close>, \<open>update[l]\<close> and \<open>rank[l]\<close> are, for every level \<open>l\<close>
  below \<open>i\<close>, the last node before the nkey that reaches \<open>l\<close> and its index.
\<close>

lemma descend_correct:
  assumes "\<forall>l<i. linked (tall s l) (fw s l) (sp s l) (h # U @ V)"
    and "\<forall>b\<in>set (h # U @ V). b \<in> dom (sl_heap s) \<and> wd s b = ht s b"
    and "\<forall>b\<in>set U. cond (nd_of s b)" and "\<forall>b\<in>set V. \<not> cond (nd_of s b)"
    and "h # U = P @ x # Q" and "i \<noteq> 0 \<Longrightarrow> tall s (i - 1) x"
    and "i \<le> length update" and "i \<le> length rank"
  shows "\<exists>x0 update' rank'.
     descend cond s i x (of_nat (length P)) update rank = Some (x0, update', rank') \<and>
     length update' = length update \<and> length rank' = length rank \<and>
     (\<forall>l\<ge>i. update' ! l = update ! l \<and> rank' ! l = rank ! l) \<and>
     (\<forall>l<i. \<exists>y k. last_at (tall s l) (h # U) y k \<and> update' ! l = Some y \<and> rank' ! l = of_nat k) \<and>
     (if i = 0 then x0 = x else update' ! 0 = Some x0)"
  using assms
proof (induction i arbitrary: P x Q update rank)
  case 0
  then show ?case by simp
next
  case (Suc i)
  have tx: "tall s i x" using Suc.prems(6) by simp
  have Q: "set Q \<subseteq> set U"
    using Suc.prems(5) by (cases P) auto
  have lk: "linked (tall s i) (fw s i) (sp s i) (x # Q @ V)"
    using linked_tail [of "tall s i" "fw s i" "sp s i" P "x # Q @ V"] Suc.prems(1,5)
    by (metis append.assoc append_Cons lessI)
  have all: "\<forall>b\<in>set (x # Q @ V). b \<in> dom (sl_heap s) \<and> wd s b = ht s b"
    using Suc.prems(2,5) by (metis Un_iff append.assoc append_Cons set_append)
  have "\<forall>b\<in>set Q. cond (nd_of s b)" using Q Suc.prems(3) by blast
  from walk_correct [OF lk tx all this Suc.prems(4), of "of_nat (length P)"]
  obtain y k where y: "last_at (tall s i) (x # Q) y k"
    "walk cond s i x (of_nat (length P)) = Some (y, of_nat (length P + k))"
    by auto
  have yA: "last_at (tall s i) (h # U) y (length P + k)"
    using last_at_prepend [OF y(1), of P] Suc.prems(5) by simp
  then obtain W1 W2 where W: "h # U = W1 @ y # W2" "tall s i y" "length P + k = length W1"
    by (auto elim: last_at_E)
  let ?u = "update[i := Some y]" and ?r = "rank[i := of_nat (length W1)]"
  have lk': "\<forall>l<i. linked (tall s l) (fw s l) (sp s l) (h # U @ V)"
    using Suc.prems(1) by (meson less_SucI)
  have "i \<noteq> 0 \<Longrightarrow> tall s (i - 1) y" "i \<le> length ?u" "i \<le> length ?r"
    using W(2) Suc.prems(7,8) by simp_all
  from Suc.IH [OF lk' Suc.prems(2,3,4) W(1) this] obtain x0 u' r' where IH:
    "descend cond s i y (of_nat (length W1)) ?u ?r = Some (x0, u', r')"
    "length u' = length ?u" "length r' = length ?r"
    "\<forall>l\<ge>i. u' ! l = ?u ! l \<and> r' ! l = ?r ! l"
    "\<forall>l<i. \<exists>y k. last_at (tall s l) (h # U) y k \<and> u' ! l = Some y \<and> r' ! l = of_nat k"
    "if i = 0 then x0 = y else u' ! 0 = Some x0"
    by blast
  have "descend cond s (Suc i) x (of_nat (length P)) update rank = Some (x0, u', r')"
    using y(2) W(3) IH(1) Suc.prems(7,8) by (simp add: vec_set_def)
  moreover have "u' ! i = Some y" "r' ! i = of_nat (length W1)"
    using IH(4) Suc.prems(7,8) by simp_all
  moreover from this(1) have "u' ! 0 = Some x0" using IH(6) by (cases "i = 0") simp_all
  ultimately show ?case
    using IH yA W(3) by (intro exI [of _ x0] exI [of _ u'] exI [of _ r']) (auto simp: less_Suc_eq)
qed

lemma shape_okD:
  assumes "shape_ok s ns"
  shows "distinct (sl_header s # ns)" "dom (sl_heap s) = set (sl_header s # ns)"
    "\<And>a. a \<in> set (sl_header s # ns) \<Longrightarrow> a < sl_fresh s" "\<And>a. a \<in> set (sl_header s # ns) \<Longrightarrow> wd s a = ht s a"
    "ht s (sl_header s) = kMaxLevel" "\<And>a. a \<in> set ns \<Longrightarrow> 0 < ht s a"
    "\<And>a. a \<in> set ns \<Longrightarrow> ht s a \<le> sl_level s" "0 < sl_level s" "sl_level s \<le> kMaxLevel"
  using assms by (auto simp: shape_ok_def)

lemma sl_okD:
  assumes "sl_ok s ns"
  shows "shape_ok s ns" "top_ok s ns" "links_ok s ns" "sl_length s = length ns"
    "zsorted (map (nkey s) ns)"
  using assms by (simp_all add: sl_ok_def)

text \<open>Splitting the nodes at a key.\<close>

lemma key_split:
  assumes "zsorted (map (nkey s) ns)"
  obtains U V where "ns = U @ V" "\<forall>b\<in>set U. zkey (nkey s b) < k" "\<forall>b\<in>set V. k \<le> zkey (nkey s b)"
proof
  let ?P = "\<lambda>b. zkey (nkey s b) < k"
  show "ns = takeWhile ?P ns @ dropWhile ?P ns" by simp
  show "\<forall>b\<in>set (takeWhile ?P ns). zkey (nkey s b) < k" by (auto dest: set_takeWhileD)
  have "sorted (map (\<lambda>b. zkey (nkey s b)) ns)"
    using assms by (simp add: zsorted_def comp_def strict_sorted_iff)
  then have "sorted (map (\<lambda>b. zkey (nkey s b)) (dropWhile ?P ns))"
    by (metis dropWhile_eq_drop drop_map sorted_wrt_drop)
  then show "\<forall>b\<in>set (dropWhile ?P ns). k \<le> zkey (nkey s b)"
    using hd_dropWhile [of ?P ns]
    by (cases "dropWhile ?P ns") (fastforce simp: not_less intro: order_trans simp del: dropWhile_eq_Nil_conv)+
qed

lemma before_key_iff:
  assumes "num_score (nkey s b)" and "\<not> d_isnan sc"
  shows "before_key sc m (nd_of s b) \<longleftrightarrow> zkey (nkey s b) < zkey (sc, m)"
  using assms by (simp add: before_key_def nkey_def num_score_def KeyLess_zkey)

text \<open>At level 0 every node is reached, so the pointer there is the next node.\<close>

lemma next_at_0:
  assumes "shape_ok s ns" and "links_ok s ns" and "sl_header s # ns = U1 @ x # U2"
  shows "get_forward s x 0 = Some (case U2 of [] \<Rightarrow> None | b # _ \<Rightarrow> Some b)"
proof -
  note sh = shape_okD [OF assms(1)]
  have t: "tall s 0 b" if "b \<in> set (sl_header s # ns)" for b
    using that sh by (auto simp: kMaxLevel_def)
  have x: "x \<in> set (sl_header s # ns)" and U2: "set U2 \<subseteq> set (sl_header s # ns)"
    using assms(3) by auto
  have "linked (tall s 0) (fw s 0) (sp s 0) (sl_header s # ns)"
    using assms(2) by (rule sl_ok_linked) (simp add: kMaxLevel_def)
  then have "linked (tall s 0) (fw s 0) (sp s 0) (x # U2)"
    unfolding assms(3) by (rule linked_tail)
  then have "fw s 0 x = find (tall s 0) U2" using t [OF x] by simp
  also have "\<dots> = (case U2 of [] \<Rightarrow> None | b # _ \<Rightarrow> Some b)"
    using t U2 by (cases U2) auto
  finally show ?thesis using t [OF x] x sh(2) by simp
qed

text \<open>What \<open>update\<close> and \<open>rank\<close> hold below level \<open>L\<close> once the descent is over.\<close>

definition preds_ok ::
  "skiplist \<Rightarrow> nat list \<Rightarrow> nat \<Rightarrow> nat option list \<Rightarrow> 64 word list \<Rightarrow> bool" where
  "preds_ok s U L update rank \<longleftrightarrow>
     length update = kMaxLevel \<and> length rank = kMaxLevel \<and>
     (\<forall>l<L. \<exists>y k. last_at (tall s l) (sl_header s # U) y k \<and>
        update ! l = Some y \<and> rank ! l = of_nat k)"

lemma descend_top:
  assumes ok: "sl_ok s ns" and ns: "ns = U @ V"
    and c: "\<forall>b\<in>set U. cond (nd_of s b)" "\<forall>b\<in>set V. \<not> cond (nd_of s b)"
  obtains update rank where
    "descend cond s (sl_level s) (sl_header s) 0 (replicate kMaxLevel None) (replicate kMaxLevel 0) =
       Some (last (sl_header s # U), update, rank)"
    "preds_ok s U (sl_level s) update rank"
proof -
  note sh = shape_okD [OF sl_okD(1) [OF ok]] and lk = sl_okD(3) [OF ok]
  let ?h = "sl_header s"
  have links: "\<forall>l < sl_level s. linked (tall s l) (fw s l) (sp s l) (?h # U @ V)"
    using sl_ok_linked [OF lk] sh(9) ns by (metis less_le_trans)
  have all: "\<forall>b\<in>set (?h # U @ V). b \<in> dom (sl_heap s) \<and> wd s b = ht s b"
    using sh(2,4) ns by blast
  have hd: "sl_level s \<noteq> 0 \<Longrightarrow> tall s (sl_level s - 1) ?h" using sh(5,9) by simp
  let ?u = "replicate kMaxLevel (None :: nat option)" and ?r = "replicate kMaxLevel (0 :: 64 word)"
  from descend_correct [where P = "[]" and x = ?h and update = ?u and rank = ?r,
      OF links all c _ hd] sh(8,9)
  obtain x0 u' r' where d: "descend cond s (sl_level s) ?h 0 ?u ?r = Some (x0, u', r')"
    "length u' = kMaxLevel" "length r' = kMaxLevel"
    "\<forall>l < sl_level s. \<exists>y k. last_at (tall s l) (?h # U) y k \<and> u' ! l = Some y \<and> r' ! l = of_nat k"
    "u' ! 0 = Some x0"
    by auto
  from d(4,5) sh(8) obtain k where "last_at (tall s 0) (?h # U) x0 k" by fastforce
  then have "x0 = last (?h # U)" using last_at_bottom(2) [of U "tall s 0"] sh(6) ns by auto
  with d show thesis by (intro that) (simp_all add: preds_ok_def)
qed

lemma find_from_top_correct:
  assumes ok: "sl_ok s ns" and num: "\<not> d_isnan sc"
    and ns: "ns = U @ V" and U: "\<forall>b\<in>set U. zkey (nkey s b) < zkey (sc, m)"
    and V: "\<forall>b\<in>set V. zkey (sc, m) \<le> zkey (nkey s b)"
  obtains x0 update rank where "find_from_top s sc m = Some (x0, update, rank)"
    "preds_ok s U (sl_level s) update rank"
    "candidate s x0 sc m =
       Some (case V of [] \<Rightarrow> None | v # _ \<Rightarrow> if zkey (nkey s v) = zkey (sc, m) then Some v else None)"
proof -
  let ?x = "last (sl_header s # U)"
  have nums: "num_score (nkey s b)" if "b \<in> set ns" for b
    using sl_okD(5) [OF ok] that by (auto simp: zsorted_def)
  have "\<forall>b\<in>set U. before_key sc m (nd_of s b)" "\<forall>b\<in>set V. \<not> before_key sc m (nd_of s b)"
    using U V nums before_key_iff [OF _ num] ns by (auto simp: not_less)
  from descend_top [OF ok ns this] obtain update rank where
    d: "find_from_top s sc m = Some (?x, update, rank)" "preds_ok s U (sl_level s) update rank"
    unfolding find_from_top_def by metis
  have "sl_header s # ns = butlast (sl_header s # U) @ ?x # V"
    using append_butlast_last_id [of "sl_header s # U"] ns
    by (metis append.assoc append_Cons append_Nil list.distinct(1))
  from next_at_0 [OF sl_okD(1,3) [OF ok] this]
  have "get_forward s ?x 0 = Some (case V of [] \<Rightarrow> None | b # _ \<Rightarrow> Some b)" .
  moreover have "KeyEqual (node_score n) (node_member n) sc m \<longleftrightarrow> zkey (nkey s v) = zkey (sc, m)"
    if "sl_heap s v = Some n" "v \<in> set V" for v n
    using that nums [of v] num ns by (simp add: KeyEqual_zkey nkey_def num_score_def)
  moreover have "\<forall>v\<in>set V. v \<in> dom (sl_heap s)"
    using shape_okD(2) [OF sl_okD(1) [OF ok]] ns by auto
  ultimately have "candidate s ?x sc m =
       Some (case V of [] \<Rightarrow> None | v # _ \<Rightarrow> if zkey (nkey s v) = zkey (sc, m) then Some v else None)"
    by (cases V) (auto simp: candidate_def)
  with d that show thesis by blast
qed

section \<open>Insert\<close>

lemma RandomLevelFrom_bounds:
  "1 \<le> level \<Longrightarrow> level \<le> kMaxLevel \<Longrightarrow>
   1 \<le> RandomLevelFrom rnd level \<and> RandomLevelFrom rnd level \<le> kMaxLevel"
proof (induction rnd level rule: RandomLevelFrom.induct)
  case (1 rnd level)
  then show ?case by (simp add: RandomLevelFrom.simps [of rnd level])
qed

lemma RandomLevel_bounds: "1 \<le> RandomLevel rnd" "RandomLevel rnd \<le> kMaxLevel"
  using RandomLevelFrom_bounds [of 1 rnd] by (simp_all add: RandomLevel_def kMaxLevel_def)

lemma linked_header_only:
  assumes "T h" and "none_of T ns" and "F h = None"
  shows "linked T F S (h # ns)"
proof -
  have "find T ns = None" using assms(2) by (simp add: find_eq_None_iff)
  moreover have "linked T F S ns" using linked_skip [OF assms(2), of F S "[]"] by simp
  ultimately show ?thesis using assms by simp
qed

lemma high_level_empty:
  assumes "shape_ok s ns" and "sl_level s \<le> l"
  shows "none_of (tall s l) ns"
  using assms shape_okD(7) [OF assms(1)] by (fastforce simp: none_of_def)

lemma raise_level_foldM:
  assumes "shape_ok s ns" and "m \<le> n" and "n \<le> kMaxLevel"
    and "length update = kMaxLevel" and "length rank = kMaxLevel"
  obtains t u' r' where
    "foldM raise_step (s, update, rank) [m..<n] = Some (t, u', r')"
    "same_shape s t" "fw t = fw s"
    "\<And>l a. a \<noteq> sl_header s \<or> \<not> (m \<le> l \<and> l < n) \<Longrightarrow> sp t l a = sp s l a"
    "length u' = kMaxLevel" "length r' = kMaxLevel"
    "\<And>l. m \<le> l \<Longrightarrow> l < n \<Longrightarrow> u' ! l = Some (sl_header s) \<and> r' ! l = 0"
    "\<And>l. l < m \<Longrightarrow> u' ! l = update ! l \<and> r' ! l = rank ! l"
proof -
  let ?P = "\<lambda>n t u' r'. foldM raise_step (s, update, rank) [m..<n] = Some (t, u', r') \<and>
    same_shape s t \<and> fw t = fw s \<and>
    (\<forall>l a. a \<noteq> sl_header s \<or> \<not> (m \<le> l \<and> l < n) \<longrightarrow> sp t l a = sp s l a) \<and>
    length u' = kMaxLevel \<and> length r' = kMaxLevel \<and>
    (\<forall>l. m \<le> l \<and> l < n \<longrightarrow> u' ! l = Some (sl_header s) \<and> r' ! l = 0) \<and>
    (\<forall>l<m. u' ! l = update ! l \<and> r' ! l = rank ! l)"
  have "\<exists>t u' r'. ?P n t u' r'"
    using assms(2,3)
  proof (induction n)
    case 0
    then show ?case using assms(4,5) by (intro exI [of _ s]) auto
  next
    case (Suc n)
    show ?case
    proof (cases "m = Suc n")
      case True
      then show ?thesis using assms(4,5) by (intro exI [of _ s]) auto
    next
      case False
      with Suc obtain t u' r' where t: "?P n t u' r'" by auto
      have "sl_header t \<in> dom (sl_heap t)" "n < wd t (sl_header t)" "sl_header t = sl_header s"
        using t shape_okD [OF assms(1)] Suc.prems by (auto simp: same_shape_def)
      with set_span_ok obtain t' where t': "set_span t (sl_header s) n (of_nat (sl_length t)) = Some t'"
        "same_shape t t'" "fw t' = fw t"
        "sp t' = (sp t)(n := (sp t n)(sl_header s := of_nat (sl_length t)))"
        by metis
      have "foldM raise_step (s, update, rank) [m..<Suc n] = Some (t', u'[n := Some (sl_header s)], r'[n := 0])"
        using t t'(1) False Suc.prems \<open>sl_header t = sl_header s\<close>
        by (simp add: foldM_append vec_set_def)
      then have "?P (Suc n) t' (u'[n := Some (sl_header s)]) (r'[n := 0])"
        using t t' Suc.prems False
        by (auto simp: nth_list_update less_Suc_eq intro: same_shape_trans)
      then show ?thesis by blast
    qed
  qed
  with that show thesis by blast
qed

lemma same_shape_level:
  "same_shape s t \<Longrightarrow> ht (t\<lparr>sl_level := n\<rparr>) = ht s \<and> wd (t\<lparr>sl_level := n\<rparr>) = wd s \<and>
   nkey (t\<lparr>sl_level := n\<rparr>) = nkey s"
  by (simp add: same_shape_def ht_def wd_def nkey_def fun_eq_iff)

lemma fw_sp_level [simp]:
  "fw (t\<lparr>sl_level := n\<rparr>) = fw t" "sp (t\<lparr>sl_level := n\<rparr>) = sp t"
  "fw (t\<lparr>sl_length := n\<rparr>) = fw t" "sp (t\<lparr>sl_length := n\<rparr>) = sp t"
  "ht (t\<lparr>sl_level := n\<rparr>) = ht t" "wd (t\<lparr>sl_level := n\<rparr>) = wd t" "nkey (t\<lparr>sl_level := n\<rparr>) = nkey t"
  "ht (t\<lparr>sl_length := n\<rparr>) = ht t" "wd (t\<lparr>sl_length := n\<rparr>) = wd t" "nkey (t\<lparr>sl_length := n\<rparr>) = nkey t"
  by (simp_all add: fw_def sp_def ht_def wd_def nkey_def fun_eq_iff)

lemma raise_level_correct:
  assumes ok: "shape_ok s ns" "links_ok s ns" and pr: "preds_ok s U (sl_level s) update rank"
    and U: "set U \<subseteq> set ns" and lv: "level \<le> kMaxLevel"
  obtains t u' r' where "raise_level s level update rank = Some (t, u', r')"
    "shape_ok t ns" "links_ok t ns" "nkey t = nkey s" "ht t = ht s"
    "sl_level t = max (sl_level s) level" "sl_header t = sl_header s" "sl_length t = sl_length s"
    "preds_ok t U (sl_level t) u' r'"
proof (cases "level > sl_level s")
  case False
  with ok pr that [of s update rank] show thesis by (simp add: raise_level_def max_def)
next
  case True
  note sh = shape_okD [OF ok(1)]
  let ?h = "sl_header s"
  have len: "length update = kMaxLevel" "length rank = kMaxLevel" using pr by (simp_all add: preds_ok_def)
  obtain t u' r' where t: "foldM raise_step (s, update, rank) [sl_level s..<level] = Some (t, u', r')"
    "same_shape s t" "fw t = fw s"
    "\<And>l a. a \<noteq> ?h \<or> \<not> (sl_level s \<le> l \<and> l < level) \<Longrightarrow> sp t l a = sp s l a"
    "length u' = kMaxLevel" "length r' = kMaxLevel"
    "\<And>l. sl_level s \<le> l \<Longrightarrow> l < level \<Longrightarrow> u' ! l = Some ?h \<and> r' ! l = 0"
    "\<And>l. l < sl_level s \<Longrightarrow> u' ! l = update ! l \<and> r' ! l = rank ! l"
    using raise_level_foldM [OF ok(1) less_imp_le [OF True] lv len] by blast
  let ?t = "t\<lparr>sl_level := level\<rparr>"
  have eq: "ht ?t = ht s" "wd ?t = wd s" "nkey ?t = nkey s" "sl_header ?t = ?h"
    "dom (sl_heap ?t) = dom (sl_heap s)" "sl_fresh ?t = sl_fresh s" "sl_length ?t = sl_length s"
    using t(2) by (simp_all add: same_shape_def)
  have "shape_ok ?t ns"
    using ok(1) True lv unfolding shape_ok_def eq by (auto intro: order_trans less_imp_le)
  moreover have "links_ok ?t ns"
    unfolding links_ok_def
  proof (intro allI impI)
    fix l assume l: "l < kMaxLevel"
    have old: "linked (tall s l) (fw s l) (sp s l) (?h # ns)" using sl_ok_linked [OF ok(2) l] .
    show "linked (tall ?t l) (fw ?t l) (sp ?t l) (sl_header ?t # ns)"
    proof (cases "sl_level s \<le> l")
      case True
      have none: "none_of (tall s l) ns" using high_level_empty [OF ok(1) True] .
      have "tall s l ?h" using sh(5) l by simp
      moreover from old this none have "fw s l ?h = None" by (simp add: find_eq_None_iff)
      ultimately show ?thesis using none eq(1,4) t(3) by (simp only: fw_sp_level linked_header_only)
    next
      case False
      then have "sp t l = sp s l" using t(4) by auto
      with old eq t(3) show ?thesis by (simp only: fw_sp_level)
    qed
  qed
  moreover have "preds_ok ?t U level u' r'"
    unfolding preds_ok_def eq
  proof (intro conjI allI impI)
    fix l assume l: "l < level"
    show "\<exists>y k. last_at (tall s l) (?h # U) y k \<and> u' ! l = Some y \<and> r' ! l = of_nat k"
    proof (cases "sl_level s \<le> l")
      case True
      have "none_of (tall s l) U"
        using high_level_empty [OF ok(1) True] U by (auto simp: none_of_def)
      then have "last_at (tall s l) (?h # U) ?h 0"
        using sh(5) l lv by (auto simp: last_at_def intro!: exI [of _ "[]"])
      with t(7) [OF True l] show ?thesis by (intro exI [of _ ?h] exI [of _ 0]) simp
    next
      case False
      with pr t(8) show ?thesis by (simp add: preds_ok_def)
    qed
  qed (use t in simp_all)
  moreover have "raise_level s level update rank = Some (?t, u', r')"
    using True t(1) by (simp add: raise_level_def)
  ultimately show thesis using that [of ?t u' r'] eq True by simp
qed

text \<open>Allocation.\<close>

lemma new_node_correct:
  assumes "shape_ok s ns" and "new_node s level sc m = (t, nd)"
  shows "nd \<notin> set (sl_header s # ns)" "dom (sl_heap t) = insert nd (dom (sl_heap s))"
    "ht t = (ht s)(nd := level)" "wd t = (wd s)(nd := level)" "nkey t = (nkey s)(nd := (sc, m))"
    "\<And>l a. a \<noteq> nd \<Longrightarrow> fw t l a = fw s l a" "\<And>l a. a \<noteq> nd \<Longrightarrow> sp t l a = sp s l a"
    "sl_header t = sl_header s" "sl_level t = sl_level s" "sl_length t = sl_length s"
    "sl_fresh t = Suc nd" "\<And>a. a \<in> set (sl_header s # ns) \<Longrightarrow> a < Suc nd"
proof -
  have nd: "nd = sl_fresh s"
    and t: "t = set_node (s\<lparr>sl_fresh := Suc nd\<rparr>) nd
       \<lparr>node_score = sc, node_member = m, node_forward = replicate level None,
        node_span = replicate level 0\<rparr>"
    using assms(2) by (auto simp: new_node_def Let_def)
  note sh = shape_okD [OF assms(1)]
  show "nd \<notin> set (sl_header s # ns)" using sh(3) nd by blast
  show "\<And>a. a \<in> set (sl_header s # ns) \<Longrightarrow> a < Suc nd" using sh(3) nd by (simp add: less_Suc_eq)
  show "dom (sl_heap t) = insert nd (dom (sl_heap s))"
    "ht t = (ht s)(nd := level)" "wd t = (wd s)(nd := level)" "nkey t = (nkey s)(nd := (sc, m))"
    "\<And>l a. a \<noteq> nd \<Longrightarrow> fw t l a = fw s l a" "\<And>l a. a \<noteq> nd \<Longrightarrow> sp t l a = sp s l a"
    "sl_header t = sl_header s" "sl_level t = sl_level s" "sl_length t = sl_length s"
    "sl_fresh t = Suc nd"
    by (auto simp: t set_node_def ht_def wd_def nkey_def fw_def sp_def fun_eq_iff)
qed

lemma link_level_step:
  assumes "update ! i = Some u" and "u \<noteq> nd" and "u \<in> dom (sl_heap s)" and "nd \<in> dom (sl_heap s)"
    and "i < ht s u" "i < ht s nd" "i < wd s u" "i < wd s nd"
    and "i < length update" "i < length rank"
  shows "level_step (link_level nd update rank) s i ((fw s i)(nd := fw s i u, u := Some nd))
     ((sp s i)(nd := sp s i u - (rank ! 0 - rank ! i), u := (rank ! 0 - rank ! i) + 1))"
  unfolding level_step_def
proof (intro allI impI, elim conjE)
  fix t assume sh: "same_shape s t" and f: "fw t i = fw s i" and p: "sp t i = sp s i"
  have D: "u \<in> dom (sl_heap t)" "nd \<in> dom (sl_heap t)" "i < ht t u" "i < ht t nd" "i < wd t u" "i < wd t nd"
    using sh assms by (simp_all add: same_shape_def)
  obtain t1 where t1: "set_forward t nd i (fw t i u) = Some t1" "same_shape t t1" "sp t1 = sp t"
    "fw t1 = (fw t)(i := (fw t i)(nd := fw t i u))"
    using set_forward_ok D by metis
  have D1: "u \<in> dom (sl_heap t1)" "i < ht t1 u" using D t1(2) by (simp_all add: same_shape_def)
  obtain t2 where t2: "set_forward t1 u i (Some nd) = Some t2" "same_shape t1 t2" "sp t2 = sp t1"
    "fw t2 = (fw t1)(i := (fw t1 i)(u := Some nd))"
    using set_forward_ok [OF D1] by metis
  have D2: "nd \<in> dom (sl_heap t2)" "i < wd t2 nd" "u \<in> dom (sl_heap t2)" "i < wd t2 u"
    using D t1(2) t2(2) by (simp_all add: same_shape_def)
  let ?v = "sp t2 i u - (rank ! 0 - rank ! i)"
  obtain t3 where t3: "set_span t2 nd i ?v = Some t3" "same_shape t2 t3" "fw t3 = fw t2"
    "sp t3 = (sp t2)(i := (sp t2 i)(nd := ?v))"
    using set_span_ok [OF D2(1,2)] by metis
  have D3: "u \<in> dom (sl_heap t3)" "i < wd t3 u" using D2 t3(2) by (simp_all add: same_shape_def)
  obtain t4 where t4: "set_span t3 u i ((rank ! 0 - rank ! i) + 1) = Some t4" "same_shape t3 t4"
    "fw t4 = fw t3" "sp t4 = (sp t3)(i := (sp t3 i)(u := (rank ! 0 - rank ! i) + 1))"
    using set_span_ok [OF D3] by metis
  have "0 < length rank" using assms(10) by linarith
  then have "link_level nd update rank t i = Some t4"
    using assms(1,9,10) D D2 t1(1) t2(1) t3(1) t4(1) by (simp add: link_level_def vec_at_def)
  moreover have "same_shape t t4"
    using t1(2) t2(2) t3(2) t4(2) by (blast intro: same_shape_trans)
  moreover have "fw t4 = (fw t)(i := (fw s i)(nd := fw s i u, u := Some nd))"
    using t1(4) t2(4) t3(3) t4(3) f by simp
  moreover have "sp t4 = (sp t)(i := (sp s i)(nd := sp s i u - (rank ! 0 - rank ! i),
      u := (rank ! 0 - rank ! i) + 1))"
    using t1(3) t2(3) t3(4) t4(4) p by simp
  ultimately show "\<exists>t4. link_level nd update rank t i = Some t4 \<and> same_shape t t4 \<and>
     fw t4 = (fw t)(i := (fw s i)(nd := fw s i u, u := Some nd)) \<and>
     sp t4 = (sp t)(i := (sp s i)(nd := sp s i u - (rank ! 0 - rank ! i),
      u := (rank ! 0 - rank ! i) + 1))"
    by blast
qed

lemma bump_span_step:
  assumes "update ! i = Some u" and "u \<in> dom (sl_heap s)" and "i < wd s u" and "i < length update"
  shows "level_step (bump_span update) s i (fw s i) ((sp s i)(u := sp s i u + 1))"
  unfolding level_step_def
proof (intro allI impI, elim conjE)
  fix t assume sh: "same_shape s t" and f: "fw t i = fw s i" and p: "sp t i = sp s i"
  have D: "u \<in> dom (sl_heap t)" "i < wd t u" using sh assms by (simp_all add: same_shape_def)
  obtain t1 where t1: "set_span t u i (sp t i u + 1) = Some t1" "same_shape t t1" "fw t1 = fw t"
    "sp t1 = (sp t)(i := (sp t i)(u := sp t i u + 1))"
    using set_span_ok [OF D] by metis
  have "bump_span update t i = Some t1"
    using assms D t1(1) by (simp add: bump_span_def vec_at_def)
  moreover have "fw t1 = (fw t)(i := fw s i)" using t1(3) f by auto
  ultimately show "\<exists>v. bump_span update t i = Some v \<and> same_shape t v \<and>
     fw v = (fw t)(i := fw s i) \<and> sp v = (sp t)(i := (sp s i)(u := sp s i u + 1))"
    using t1 p by auto
qed

text \<open>The two linking loops put the new node between \<open>U\<close> and \<open>V\<close> on every level.\<close>

lemma preds_okE:
  assumes ok: "shape_ok s (U @ V)" and pr: "preds_ok s U L update rank" and L: "L \<le> kMaxLevel"
  obtains y k where
    "\<And>l. l < L \<Longrightarrow> last_at (tall s l) (sl_header s # U) (y l) (k l)"
    "\<And>l. l < L \<Longrightarrow> update ! l = Some (y l) \<and> rank ! l = of_nat (k l) \<and>
       l < length update \<and> l < length rank"
    "\<And>l. l < L \<Longrightarrow> y l \<in> dom (sl_heap s) \<and> y l \<in> set (sl_header s # U) \<and>
       l < ht s (y l) \<and> l < wd s (y l)"
    "0 < L \<Longrightarrow> rank ! 0 = of_nat (length U)"
proof -
  note sh = shape_okD [OF ok]
  let ?h = "sl_header s"
  obtain y k where yk: "\<And>l. l < L \<Longrightarrow>
      last_at (tall s l) (?h # U) (y l) (k l) \<and> update ! l = Some (y l) \<and> rank ! l = of_nat (k l)"
    using pr unfolding preds_ok_def by metis
  have "y l \<in> dom (sl_heap s) \<and> y l \<in> set (?h # U) \<and> l < ht s (y l) \<and> l < wd s (y l)"
    if "l < L" for l
  proof -
    have "y l \<in> set (?h # U)" "tall s l (y l)" using yk [OF that] last_at_mem by metis+
    moreover then have "wd s (y l) = ht s (y l)" using sh(4) by auto
    ultimately show ?thesis using sh(2) by auto
  qed
  moreover have "rank ! 0 = of_nat (length U)" if "0 < L"
    using yk [OF that] last_at_bottom(1) [of U "tall s 0"] sh(6) by auto
  moreover have "l < length update \<and> l < length rank" if "l < L" for l
    using that L pr by (simp add: preds_ok_def)
  ultimately show thesis using that yk by metis
qed

lemma link_all_levels:
  assumes ok: "shape_ok s (U @ V)" "links_ok s (U @ V)" and pr: "preds_ok s U (sl_level s) update rank"
    and lv: "0 < level" "level \<le> sl_level s" and nn: "new_node s level sc m = (t, nd)"
  obtains u where
    "do { s3 \<leftarrow> foldM (link_level nd update rank) t [0..<level];
          foldM (bump_span update) s3 [level..<sl_level s3] } = Some u"
    "same_shape t u" "links_ok u (U @ nd # V)"
proof -
  note sh = shape_okD [OF ok(1)] and n = new_node_correct [OF ok(1) nn]
  let ?h = "sl_header s"
  obtain y k where y: "\<And>l. l < sl_level s \<Longrightarrow> last_at (tall s l) (?h # U) (y l) (k l)"
    "\<And>l. l < sl_level s \<Longrightarrow> update ! l = Some (y l) \<and> rank ! l = of_nat (k l) \<and>
       l < length update \<and> l < length rank"
    "\<And>l. l < sl_level s \<Longrightarrow> y l \<in> dom (sl_heap s) \<and> y l \<in> set (?h # U) \<and>
       l < ht s (y l) \<and> l < wd s (y l)"
    "rank ! 0 = of_nat (length U)"
    using preds_okE [OF ok(1) pr sh(9)] sh(8) by metis
  have yt: "y l \<noteq> nd" "y l \<in> dom (sl_heap t)" "l < ht t (y l)" "l < wd t (y l)"
    if "l < sl_level s" for l
    using y(3) [OF that] n(1-4) by auto
  define F where "F l = (fw t l)(nd := fw t l (y l), y l := Some nd)" for l
  define S where "S l = (sp t l)(nd := sp t l (y l) - (rank ! 0 - rank ! l),
      y l := (rank ! 0 - rank ! l) + 1)" for l
  have "level_step (link_level nd update rank) t l (F l) (S l)" if "l < level" for l
    unfolding F_def S_def using that lv y(2) [of l] yt [of l] n(2-4) by (intro link_level_step) auto
  then obtain s3 where s3: "foldM (link_level nd update rank) t [0..<level] = Some s3" "same_shape t s3"
    "\<And>l. fw s3 l = (if l < level then F l else fw t l)"
    "\<And>l. sp s3 l = (if l < level then S l else sp t l)"
    using foldM_levels [of 0 level "link_level nd update rank" t F S] by auto
  have "level_step (bump_span update) s3 l (fw s3 l) ((sp s3 l)(y l := sp s3 l (y l) + 1))"
    if "level \<le> l" "l < sl_level s" for l
    using that y(2) [of l] yt [of l] s3(2) by (intro bump_span_step) (auto simp: same_shape_def)
  then obtain u where u: "foldM (bump_span update) s3 [level..<sl_level s] = Some u" "same_shape s3 u"
    "\<And>l. fw u l = fw s3 l"
    "\<And>l. sp u l = (if level \<le> l \<and> l < sl_level s then (sp s3 l)(y l := sp s3 l (y l) + 1) else sp s3 l)"
    using foldM_levels [of level "sl_level s" "bump_span update" s3 "fw s3"
        "\<lambda>l. (sp s3 l)(y l := sp s3 l (y l) + 1)"] by auto
  have tu: "same_shape t u" using s3(2) u(2) by (rule same_shape_trans)
  have eq: "ht u = (ht s)(nd := level)" "sl_header u = ?h" using tu n(3,8) by (simp_all add: same_shape_def)
  have dist: "distinct (?h # U @ nd # V)" using sh(1) n(1) by auto
  have "linked (tall u l) (fw u l) (sp u l) (?h # U @ nd # V)" if l: "l < kMaxLevel" for l
  proof -
    have "linked (tall s l) (fw s l) (sp s l) (?h # U @ V)" using sl_ok_linked [OF ok(2) l] .
    then have old: "linked (tall s l) (fw t l) (sp t l) (?h # U @ V)"
      using n(1,6,7) linked_cong [of "?h # U @ V" "tall s l" "tall s l" "fw t l" "fw s l" "sp t l" "sp s l"]
      by (metis Un_iff set_append set_ConsD)
    have T: "\<And>a. a \<noteq> nd \<Longrightarrow> tall u l a = tall s l a" using eq by simp
    show ?thesis
    proof (cases "l < sl_level s")
      case True
      note ins = linked_insert [OF old y(1) [OF True] dist T]
      have "rank ! 0 - rank ! l = of_nat (length U) - of_nat (k l)" using y(2) [OF True] y(4) by simp
      with True ins show ?thesis
        using u(3,4) s3(3,4) eq by (cases "l < level") (simp_all add: F_def S_def)
    next
      case False
      have none: "none_of (tall s l) (U @ V)" using high_level_empty [OF ok(1)] False by simp
      then have "none_of (tall u l) (U @ nd # V)" using False lv eq(1) n(1) by (auto simp: none_of_def)
      moreover have "fw u l = fw t l" using u(3) s3(3) False lv by simp
      moreover have "tall u l ?h" using sh(5) l n(1) eq by simp
      moreover have "fw t l ?h = None"
        using old none sh(5) l by (simp add: find_eq_None_iff del: none_of_simps)
      ultimately show ?thesis by (simp only: linked_header_only)
    qed
  qed
  then have "links_ok u (U @ nd # V)" using eq(2) by (simp add: links_ok_def)
  moreover have "sl_level s3 = sl_level s" using s3(2) n(9) by (simp add: same_shape_def)
  ultimately show thesis using that [of u] tu s3(1) u(1) by simp
qed

end
