(* ===== verification/SkipListUpdate.thy ===== *)
theory SkipListUpdate imports SkipListRefine begin

text \<open>The specification: a strictly sorted list of pairs, with one pair put in its place.\<close>

definition zinsert :: "double \<times> string \<Rightarrow> (double \<times> string) list \<Rightarrow> (double \<times> string) list" where
  "zinsert p xs = takeWhile (\<lambda>q. zkey q < zkey p) xs @ p # dropWhile (\<lambda>q. zkey q \<le> zkey p) xs"

lemma zsorted_append:
  "zsorted (A @ B) \<longleftrightarrow> zsorted A \<and> zsorted B \<and> (\<forall>a\<in>set A. \<forall>b\<in>set B. zkey a < zkey b)"
  by (auto simp: zsorted_def sorted_wrt_append)

lemma zsorted_Cons:
  "zsorted (p # B) \<longleftrightarrow> num_score p \<and> zsorted B \<and> (\<forall>b\<in>set B. zkey p < zkey b)"
  by (auto simp: zsorted_def)

lemma zsorted_Nil [simp]: "zsorted []" by (simp add: zsorted_def)

lemma zinsert_split:
  assumes "zsorted (A @ B)" and "\<forall>q\<in>set A. zkey q < zkey p" and "\<forall>q\<in>set B. zkey p \<le> zkey q"
  shows "zinsert p (A @ B) =
    A @ p # (case B of [] \<Rightarrow> [] | b # B' \<Rightarrow> if zkey b = zkey p then B' else B)"
proof -
  have "takeWhile (\<lambda>q. zkey q < zkey p) (A @ B) = A"
    using assms(2,3) by (cases B) (auto simp: takeWhile_append2 takeWhile_tail)
  moreover have "dropWhile (\<lambda>q. zkey q \<le> zkey p) (A @ B) = dropWhile (\<lambda>q. zkey q \<le> zkey p) B"
    using assms(2) by (intro dropWhile_append2) auto
  moreover have "dropWhile (\<lambda>q. zkey q \<le> zkey p) B =
    (case B of [] \<Rightarrow> [] | b # B' \<Rightarrow> if zkey b = zkey p then B' else B)"
  proof (cases B)
    case (Cons b B')
    show ?thesis
    proof (cases "zkey b = zkey p")
      case True
      then have "\<forall>q\<in>set B'. zkey p < zkey q" using assms(1) Cons by (auto simp: zsorted_append zsorted_Cons)
      then have "dropWhile (\<lambda>q. zkey q \<le> zkey p) B' = B'" by (cases B') auto
      with True Cons show ?thesis by simp
    next
      case False
      with assms(3) Cons show ?thesis by auto
    qed
  qed simp
  ultimately show ?thesis by (simp add: zinsert_def)
qed

lemma zsorted_split:
  assumes "zsorted xs"
  obtains A B where "xs = A @ B" "\<forall>q\<in>set A. zkey q < k" "\<forall>q\<in>set B. k \<le> zkey q"
proof
  let ?P = "\<lambda>q. zkey q < k"
  show "xs = takeWhile ?P xs @ dropWhile ?P xs" by simp
  show "\<forall>q\<in>set (takeWhile ?P xs). zkey q < k" by (auto dest: set_takeWhileD)
  show "\<forall>q\<in>set (dropWhile ?P xs). k \<le> zkey q"
    using assms by (induction xs) (auto simp: zsorted_Cons not_less intro: order_trans less_imp_le)
qed

lemma zsorted_zinsert:
  assumes "zsorted xs" and "num_score p"
  shows "zsorted (zinsert p xs)"
proof -
  obtain A B where AB: "xs = A @ B" "\<forall>q\<in>set A. zkey q < zkey p" "\<forall>q\<in>set B. zkey p \<le> zkey q"
    using zsorted_split [OF assms(1)] by metis
  show ?thesis
    using assms AB unfolding AB(1) zinsert_split [OF assms(1) [unfolded AB(1)] AB(2,3)]
    by (cases B) (auto simp: zsorted_append zsorted_Cons order.strict_iff_order)
qed

lemma set_zinsert:
  assumes "zsorted xs"
  shows "set (zinsert p xs) = insert p {q \<in> set xs. zkey q \<noteq> zkey p}"
proof -
  obtain A B where AB: "xs = A @ B" "\<forall>q\<in>set A. zkey q < zkey p" "\<forall>q\<in>set B. zkey p \<le> zkey q"
    using zsorted_split [OF assms(1)] by metis
  show ?thesis
    using assms AB unfolding AB(1) zinsert_split [OF assms(1) [unfolded AB(1)] AB(2,3)]
    by (cases B) (auto simp: zsorted_append zsorted_Cons)
qed

text \<open>The key is there already: only the score is rewritten.\<close>

lemma sl_ok_rewrite:
  assumes ok: "sl_ok s (U @ v # V)" and n: "sl_heap s v = Some n" "node_member n = m"
    and srt: "zsorted (map (nkey s) U @ (sc, m) # map (nkey s) V)"
  shows "sl_rel (set_node s v (n\<lparr>node_score := sc\<rparr>)) (map (nkey s) U @ (sc, m) # map (nkey s) V)"
proof -
  let ?t = "set_node s v (n\<lparr>node_score := sc\<rparr>)"
  have eq: "ht ?t = ht s" "wd ?t = wd s" "fw ?t = fw s" "sp ?t = sp s" "sl_header ?t = sl_header s"
    "sl_level ?t = sl_level s" "sl_length ?t = sl_length s" "sl_fresh ?t = sl_fresh s"
    "dom (sl_heap ?t) = dom (sl_heap s)" "nkey ?t = (nkey s)(v := (sc, m))"
    using n by (auto simp: set_node_def ht_def wd_def fw_def sp_def nkey_def fun_eq_iff)
  have "distinct (U @ v # V)" using shape_okD(1) [OF sl_okD(1) [OF ok]] by simp
  then have keys: "map (nkey ?t) (U @ v # V) = map (nkey s) U @ (sc, m) # map (nkey s) V"
    by (auto simp: eq(10))
  have "sl_ok ?t (U @ v # V)"
    using ok srt unfolding sl_ok_def shape_ok_def top_ok_def links_ok_def keys eq by simp
  with keys show ?thesis unfolding sl_rel_def by metis
qed

text \<open>The key is new: one node more, on a random number of levels.\<close>

lemma sl_ok_link:
  assumes ok: "sl_ok s (U @ V)" and pr: "preds_ok s U (sl_level s) update rank"
    and srt: "zsorted (map (nkey s) U @ (sc, m) # map (nkey s) V)"
    and lv: "1 \<le> level" "level \<le> kMaxLevel"
  obtains s' where
    "insert_new s level update rank sc m = Some s'"
    "sl_rel s' (map (nkey s) U @ (sc, m) # map (nkey s) V)"
proof -
  note okD = sl_okD [OF ok]
  obtain t u' r' where t: "raise_level s level update rank = Some (t, u', r')"
    "shape_ok t (U @ V)" "links_ok t (U @ V)" "nkey t = nkey s" "ht t = ht s"
    "sl_level t = max (sl_level s) level" "sl_header t = sl_header s" "sl_length t = sl_length s"
    "preds_ok t U (sl_level t) u' r'"
    using raise_level_correct [OF okD(1,3) pr _ lv(2)] by auto
  obtain t2 nd where nn: "new_node t level sc m = (t2, nd)" by (cases "new_node t level sc m")
  note n = new_node_correct [OF t(2) nn] and sh = shape_okD [OF t(2)]
  have "0 < level" "level \<le> sl_level t" using lv t(6) by simp_all
  from link_all_levels [OF t(2,3,9) this nn] obtain u where u:
    "do { s3 \<leftarrow> foldM (link_level nd u' r') t2 [0..<level];
          foldM (bump_span u') s3 [level..<sl_level s3] } = Some u"
    "same_shape t2 u" "links_ok u (U @ nd # V)" by metis
  then obtain s3 where u3: "foldM (link_level nd u' r') t2 [0..<level] = Some s3"
    "foldM (bump_span u') s3 [level..<sl_level s3] = Some u" by (auto simp: bind_eq_Some_conv)
  let ?u = "u\<lparr>sl_length := Suc (sl_length u)\<rparr>"
  have eq: "ht ?u = (ht s)(nd := level)" "wd ?u = (wd t)(nd := level)" "nkey ?u = (nkey s)(nd := (sc, m))"
    "sl_header ?u = sl_header s" "sl_level ?u = max (sl_level s) level" "sl_fresh ?u = Suc nd"
    "dom (sl_heap ?u) = insert nd (dom (sl_heap t))" "sl_length ?u = Suc (length (U @ V))"
    using u(2) n t okD(4) by (simp_all add: same_shape_def)
  have "shape_ok ?u (U @ nd # V)"
    unfolding shape_ok_def eq using sh n(1,12) lv t(5-7) by auto
  moreover have "top_ok ?u (U @ nd # V)"
    unfolding top_ok_def eq using okD(2) n(1) lv t(5-7) by (auto simp: top_ok_def max_def)
  moreover have "links_ok ?u (U @ nd # V)" using u(3) by (simp add: links_ok_def)
  moreover have keys: "map (nkey ?u) (U @ nd # V) = map (nkey s) U @ (sc, m) # map (nkey s) V"
    unfolding eq(3) using n(1) by auto
  ultimately have "sl_ok ?u (U @ nd # V)" unfolding sl_ok_def keys using srt eq(8) by simp
  with keys have "sl_rel ?u (map (nkey s) U @ (sc, m) # map (nkey s) V)" unfolding sl_rel_def by metis
  moreover have "insert_new s level update rank sc m = Some ?u"
    using u3 t(1) nn by (simp add: insert_new_def)
  ultimately show thesis using that by blast
qed

lemma Insert_correct:
  assumes rel: "sl_rel s xs" and num: "\<not> d_isnan sc"
  obtains s' where "Insert s rnd sc m = Some (s', zkey (sc, m) \<notin> zkey ` set xs)"
    "sl_rel s' (zinsert (sc, m) xs)"
proof -
  obtain ns where ok: "sl_ok s ns" and xs: "xs = map (nkey s) ns" using rel by (auto simp: sl_rel_def)
  obtain U V where UV: "ns = U @ V" "\<forall>b\<in>set U. zkey (nkey s b) < zkey (sc, m)"
    "\<forall>b\<in>set V. zkey (sc, m) \<le> zkey (nkey s b)"
    using key_split [OF sl_okD(5) [OF ok]] by metis
  obtain x0 update rank where f: "find_from_top s sc m = Some (x0, update, rank)"
    "preds_ok s U (sl_level s) update rank"
    "candidate s x0 sc m =
       Some (case V of [] \<Rightarrow> None | v # _ \<Rightarrow> if zkey (nkey s v) = zkey (sc, m) then Some v else None)"
    by (rule find_from_top_correct [OF ok num UV])
  let ?B = "case V of [] \<Rightarrow> [] | v # V' \<Rightarrow> if zkey (nkey s v) = zkey (sc, m) then V' else V"
  have srt: "zsorted (map (nkey s) U @ map (nkey s) V)" using sl_okD(5) [OF ok] UV(1) by simp
  have zi: "zinsert (sc, m) xs = map (nkey s) U @ (sc, m) # map (nkey s) ?B"
    using zinsert_split [OF srt, of "(sc, m)"] UV xs by (auto split: list.splits)
  then have srt': "zsorted (map (nkey s) U @ (sc, m) # map (nkey s) ?B)"
    using zsorted_zinsert [of xs "(sc, m)"] srt num xs UV(1) by (simp add: num_score_def)
  show thesis
  proof (cases "\<exists>v V'. V = v # V' \<and> zkey (nkey s v) = zkey (sc, m)")
    case True
    then obtain v V' where V: "V = v # V'" "zkey (nkey s v) = zkey (sc, m)" by blast
    have "v \<in> dom (sl_heap s)" using shape_okD(2) [OF sl_okD(1) [OF ok]] UV(1) V by simp
    then obtain n where n: "sl_heap s v = Some n" by blast
    then have "node_member n = m" using V(2) by (simp add: nkey_def zkey_def)
    from sl_ok_rewrite [OF _ n this, of U V' sc] ok UV(1) V srt'
    have "sl_rel (set_node s v (n\<lparr>node_score := sc\<rparr>)) (zinsert (sc, m) xs)" unfolding zi by simp
    moreover have "zkey (sc, m) \<in> zkey ` set xs" using V UV(1) xs by (auto simp: image_iff)
    ultimately show thesis using f n V by (intro that) (simp_all add: Insert_def)
  next
    case False
    then have B: "?B = V" and c: "candidate s x0 sc m = Some None"
      using f(3) by (auto split: list.splits)
    have "zkey (sc, m) \<notin> zkey ` set xs"
      using UV False srt xs by (cases V) (auto simp: zsorted_append zsorted_Cons)
    moreover obtain s' where "insert_new s (RandomLevel rnd) update rank sc m = Some s'"
      "sl_rel s' (zinsert (sc, m) xs)"
      unfolding zi B by (rule sl_ok_link [OF ok [unfolded UV(1)] f(2) srt' [unfolded B] RandomLevel_bounds])
    ultimately show thesis using f(1) c by (intro that) (simp_all add: Insert_def)
  qed
qed

section \<open>Erase\<close>

lemma unlink_level_step:
  assumes "update ! i = Some u" and "i < length update" and "u \<in> dom (sl_heap s)"
    and "x \<in> dom (sl_heap s)" and "i < ht s u" "i < wd s u"
    and x: "fw s i u = Some x \<Longrightarrow> i < ht s x \<and> i < wd s x"
  shows "level_step (unlink_level x update) s i
     (if fw s i u = Some x then (fw s i)(u := fw s i x) else fw s i)
     ((sp s i)(u := if fw s i u = Some x
                    then (if fw s i x = None then 0 else sp s i u + (sp s i x - 1))
                    else sp s i u - 1))"
  unfolding level_step_def
proof (intro allI impI, elim conjE)
  fix t assume sh: "same_shape s t" and f: "fw t i = fw s i" and p: "sp t i = sp s i"
  let ?v = "if fw s i u = Some x then (if fw s i x = None then 0 else sp s i u + (sp s i x - 1))
            else sp s i u - 1"
  have D: "u \<in> dom (sl_heap t)" "x \<in> dom (sl_heap t)" "i < ht t u" "i < wd t u"
    "fw t i u = Some x \<Longrightarrow> i < ht t x \<and> i < wd t x"
    using sh assms f by (simp_all add: same_shape_def)
  obtain t1 where t1: "set_span t u i ?v = Some t1" "same_shape t t1" "fw t1 = fw t"
    "sp t1 = (sp t)(i := (sp t i)(u := ?v))"
    using set_span_ok [OF D(1,4)] by metis
  have D1: "u \<in> dom (sl_heap t1)" "i < ht t1 u" using D t1(2) by (simp_all add: same_shape_def)
  obtain t2 where t2: "set_forward t1 u i (fw s i x) = Some t2" "same_shape t1 t2" "sp t2 = sp t1"
    "fw t2 = (fw t1)(i := (fw t1 i)(u := fw s i x))"
    using set_forward_ok [OF D1] by metis
  show "\<exists>t'. unlink_level x update t i = Some t' \<and> same_shape t t' \<and>
      fw t' = (fw t)(i := if fw s i u = Some x then (fw s i)(u := fw s i x) else fw s i) \<and>
      sp t' = (sp t)(i := (sp s i)(u := ?v))"
  proof (cases "fw s i u = Some x")
    case True
    then have "unlink_level x update t i = Some t2"
      using assms(1,2) D t1(1) t2(1) f p
      by (cases "fw s i x") (simp_all add: unlink_level_def vec_at_def)
    with True t1 t2 f p show ?thesis by (auto intro: same_shape_trans)
  next
    case False
    then have "unlink_level x update t i = Some t1"
      using assms(1,2) D t1(1) f p by (simp add: unlink_level_def vec_at_def)
    with False t1 f p show ?thesis by auto
  qed
qed

lemma unlink_all_levels:
  assumes ok: "shape_ok s (U @ x # V)" "links_ok s (U @ x # V)"
    and pr: "preds_ok s U (sl_level s) update rank"
  obtains t where "foldM (unlink_level x update) s [0..<sl_level s] = Some t"
    "same_shape s t" "links_ok t (U @ V)"
proof -
  note sh = shape_okD [OF ok(1)]
  let ?h = "sl_header s"
  obtain y k where y: "\<And>l. l < sl_level s \<Longrightarrow> last_at (tall s l) (?h # U) (y l) (k l)"
    "\<And>l. l < sl_level s \<Longrightarrow> update ! l = Some (y l) \<and> rank ! l = of_nat (k l) \<and>
       l < length update \<and> l < length rank"
    "\<And>l. l < sl_level s \<Longrightarrow> y l \<in> dom (sl_heap s) \<and> y l \<in> set (?h # U) \<and>
       l < ht s (y l) \<and> l < wd s (y l)"
    using preds_okE [OF ok(1) pr sh(9)] by metis
  have x: "x \<in> dom (sl_heap s)" "wd s x = ht s x" using sh(2,4) by auto
  note del = linked_delete [OF sl_ok_linked [OF ok(2)] y(1) sh(1)]
  have fwx: "fw s l (y l) = Some x \<longleftrightarrow> tall s l x" if "l < sl_level s" for l
    using del(1,2) [OF _ that] that sh(9) by (cases "tall s l x") simp_all
  define F where "F l = (if fw s l (y l) = Some x then (fw s l)(y l := fw s l x) else fw s l)" for l
  define S where "S l = (sp s l)(y l := if fw s l (y l) = Some x
      then (if fw s l x = None then 0 else sp s l (y l) + (sp s l x - 1)) else sp s l (y l) - 1)" for l
  have "level_step (unlink_level x update) s l (F l) (S l)" if "l < sl_level s" for l
    unfolding F_def S_def using y(2,3) [OF that] x fwx [OF that] by (intro unlink_level_step) auto
  then obtain t where t: "foldM (unlink_level x update) s [0..<sl_level s] = Some t" "same_shape s t"
    "\<And>l. fw t l = (if l < sl_level s then F l else fw s l)"
    "\<And>l. sp t l = (if l < sl_level s then S l else sp s l)"
    using foldM_levels [of 0 "sl_level s" "unlink_level x update" s F S] by auto
  have eq: "ht t = ht s" "sl_header t = ?h" using t(2) by (simp_all add: same_shape_def)
  have "linked (tall s l) (fw t l) (sp t l) (?h # U @ V)" if l: "l < kMaxLevel" for l
  proof (cases "l < sl_level s")
    case True
    note d = del(3) [OF l True, where v = "if fw s l x = None then 0 else sp s l (y l) + (sp s l x - 1)"]
      del(4) [OF l True]
    show ?thesis
      using True t(3,4) fwx [OF True] d
      by (cases "tall s l x"; cases "fw s l x") (simp_all add: F_def S_def del: linked.simps)
  next
    case False
    then have none: "none_of (tall s l) (U @ x # V)" using high_level_empty [OF ok(1)] by simp
    have "linked (tall s l) (fw s l) (sp s l) (?h # U @ x # V)" using sl_ok_linked [OF ok(2) l] .
    with none sh(5) l have "fw s l ?h = None" by (simp add: find_eq_None_iff del: none_of_simps)
    moreover have "tall s l ?h" using sh(5) l by simp
    moreover have "none_of (tall s l) (U @ V)" using none by (auto simp: none_of_def)
    ultimately show ?thesis using t(3) False by (simp only: linked_header_only if_False)
  qed
  then have "links_ok t (U @ V)" using eq by (simp add: links_ok_def)
  with t that show thesis by blast
qed

text \<open>\<open>level_\<close> falls to the highest level the header still has a pointer on.\<close>

lemma shrink_level_ex:
  assumes F: "\<And>l. l < kMaxLevel \<Longrightarrow> get_forward s (sl_header s) l = Some (F l)"
  shows "0 < n \<Longrightarrow> n \<le> kMaxLevel \<Longrightarrow> \<exists>n'. shrink_level s n = Some n' \<and> 0 < n' \<and> n' \<le> n \<and>
    (\<forall>l. n' \<le> l \<longrightarrow> l < n \<longrightarrow> F l = None) \<and> (n' = 1 \<or> F (n' - 1) \<noteq> None)"
proof (induction n)
  case (Suc n)
  have Fn: "get_forward s (sl_header s) n = Some (F n)" using F [of n] Suc.prems by simp
  show ?case
  proof (cases "n = 0 \<or> F n \<noteq> None")
    case True
    then have "shrink_level s (Suc n) = Some (Suc n)" using Fn by auto
    with True show ?thesis by (intro exI [of _ "Suc n"]) auto
  next
    case False
    then obtain n' where "shrink_level s n = Some n'" "0 < n'" "n' \<le> n"
      "\<forall>l. n' \<le> l \<longrightarrow> l < n \<longrightarrow> F l = None" "n' = 1 \<or> F (n' - 1) \<noteq> None"
      using Suc by auto
    moreover have "shrink_level s (Suc n) = shrink_level s n" using False Fn by simp
    ultimately show ?thesis using False by (intro exI [of _ n']) (simp add: less_Suc_eq)
  qed
qed simp

lemma free_node:
  assumes "x \<noteq> a"
  shows "ht (s\<lparr>sl_level := n, sl_length := k, sl_heap := (sl_heap s)(x := None)\<rparr>) a = ht s a"
    "wd (s\<lparr>sl_level := n, sl_length := k, sl_heap := (sl_heap s)(x := None)\<rparr>) a = wd s a"
    "nkey (s\<lparr>sl_level := n, sl_length := k, sl_heap := (sl_heap s)(x := None)\<rparr>) a = nkey s a"
    "fw (s\<lparr>sl_level := n, sl_length := k, sl_heap := (sl_heap s)(x := None)\<rparr>) l a = fw s l a"
    "sp (s\<lparr>sl_level := n, sl_length := k, sl_heap := (sl_heap s)(x := None)\<rparr>) l a = sp s l a"
  using assms by (simp_all add: ht_def wd_def nkey_def fw_def sp_def)

text \<open>Lowering \<open>level_\<close> and freeing the node, once no level leads to it.\<close>

lemma free_node_ok:
  assumes ok: "sl_ok s (U @ x # V)" and t: "same_shape s t" "links_ok t (U @ V)"
    and n: "0 < n" "n \<le> sl_level s" "\<And>l. n \<le> l \<Longrightarrow> l < sl_level s \<Longrightarrow> fw t l (sl_header s) = None"
      "n = 1 \<or> fw t (n - 1) (sl_header s) \<noteq> None"
    and u: "u = t\<lparr>sl_level := n, sl_length := sl_length t - 1, sl_heap := (sl_heap t)(x := None)\<rparr>"
  shows "sl_rel u (map (nkey s) (U @ V))"
proof -
  note okD = sl_okD [OF ok] note sh = shape_okD [OF okD(1)]
  let ?h = "sl_header s"
  have eq: "ht t = ht s" "wd t = wd s" "nkey t = nkey s" "sl_header t = ?h"
    "sl_length t = sl_length s" "dom (sl_heap t) = dom (sl_heap s)" "sl_fresh t = sl_fresh s"
    using t(1) by (simp_all add: same_shape_def)
  have ux: "ht u a = ht s a" "wd u a = wd s a" "nkey u a = nkey s a" "fw u l a = fw t l a" "sp u l a = sp t l a"
    if "a \<in> set (?h # U @ V)" for a l
  proof -
    have "x \<noteq> a" using that sh(1) by auto
    then show "ht u a = ht s a" "wd u a = wd s a" "nkey u a = nkey s a" "fw u l a = fw t l a" "sp u l a = sp t l a"
      unfolding u by (simp_all only: free_node eq not_False_eq_True)
  qed
  have ueq: "sl_header u = ?h" "sl_level u = n" "sl_length u = length (U @ V)"
    "dom (sl_heap u) = set (?h # U @ V)" "sl_fresh u = sl_fresh s"
    using eq okD(4) sh(1,2) by (auto simp: u)
  have lk: "linked (tall s l) (fw t l) (sp t l) (?h # U @ V)" if "l < kMaxLevel" for l
    using t(2) that eq(1,4) by (simp add: links_ok_def)
  have nxt: "fw t l ?h = find (tall s l) (U @ V)" if "l < kMaxLevel" for l
    using lk [OF that] sh(5) that by simp
  have le: "ht s a \<le> n" if a: "a \<in> set (U @ V)" for a
  proof (rule ccontr)
    assume "\<not> ht s a \<le> n"
    then have l: "n \<le> ht s a - 1" "ht s a - 1 < sl_level s" "tall s (ht s a - 1) a"
      using sh(7) [of a] a by auto
    then have "find (tall s (ht s a - 1)) (U @ V) = None" using n(3) nxt sh(9) by (metis less_le_trans)
    with l(3) a show False by (auto simp: find_None_iff)
  qed
  have "shape_ok u (U @ V)"
    unfolding shape_ok_def ueq using sh n(1,2) le by (auto simp: ux)
  moreover have "top_ok u (U @ V)"
  proof (cases "n = 1")
    case False
    have "n - 1 < kMaxLevel" using n(1,2) sh(9) by simp
    with n(4) False nxt obtain b where "find (tall s (n - 1)) (U @ V) = Some b" by fastforce
    then have b: "b \<in> set (U @ V)" "n - 1 < ht s b"
      unfolding find_Some_iff by (metis nth_mem)+
    then have "ht u b = n" using ux(1) [of b] le [OF b(1)] n(1) by simp
    with b(1) show ?thesis by (auto simp: top_ok_def ueq)
  qed (simp add: top_ok_def ueq)
  moreover have "links_ok u (U @ V)"
    unfolding links_ok_def ueq(1)
  proof (intro allI impI)
    fix l assume "l < kMaxLevel"
    moreover have "linked (tall u l) (fw u l) (sp u l) (?h # U @ V) =
      linked (tall s l) (fw t l) (sp t l) (?h # U @ V)"
      by (rule linked_cong) (simp only: ux)
    ultimately show "linked (tall u l) (fw u l) (sp u l) (?h # U @ V)" using lk by blast
  qed
  moreover have keys: "map (nkey u) (U @ V) = map (nkey s) (U @ V)" by (simp add: ux(3))
  moreover have "zsorted (map (nkey s) (U @ V))"
    using okD(5) by (auto simp: zsorted_append zsorted_Cons)
  ultimately have "sl_ok u (U @ V)" unfolding sl_ok_def keys using ueq(3) by blast
  then show ?thesis unfolding sl_rel_def keys [symmetric] by blast
qed

lemma DeleteNode_correct:
  assumes ok: "sl_ok s (U @ x # V)" and pr: "preds_ok s U (sl_level s) update rank"
  obtains s' where "DeleteNode s x update = Some s'" "sl_rel s' (map (nkey s) (U @ V))"
proof -
  note okD = sl_okD [OF ok] note sh = shape_okD [OF okD(1)]
  obtain t where t: "foldM (unlink_level x update) s [0..<sl_level s] = Some t"
    "same_shape s t" "links_ok t (U @ V)"
    using unlink_all_levels [OF okD(1,3) pr] by blast
  have "get_forward t (sl_header t) l = Some (fw t l (sl_header s))" if "l < kMaxLevel" for l
    using that sh(2,5) t(2) by (simp add: same_shape_def)
  from shrink_level_ex [OF this sh(8,9)] obtain n where n: "shrink_level t (sl_level s) = Some n"
    "0 < n" "n \<le> sl_level s" "\<And>l. n \<le> l \<Longrightarrow> l < sl_level s \<Longrightarrow> fw t l (sl_header s) = None"
    "n = 1 \<or> fw t (n - 1) (sl_header s) \<noteq> None" by auto
  show thesis
  proof (rule that)
    show "DeleteNode s x update =
      Some (t\<lparr>sl_level := n, sl_length := sl_length t - 1, sl_heap := (sl_heap t)(x := None)\<rparr>)"
      using t(1,2) n(1) by (simp add: DeleteNode_def same_shape_def)
    show "sl_rel (t\<lparr>sl_level := n, sl_length := sl_length t - 1, sl_heap := (sl_heap t)(x := None)\<rparr>)
      (map (nkey s) (U @ V))"
      using free_node_ok [OF ok t(2,3) n(2-5) refl] .
  qed
qed

text \<open>The specification: the pair with that key leaves.\<close>

definition zerase :: "double \<times> string \<Rightarrow> (double \<times> string) list \<Rightarrow> (double \<times> string) list" where
  "zerase p xs = filter (\<lambda>q. zkey q \<noteq> zkey p) xs"

lemma FindNode_correct:
  assumes ok: "sl_ok s ns" and num: "\<not> d_isnan sc" and ns: "ns = U @ V"
    "\<forall>b\<in>set U. zkey (nkey s b) < zkey (sc, m)" "\<forall>b\<in>set V. zkey (sc, m) \<le> zkey (nkey s b)"
  obtains update rank where "preds_ok s U (sl_level s) update rank"
    "FindNode s sc m = Some
       (case V of [] \<Rightarrow> None | v # _ \<Rightarrow> if zkey (nkey s v) = zkey (sc, m) then Some v else None, update)"
proof -
  obtain x0 update rank where "find_from_top s sc m = Some (x0, update, rank)"
    "preds_ok s U (sl_level s) update rank"
    "candidate s x0 sc m =
       Some (case V of [] \<Rightarrow> None | v # _ \<Rightarrow> if zkey (nkey s v) = zkey (sc, m) then Some v else None)"
    by (rule find_from_top_correct [OF ok num ns])
  then show thesis by (intro that) (simp_all add: FindNode_def)
qed

lemma zerase_split:
  assumes "zsorted (A @ b # B)" and "zkey b = zkey p"
  shows "zerase p (A @ b # B) = A @ B"
proof -
  have "filter (\<lambda>q. zkey q \<noteq> zkey p) A = A" "filter (\<lambda>q. zkey q \<noteq> zkey p) B = B"
    using assms by (fastforce simp: zsorted_append zsorted_Cons filter_id_conv)+
  with assms(2) show ?thesis by (simp add: zerase_def)
qed

lemma zerase_absent: "zkey p \<notin> zkey ` set xs \<Longrightarrow> zerase p xs = xs"
  unfolding zerase_def filter_id_conv by (metis imageI)

lemma Erase_correct:
  assumes rel: "sl_rel s xs" and num: "\<not> d_isnan sc"
  obtains s' where "Erase s sc m = Some (s', zkey (sc, m) \<in> zkey ` set xs)"
    "sl_rel s' (zerase (sc, m) xs)"
proof -
  obtain ns where ok: "sl_ok s ns" and xs: "xs = map (nkey s) ns" using rel by (auto simp: sl_rel_def)
  obtain U V where UV: "ns = U @ V" "\<forall>b\<in>set U. zkey (nkey s b) < zkey (sc, m)"
    "\<forall>b\<in>set V. zkey (sc, m) \<le> zkey (nkey s b)"
    using key_split [OF sl_okD(5) [OF ok]] by metis
  have srt: "zsorted (map (nkey s) (U @ V))" using sl_okD(5) [OF ok] UV(1) by simp
  obtain update rank where f: "preds_ok s U (sl_level s) update rank"
    "FindNode s sc m = Some
       (case V of [] \<Rightarrow> None | v # _ \<Rightarrow> if zkey (nkey s v) = zkey (sc, m) then Some v else None, update)"
    by (rule FindNode_correct [OF ok num UV])
  show thesis
  proof (cases "\<exists>v V'. V = v # V' \<and> zkey (nkey s v) = zkey (sc, m)")
    case True
    then obtain v V' where V: "V = v # V'" "zkey (nkey s v) = zkey (sc, m)" by blast
    obtain s' where s': "DeleteNode s v update = Some s'" "sl_rel s' (map (nkey s) (U @ V'))"
      using ok UV(1) V(1) f(1) by (metis DeleteNode_correct)
    have "zerase (sc, m) xs = map (nkey s) (U @ V')"
      using zerase_split [of "map (nkey s) U" "nkey s v" "map (nkey s) V'"] srt V xs UV(1) by simp
    moreover have "zkey (sc, m) \<in> zkey ` set xs" using V UV(1) xs by (auto simp: image_iff)
    ultimately show thesis using f(2) V s' by (intro that) (simp_all add: Erase_def)
  next
    case False
    have absent: "zkey (sc, m) \<notin> zkey ` set xs"
      using UV False srt xs by (cases V) (auto simp: zsorted_append zsorted_Cons)
    moreover have "FindNode s sc m = Some (None, update)" using f(2) False by (auto split: list.splits)
    ultimately show thesis using rel zerase_absent [OF absent] by (intro that) (simp_all add: Erase_def)
  qed
qed

end
