(* ===== verification/SkipListQuery.thy ===== *)
theory SkipListQuery imports SkipListUpdate begin

section \<open>Descents that keep no rank\<close>

lemma walk_advance:
  assumes "walk cond s i x r = Some (y, r')"
  shows "advance cond s i x = Some y"
proof -
  have "advance cond s i x = Some (fst p)" if "walk cond s i x r = Some p" for p
    by (rule walk.raw_induct [of "\<lambda>cond s i x r p. advance cond s i x = Some (fst p)"
          "((((cond, s), i), x), r)" p, unfolded prod.case, OF _ that])
      (subst advance.simps, auto split: Option.bind_splits option.splits if_splits)
  from this [OF assms] show ?thesis by simp
qed

lemma descend_descend_plain:
  "descend cond s i x rk update rank = Some (y, u', r') \<Longrightarrow> descend_plain cond s i x = Some y"
  by (induction i arbitrary: x rk update rank)
    (auto simp: bind_eq_Some_conv dest!: walk_advance split: prod.splits)

lemma descend_plain_top:
  assumes "sl_ok s ns" and "ns = U @ V" and "\<forall>b\<in>set U. cond (nd_of s b)"
    and "\<forall>b\<in>set V. \<not> cond (nd_of s b)"
  shows "descend_plain cond s (sl_level s) (sl_header s) = Some (last (sl_header s # U))"
  using descend_top [OF assms] descend_descend_plain by metis

section \<open>The bottom level as a chain\<close>

fun head_of :: "nat list \<Rightarrow> nat option" where
  "head_of [] = None"
| "head_of (a # as) = Some a"

fun chain :: "skiplist \<Rightarrow> nat list \<Rightarrow> bool" where
  "chain s [] = True"
| "chain s (a # as) =
     (a \<in> dom (sl_heap s) \<and> get_forward s a 0 = Some (head_of as) \<and> chain s as)"

lemma chain_appendD: "chain s (as @ bs) \<Longrightarrow> chain s bs"
  by (induction as) auto

lemma chain_all:
  assumes "sl_ok s ns"
  shows "chain s (sl_header s # ns)"
proof -
  note sh = shape_okD(2) [OF sl_okD(1) [OF assms]]
  have "chain s as" if "sl_header s # ns = P @ as" for P as
    using that
  proof (induction as arbitrary: P)
    case (Cons a as)
    have "get_forward s a 0 = Some (case as of [] \<Rightarrow> None | b # _ \<Rightarrow> Some b)"
      by (rule next_at_0 [OF sl_okD(1,3) [OF assms] Cons.prems])
    then have "get_forward s a 0 = Some (head_of as)" by (cases as) simp_all
    moreover have "a \<in> dom (sl_heap s)" unfolding sh Cons.prems by simp
    moreover have "chain s as" using Cons.IH [of "P @ [a]"] Cons.prems by simp
    ultimately show ?case by simp
  qed simp
  from this [of "[]"] show ?thesis by simp
qed

lemma sl_relE:
  assumes "sl_rel s xs"
  obtains ns where "sl_ok s ns" "xs = map (nkey s) ns" "zsorted xs" "chain s ns"
    "get_forward s (sl_header s) 0 = Some (head_of ns)" "sl_length s = length xs"
proof -
  obtain ns where ns: "sl_ok s ns" "xs = map (nkey s) ns" using assms by (auto simp: sl_rel_def)
  with chain_all [OF ns(1)] sl_okD(4,5) [OF ns(1)] show thesis by (intro that) simp_all
qed

section \<open>Membership and scores\<close>

lemma Contains_correct:
  assumes "sl_rel s xs" and "\<not> d_isnan sc"
  shows "Contains s sc m = Some (zkey (sc, m) \<in> zkey ` set xs)"
proof -
  obtain ns where ok: "sl_ok s ns" and xs: "xs = map (nkey s) ns" using assms(1) by (auto simp: sl_rel_def)
  obtain U V where UV: "ns = U @ V" "\<forall>b\<in>set U. zkey (nkey s b) < zkey (sc, m)"
    "\<forall>b\<in>set V. zkey (sc, m) \<le> zkey (nkey s b)"
    using key_split [OF sl_okD(5) [OF ok]] by metis
  have "zsorted (map (nkey s) (U @ V))" using sl_okD(5) [OF ok] UV(1) by simp
  then have "zkey (sc, m) \<in> zkey ` set xs \<longleftrightarrow>
      (case V of [] \<Rightarrow> False | v # _ \<Rightarrow> zkey (nkey s v) = zkey (sc, m))"
    using UV xs by (cases V) (fastforce simp: zsorted_append zsorted_Cons image_iff)+
  moreover obtain update rank where "FindNode s sc m = Some
       (case V of [] \<Rightarrow> None | v # _ \<Rightarrow> if zkey (nkey s v) = zkey (sc, m) then Some v else None, update)"
    by (rule FindNode_correct [OF ok assms(2) UV])
  ultimately show ?thesis by (simp add: Contains_def split: list.splits)
qed

lemma score_scan_chain:
  "chain s ns \<Longrightarrow> score_scan s m (head_of ns) =
     Some (case find (\<lambda>q. snd q = m) (map (nkey s) ns) of None \<Rightarrow> 0 | Some q \<Rightarrow> fst q)"
proof (induction ns)
  case (Cons a ns)
  then obtain n where "sl_heap s a = Some n" by auto
  with Cons show ?case by (simp add: score_scan.simps [of s m "Some a"] nkey_def)
qed (simp add: score_scan.simps)

lemma ScoreOf_correct:
  assumes "sl_rel s xs"
  shows "ScoreOf s m = Some (case find (\<lambda>q. snd q = m) xs of None \<Rightarrow> 0 | Some q \<Rightarrow> fst q)"
  using assms by (auto elim!: sl_relE simp: ScoreOf_def score_scan_chain)

section \<open>Pops\<close>

lemma PopMin_correct:
  assumes "sl_rel s xs"
  obtains s' where "PopMin s = Some (s', case xs of [] \<Rightarrow> None | x # _ \<Rightarrow> Some x)" "sl_rel s' (tl xs)"
proof -
  obtain ns where ns: "sl_ok s ns" "xs = map (nkey s) ns" "zsorted xs" "chain s ns"
    "get_forward s (sl_header s) 0 = Some (head_of ns)" "sl_length s = length xs"
    using assms by (rule sl_relE)
  show thesis
  proof (cases ns)
    case Nil
    with ns assms show thesis by (intro that [of s]) (simp_all add: PopMin_def)
  next
    case (Cons a as)
    then obtain n where n: "sl_heap s a = Some n" using ns(4) by auto
    then have k: "nkey s a = (node_score n, node_member n)" by (simp add: nkey_def)
    have num: "\<not> d_isnan (node_score n)" using ns(2,3) Cons k by (simp add: zsorted_Cons num_score_def)
    have V: "\<forall>b\<in>set ns. zkey (node_score n, node_member n) \<le> zkey (nkey s b)"
      using ns(2,3) Cons k by (auto simp: zsorted_Cons)
    obtain update rank where f: "preds_ok s [] (sl_level s) update rank"
      "FindNode s (node_score n) (node_member n) = Some (Some a, update)"
      using FindNode_correct [OF ns(1) num, of "[]" ns "node_member n"] V Cons k by auto
    obtain s' where "DeleteNode s a update = Some s'" "sl_rel s' (map (nkey s) as)"
      using DeleteNode_correct [of s "[]" a as] ns(1) Cons f(1) by auto
    then show thesis using ns(2,5) Cons n f(2) k by (intro that [of s']) (simp_all add: PopMin_def)
  qed
qed

lemma PopMax_correct:
  assumes "sl_rel s xs"
  obtains s' where "PopMax s = Some (s', if xs = [] then None else Some (last xs))"
    "sl_rel s' (butlast xs)"
proof -
  obtain ns where ns: "sl_ok s ns" "xs = map (nkey s) ns" "zsorted xs" "chain s ns"
    "get_forward s (sl_header s) 0 = Some (head_of ns)" "sl_length s = length xs"
    using assms by (rule sl_relE)
  have d: "descend_plain (\<lambda>n. True) s (sl_level s) (sl_header s) = Some (last (sl_header s # ns))"
    using descend_plain_top [OF ns(1), of ns "[]"] by simp
  show thesis
  proof (cases ns rule: rev_cases)
    case Nil
    with ns assms d show thesis by (intro that [of s]) (simp_all add: PopMax_def)
  next
    case (snoc as a)
    have h: "a \<noteq> sl_header s" "a \<in> dom (sl_heap s)"
      using shape_okD(1,2) [OF sl_okD(1) [OF ns(1)]] snoc by auto
    then obtain n where n: "sl_heap s a = Some n" by auto
    then have k: "nkey s a = (node_score n, node_member n)" by (simp add: nkey_def)
    have num: "\<not> d_isnan (node_score n)"
      using ns(2,3) snoc k by (simp add: zsorted_Cons zsorted_append num_score_def)
    have U: "\<forall>b\<in>set as. zkey (nkey s b) < zkey (node_score n, node_member n)"
      using ns(2,3) snoc k by (auto simp: zsorted_append zsorted_Cons)
    obtain update rank where f: "preds_ok s as (sl_level s) update rank"
      "FindNode s (node_score n) (node_member n) = Some (Some a, update)"
      using FindNode_correct [OF ns(1) num snoc, of "node_member n"] U k by auto
    obtain s' where "DeleteNode s a update = Some s'" "sl_rel s' (map (nkey s) as)"
      using DeleteNode_correct [of s as a "[]"] ns(1) snoc f(1) by auto
    then show thesis using ns(2) snoc n f(2) k d h by (intro that [of s']) (simp_all add: PopMax_def)
  qed
qed

section \<open>Ranks\<close>

lemma upto_key_iff:
  assumes "num_score (nkey s b)" and "\<not> d_isnan sc"
  shows "upto_key sc m (nd_of s b) \<longleftrightarrow> zkey (nkey s b) \<le> zkey (sc, m)"
  using assms
  by (auto simp: upto_key_def nkey_def num_score_def zkey_def less_eq_prod_def d_lt_def d_eq_def)

text \<open>
  The loop of \<open>Rank\<close> from level \<open>i - 1\<close> on: \<open>U\<close> are the nodes up to the key, so the key, if
  present, is that of the last one.
\<close>

lemma RankLoop_correct:
  assumes lk: "\<And>l. l < i \<Longrightarrow> linked (tall s l) (fw s l) (sp s l) (h # U @ V)"
    and all: "\<forall>b\<in>set (h # U @ V). b \<in> dom (sl_heap s) \<and> wd s b = ht s b"
    and c: "\<forall>b\<in>set U. upto_key sc m (nd_of s b)" "\<forall>b\<in>set V. \<not> upto_key sc m (nd_of s b)"
    and h: "sl_header s = h" "distinct (h # U)" and bot: "\<forall>b\<in>set U. tall s 0 b"
    and hit: "\<And>b n. b \<in> set U \<Longrightarrow> sl_heap s b = Some n \<Longrightarrow>
      d_eq (node_score n) sc \<and> node_member n = m \<longleftrightarrow> present \<and> b = last (h # U)"
    and pre: "present \<Longrightarrow> U \<noteq> []"
    and x: "h # U = P @ x # Q" "i \<noteq> 0 \<Longrightarrow> tall s (i - 1) x"
  shows "RankLoop s sc m i x (of_nat (length P)) =
    Some (if present \<and> i \<noteq> 0 then of_nat (length U) - 1 else SIZE_MAX)"
  using lk x
proof (induction i arbitrary: P x Q)
  case (Suc i)
  have tx: "tall s i x" using Suc.prems(3) by simp
  have Q: "set Q \<subseteq> set U" using Suc.prems(2) by (cases P) auto
  have lk: "linked (tall s i) (fw s i) (sp s i) (x # Q @ V)"
    using linked_tail [of "tall s i" "fw s i" "sp s i" P "x # Q @ V"] Suc.prems(1) [of i] Suc.prems(2)
    by (metis append.assoc append_Cons lessI)
  have all': "\<forall>b\<in>set (x # Q @ V). b \<in> dom (sl_heap s) \<and> wd s b = ht s b"
    using all Suc.prems(2) by (metis Un_iff append.assoc append_Cons set_append)
  have "\<forall>b\<in>set Q. upto_key sc m (nd_of s b)" using Q c(1) by blast
  from walk_correct [OF lk tx all' this c(2), of "of_nat (length P)"]
  obtain y k where y: "last_at (tall s i) (x # Q) y k"
    "walk (upto_key sc m) s i x (of_nat (length P)) = Some (y, of_nat (length P + k))"
    by auto
  have yA: "last_at (tall s i) (h # U) y (length P + k)"
    using last_at_prepend [OF y(1), of P] Suc.prems(2) by simp
  then obtain W1 W2 where W: "h # U = W1 @ y # W2" "tall s i y" "length P + k = length W1"
    by (auto elim: last_at_E)
  have "y \<in> set (h # U)" unfolding W(1) by simp
  then obtain n where n: "sl_heap s y = Some n" using all by auto
  let ?hit = "y \<noteq> h \<and> d_eq (node_score n) sc \<and> node_member n = m"
  have "present \<Longrightarrow> last (h # U) \<noteq> h" using h(2) pre last_in_set [of U] by auto
  then have hit_y: "?hit \<longleftrightarrow> present \<and> y = last (h # U)"
    using hit [OF _ n] \<open>y \<in> set (h # U)\<close> by auto
  show ?case
  proof (cases ?hit)
    case True
    then have "W2 = []" using hit_y W(1) h(2)
      by (metis distinct_append append_Cons append_Nil distinct.simps(2) last_appendR last_in_set last_ConsR list.distinct(1))
    then have "length W1 = length U" using W(1) by (metis length_Cons length_append_singleton nat.inject)
    with True hit_y y(2) n h(1) W(3) show ?thesis by simp
  next
    case False
    then have "RankLoop s sc m (Suc i) x (of_nat (length P)) = RankLoop s sc m i y (of_nat (length W1))"
      using y(2) n h(1) W(3) by auto
    also have "\<dots> = Some (if present \<and> i \<noteq> 0 then of_nat (length U) - 1 else SIZE_MAX)"
      using Suc.IH [OF Suc.prems(1) W(1)] W(2) by simp
    also have "i = 0 \<Longrightarrow> \<not> present" using last_at_bottom(2) [OF bot] yA hit_y False by blast
    then have "(present \<and> i \<noteq> 0) = (present \<and> Suc i \<noteq> 0)" by blast
    finally show ?thesis by simp
  qed
qed simp

text \<open>The rank of a key: the number of smaller pairs.\<close>

definition zrank :: "double \<times> string \<Rightarrow> (double \<times> string) list \<Rightarrow> nat" where
  "zrank p xs = length (filter (\<lambda>q. zkey q < zkey p) xs)"

lemma zsorted_split_le:
  assumes "zsorted xs"
  obtains A B where "xs = A @ B" "\<forall>q\<in>set A. zkey q \<le> k" "\<forall>q\<in>set B. k < zkey q"
proof
  let ?P = "\<lambda>q. zkey q \<le> k"
  show "xs = takeWhile ?P xs @ dropWhile ?P xs" by simp
  show "\<forall>q\<in>set (takeWhile ?P xs). zkey q \<le> k" by (auto dest: set_takeWhileD)
  show "\<forall>q\<in>set (dropWhile ?P xs). k < zkey q"
    using assms by (induction xs) (auto simp: zsorted_Cons not_le intro: less_trans)
qed

lemma zrank_last:
  assumes "zsorted (A @ B)" and "\<forall>q\<in>set A. zkey q \<le> zkey p" and "\<forall>q\<in>set B. zkey p < zkey q"
  shows "zkey p \<in> zkey ` set (A @ B) \<longleftrightarrow> A \<noteq> [] \<and> zkey (last A) = zkey p"
    and "q \<in> set A \<Longrightarrow> zkey q = zkey p \<longleftrightarrow> q = last A \<and> zkey (last A) = zkey p"
    and "zkey p \<in> zkey ` set (A @ B) \<Longrightarrow> length A = Suc (zrank p (A @ B))"
proof -
  have B: "filter (\<lambda>q. zkey q < zkey p) B = []" using assms(3) by (auto simp: filter_empty_conv)
  show *: "zkey p \<in> zkey ` set (A @ B) \<longleftrightarrow> A \<noteq> [] \<and> zkey (last A) = zkey p"
    using assms by (cases A rule: rev_cases) (fastforce simp: zsorted_append zsorted_Cons image_iff)+
  show "q \<in> set A \<Longrightarrow> zkey q = zkey p \<longleftrightarrow> q = last A \<and> zkey (last A) = zkey p"
    using assms by (cases A rule: rev_cases) (fastforce simp: zsorted_append zsorted_Cons)+
  assume "zkey p \<in> zkey ` set (A @ B)"
  with * obtain A' a where A: "A = A' @ [a]" "zkey a = zkey p" by (cases A rule: rev_cases) auto
  have "filter (\<lambda>q. zkey q < zkey p) A' = A'"
    using assms(1) A by (auto simp: filter_id_conv zsorted_append zsorted_Cons)
  with A B show "length A = Suc (zrank p (A @ B))" by (simp add: zrank_def)
qed

lemma zsorted_inj:
  "zsorted (map (nkey s) U) \<Longrightarrow> a \<in> set U \<Longrightarrow> b \<in> set U \<Longrightarrow> nkey s a = nkey s b \<longleftrightarrow> a = b"
  by (induction U) (auto simp: zsorted_Cons)

lemma Rank_correct:
  assumes "sl_rel s xs" and num: "\<not> d_isnan sc"
  shows "Rank s sc m =
    Some (if zkey (sc, m) \<in> zkey ` set xs then of_nat (zrank (sc, m) xs) else SIZE_MAX)"
proof -
  obtain ns where ns: "sl_ok s ns" "xs = map (nkey s) ns" "zsorted xs"
    using assms(1) by (rule sl_relE)
  note sh = shape_okD [OF sl_okD(1) [OF ns(1)]]
  obtain A B where AB: "xs = A @ B" "\<forall>q\<in>set A. zkey q \<le> zkey (sc, m)" "\<forall>q\<in>set B. zkey (sc, m) < zkey q"
    using zsorted_split_le [OF ns(3)] by metis
  obtain U V where UV: "ns = U @ V" "A = map (nkey s) U" "B = map (nkey s) V"
    using AB(1) ns(2) by (metis map_eq_append_conv)
  note z = zrank_last [OF ns(3) [unfolded AB(1)] AB(2,3)]
  have nums: "num_score (nkey s b)" if "b \<in> set ns" for b
    using ns(2,3) that by (auto simp: zsorted_def)
  have "RankLoop s sc m (sl_level s) (sl_header s) (of_nat (length ([] :: nat list))) =
    Some (if zkey (sc, m) \<in> zkey ` set xs \<and> sl_level s \<noteq> 0 then of_nat (length U) - 1 else SIZE_MAX)"
  proof (rule RankLoop_correct [where U = U and V = V and Q = U])
    show "linked (tall s l) (fw s l) (sp s l) (sl_header s # U @ V)" if "l < sl_level s" for l
      using sl_ok_linked [OF sl_okD(3) [OF ns(1)], of l] that sh(9) UV(1) by simp
    show "\<forall>b\<in>set (sl_header s # U @ V). b \<in> dom (sl_heap s) \<and> wd s b = ht s b"
      using sh(2,4) UV(1) by blast
    show "\<forall>b\<in>set U. upto_key sc m (nd_of s b)" "\<forall>b\<in>set V. \<not> upto_key sc m (nd_of s b)"
      using AB(2,3) UV nums upto_key_iff [OF _ num] by (auto simp: not_le)
    show "d_eq (node_score n) sc \<and> node_member n = m \<longleftrightarrow>
        zkey (sc, m) \<in> zkey ` set xs \<and> b = last (sl_header s # U)"
      if b: "b \<in> set U" and n: "sl_heap s b = Some n" for b n
    proof -
      have "d_eq (node_score n) sc \<and> node_member n = m \<longleftrightarrow> zkey (nkey s b) = zkey (sc, m)"
        using n nums [of b] num b UV(1) KeyEqual_zkey [of "node_score n" sc "node_member n" m]
        by (simp add: KeyEqual_def nkey_def num_score_def)
      also have "\<dots> \<longleftrightarrow> zkey (sc, m) \<in> zkey ` set xs \<and> nkey s b = nkey s (last U)"
        using z(1) z(2) [of "nkey s b"] b UV(2) AB(1) by (auto simp: last_map)
      also have "nkey s b = nkey s (last U) \<longleftrightarrow> b = last (sl_header s # U)"
        using zsorted_inj [of s U b "last U"] ns(2,3) UV b by (auto simp: zsorted_append)
      finally show ?thesis .
    qed
  qed (use sh UV z(1) AB(1) in auto)
  also have "zkey (sc, m) \<in> zkey ` set xs \<Longrightarrow> length U = Suc (zrank (sc, m) xs)"
    using z(3) AB(1) UV(2) by simp
  then have "(if zkey (sc, m) \<in> zkey ` set xs \<and> sl_level s \<noteq> 0 then of_nat (length U) - 1 else SIZE_MAX) =
    (if zkey (sc, m) \<in> zkey ` set xs then of_nat (zrank (sc, m) xs) else SIZE_MAX)"
    using sh(8) by simp
  finally show ?thesis by (simp add: Rank_def)
qed

lemma unat_SIZE_MAX: "unat SIZE_MAX = 2 ^ 64 - 1"
  by (simp add: SIZE_MAX_def unsigned_minus_1_eq_mask mask_eq_exp_minus_1)

lemma RevRank_correct:
  assumes "sl_rel s xs" and "\<not> d_isnan sc" and "length xs < 2 ^ 64 - 1"
  shows "RevRank s sc m = Some (if zkey (sc, m) \<in> zkey ` set xs
     then of_nat (length xs - 1 - zrank (sc, m) xs) else SIZE_MAX)"
proof -
  have len: "sl_length s = length xs" using assms(1) by (rule sl_relE)
  show ?thesis
  proof (cases "zkey (sc, m) \<in> zkey ` set xs")
    case True
    then obtain q where q: "q \<in> set xs" "\<not> zkey q < zkey (sc, m)" by auto
    have lt: "zrank (sc, m) xs < length xs" unfolding zrank_def using q by (intro length_filter_less [of q])
    have u: "unat (of_nat (zrank (sc, m) xs) :: 64 word) = zrank (sc, m) xs"
      using lt assms(3) by (simp add: unat_of_nat)
    have "(of_nat (zrank (sc, m) xs) :: 64 word) \<noteq> SIZE_MAX"
      using u lt assms(3) unat_SIZE_MAX by auto
    with True len lt u show ?thesis
      by (simp add: RevRank_def Rank_correct [OF assms(1,2)] of_nat_diff)
  next
    case False
    then show ?thesis by (simp add: RevRank_def Rank_correct [OF assms(1,2)])
  qed
qed

section \<open>Ranges of ranks\<close>

lemma collect_ranks_chain:
  assumes "chain s ns" and "lo \<le> hi + 1"
  shows "collect_ranks s lo hi (head_of ns) r out =
    Some (out @ take (nat (hi + 1 - max lo r)) (drop (nat (lo - r)) (map (nkey s) ns)))"
  using assms
proof (induction ns arbitrary: r out)
  case (Cons a ns)
  then obtain n where n: "sl_heap s a = Some n" by auto
  show ?case
  proof (cases "r \<le> hi")
    case False
    then show ?thesis using Cons.prems by (simp add: collect_ranks.simps [of s lo hi "Some a"])
  next
    case True
    have "collect_ranks s lo hi (head_of (a # ns)) r out =
      collect_ranks s lo hi (head_of ns) (r + 1) (if lo \<le> r then out @ [nkey s a] else out)"
      using True Cons.prems n by (simp add: collect_ranks.simps [of s lo hi "Some a"] nkey_def)
    also have "\<dots> = Some ((if lo \<le> r then out @ [nkey s a] else out) @
        take (nat (hi + 1 - max lo (r + 1))) (drop (nat (lo - (r + 1))) (map (nkey s) ns)))"
      using Cons by simp
    also have "\<dots> = Some (out @ take (nat (hi + 1 - max lo r)) (drop (nat (lo - r)) (map (nkey s) (a # ns))))"
    proof (cases "lo \<le> r")
      case True
      then have "nat (hi + 1 - max lo r) = Suc (nat (hi + 1 - max lo (r + 1)))"
        "nat (lo - r) = 0" "nat (lo - (r + 1)) = 0" using \<open>r \<le> hi\<close> by auto
      with True show ?thesis by simp
    next
      case False
      then have "nat (lo - r) = Suc (nat (lo - (r + 1)))" "max lo r = lo" "max lo (r + 1) = lo" by auto
      with False show ?thesis by simp
    qed
    finally show ?thesis .
  qed
qed (simp add: collect_ranks.simps)

text \<open>
  Indices as in Redis: a negative index counts from the end, and the answer is what lies
  between the two.
\<close>

definition from_end :: "nat \<Rightarrow> int \<Rightarrow> int" where
  "from_end n i = (if i < 0 then int n + i else i)"

definition zslice :: "'a list \<Rightarrow> int \<Rightarrow> int \<Rightarrow> 'a list" where
  "zslice xs start stop = map (\<lambda>i. xs ! i) (filter (\<lambda>i. from_end (length xs) start \<le> int i \<and>
      int i \<le> from_end (length xs) stop) [0..<length xs])"

lemma filter_between:
  "map (\<lambda>i. xs ! i) (filter (\<lambda>i. lo \<le> int i \<and> int i \<le> hi) [0..<length xs]) =
   take (nat (hi + 1 - max lo 0)) (drop (nat lo) xs)"
proof (induction xs rule: rev_induct)
  case (snoc x xs)
  have "map (\<lambda>i. (xs @ [x]) ! i) (filter (\<lambda>i. lo \<le> int i \<and> int i \<le> hi) [0..<length xs]) =
    map (\<lambda>i. xs ! i) (filter (\<lambda>i. lo \<le> int i \<and> int i \<le> hi) [0..<length xs])"
    by (rule map_cong) (auto simp: nth_append)
  with snoc show ?case
    by (cases "lo \<le> int (length xs)"; cases "int (length xs) \<le> hi") (auto simp: max_def)
qed simp

lemma zslice_take_drop:
  "zslice xs start stop =
   take (nat (from_end (length xs) stop + 1 - max (from_end (length xs) start) 0))
     (drop (nat (from_end (length xs) start)) xs)"
  unfolding zslice_def by (rule filter_between)

lemma rank_window_zslice:
  "zslice xs start stop =
     (case rank_window (int (length xs)) start stop of
        None \<Rightarrow> []
      | Some (lo, hi) \<Rightarrow> take (nat (hi + 1 - lo)) (drop (nat lo) xs))"
  by (auto simp: zslice_take_drop rank_window_def Let_def from_end_def max_def)

lemma rank_window_bounds:
  "rank_window n start stop = Some (lo, hi) \<Longrightarrow> 0 \<le> lo \<and> lo \<le> hi \<and> hi < n"
  by (auto simp: rank_window_def Let_def split: if_splits)

lemma rev_slice:
  assumes "a \<le> b" and "b \<le> length xs"
  shows "rev (take (b - a) (drop (length xs - b) xs)) = take (b - a) (drop a (rev xs))"
proof (rule nth_equalityI)
  fix i assume "i < length (rev (take (b - a) (drop (length xs - b) xs)))"
  then have i: "i < b - a" "min b (b - a) = b - a" using assms by auto
  moreover have "length xs - b + (b - a - Suc i) = length xs - Suc (a + i)" using assms i by arith
  ultimately show "rev (take (b - a) (drop (length xs - b) xs)) ! i = take (b - a) (drop a (rev xs)) ! i"
    using assms by (simp add: rev_nth)
qed (use assms in simp)

lemma RangeByRank_correct:
  assumes "sl_rel s xs"
  shows "RangeByRank s start stop rv = Some (zslice (if rv then rev xs else xs) start stop)"
proof -
  obtain ns where ns: "xs = map (nkey s) ns" "chain s ns"
    "get_forward s (sl_header s) 0 = Some (head_of ns)" "sl_length s = length xs"
    using assms by (rule sl_relE)
  show ?thesis
  proof (cases "rank_window (int (length xs)) start stop")
    case None
    then show ?thesis using ns(4) rank_window_zslice [of "if rv then rev xs else xs" start stop]
      by (simp add: RangeByRank_def)
  next
    case (Some w)
    obtain lo hi where w: "rank_window (int (length xs)) start stop = Some (lo, hi)"
      using Some by (cases w) auto
    note b = rank_window_bounds [OF w]
    show ?thesis
    proof (cases rv)
      case False
      then show ?thesis
        using w b ns rank_window_zslice [of xs start stop] collect_ranks_chain [OF ns(2), of lo hi 0 "[]"]
        by (simp add: RangeByRank_def)
    next
      case True
      let ?n = "int (length xs)"
      have e: "nat (?n - 1 - lo + 1 - max (?n - 1 - hi) 0) = nat (hi + 1 - lo)"
        "nat (?n - 1 - hi - 0) = length xs - nat (hi + 1)" using b by auto
      have lh: "nat lo \<le> nat (hi + 1)" "nat (hi + 1) \<le> length xs" using b by auto
      have "rev (take (nat (hi + 1 - lo)) (drop (length xs - nat (hi + 1)) xs)) =
        take (nat (hi + 1 - lo)) (drop (nat lo) (rev xs))"
        using rev_slice [OF lh] b by (simp add: nat_diff_distrib)
      with True show ?thesis
        using w b ns rank_window_zslice [of "rev xs" start stop]
          collect_ranks_chain [OF ns(2), of "?n - 1 - hi" "?n - 1 - lo" 0 "[]"] e
        by (simp add: RangeByRank_def)
    qed
  qed
qed

section \<open>Ranges of scores\<close>

definition in_range :: "score_range \<Rightarrow> double \<times> string \<Rightarrow> bool" where
  "in_range r q \<longleftrightarrow> \<not> below_min r (fst q) \<and> \<not> above_max r (fst q)"

lemma above_max_mono:
  "above_max r a \<Longrightarrow> \<not> d_isnan a \<Longrightarrow> \<not> d_isnan b \<Longrightarrow> d_key a \<le> d_key b \<Longrightarrow> above_max r b"
  by (auto simp: above_max_def d_le_def d_lt_def d_eq_def split: if_splits)

lemma below_min_mono:
  "below_min r b \<Longrightarrow> \<not> d_isnan a \<Longrightarrow> \<not> d_isnan b \<Longrightarrow> d_key a \<le> d_key b \<Longrightarrow> below_min r a"
  by (auto simp: below_min_def d_le_def d_lt_def d_eq_def split: if_splits)

lemma zsorted_scores:
  assumes "zsorted (p # xs)" and "q \<in> set xs"
  shows "\<not> d_isnan (fst p)" "\<not> d_isnan (fst q)" "d_key (fst p) \<le> d_key (fst q)"
  using assms by (auto simp: zsorted_def zkey_def less_prod_def num_score_def)

lemma above_max_none_in_range:
  assumes "zsorted (p # xs)" and "above_max r (fst p)"
  shows "filter (in_range r) (p # xs) = []"
  using assms zsorted_scores [OF assms(1)] above_max_mono [OF assms(2)]
  by (auto simp: filter_empty_conv in_range_def)

lemma count_scores_chain:
  "chain s ns \<Longrightarrow> zsorted (map (nkey s) ns) \<Longrightarrow>
   count_scores s r (head_of ns) n = Some (n + length (filter (in_range r) (map (nkey s) ns)))"
proof (induction ns arbitrary: n)
  case (Cons a ns)
  then obtain nd where nd: "sl_heap s a = Some nd" by auto
  then have k: "fst (nkey s a) = node_score nd" by (simp add: nkey_def)
  have srt: "zsorted (nkey s a # map (nkey s) ns)" using Cons.prems by simp
  note unf = count_scores.simps [of s r "Some a"]
  show ?case
  proof (cases "above_max r (node_score nd) \<and> \<not> below_min r (node_score nd)")
    case True
    then have "filter (in_range r) (map (nkey s) (a # ns)) = []"
      using above_max_none_in_range [OF srt, of r] k by simp
    with True nd show ?thesis by (simp add: unf del: filter.simps list.map)
  next
    case False
    with Cons nd k srt show ?thesis by (auto simp: unf in_range_def zsorted_Cons)
  qed
qed (simp add: count_scores.simps)

lemma CountInRange_correct:
  assumes "sl_rel s xs"
  shows "CountInRange s r = Some (length (filter (in_range r) xs))"
  using assms by (auto elim!: sl_relE simp: CountInRange_def count_scores_chain)


text \<open>\<open>LIMIT offset count\<close>: a negative count means no limit.\<close>

definition limit_by :: "int \<Rightarrow> int \<Rightarrow> 'a list \<Rightarrow> 'a list" where
  "limit_by offset count xs =
     (let ys = drop (nat offset) xs in if count < 0 then ys else take (nat count) ys)"

lemma collect_asc_chain:
  "chain s ns \<Longrightarrow> collect_asc s r (head_of ns) out = Some (out @ filter (in_range r) (map (nkey s) ns))"
proof (induction ns arbitrary: out)
  case (Cons a ns)
  then obtain n where "sl_heap s a = Some n" by auto
  with Cons show ?case
    by (simp add: collect_asc.simps [of s r "Some a"] in_range_def nkey_def)
qed (simp add: collect_asc.simps)

lemma reverse_window_eq:
  assumes "0 \<le> offset" and "count \<noteq> 0" and "in_ll (int (length asc) - offset)"
  shows "reverse_window asc offset count = Some (limit_by offset count (rev asc))"
proof -
  let ?n = "int (length asc)"
  consider "?n \<le> offset" | "offset < ?n" "count < 0" | "offset < ?n" "0 < count" using assms(2) by linarith
  then show ?thesis
  proof cases
    case 1
    with assms show ?thesis by (simp add: reverse_window_def limit_by_def Let_def)
  next
    case 2
    with assms show ?thesis by (simp add: reverse_window_def limit_by_def Let_def)
  next
    case 3
    then have "take (nat (?n - offset - max 0 (?n - offset - count))) (drop (nat offset) (rev asc)) =
      take (nat count) (drop (nat offset) (rev asc))"
      using assms(1) by (cases "?n - offset - count < 0") (auto simp: max_def)
    with 3 assms show ?thesis by (simp add: reverse_window_def limit_by_def Let_def max_def)
  qed
qed

text \<open>A negative offset moves the first iterator before the vector.\<close>

lemma reverse_window_negative:
  "offset < 0 \<Longrightarrow> reverse_window asc offset count = None"
  by (auto simp: reverse_window_def Let_def)

definition remaining :: "int \<Rightarrow> nat \<Rightarrow> 'a list \<Rightarrow> 'a list" where
  "remaining count n xs = (if count < 0 then xs else take (nat count - n) xs)"

lemma remaining_Cons:
  assumes "count < 0 \<or> int (length (out @ [x])) < count"
  shows "(out @ [x]) @ remaining count (length (out @ [x])) xs = out @ remaining count (length out) (x # xs)"
proof -
  have "nat count - length out = Suc (nat count - Suc (length out))" if "\<not> count < 0"
    using assms that by auto
  then show ?thesis by (simp add: remaining_def)
qed

lemma collect_scores_chain:
  assumes "chain s ns" and "zsorted (map (nkey s) ns)" and "count \<noteq> 0"
    and "count < 0 \<or> int (length out) < count" and "0 \<le> sk"
  shows "collect_scores s r offset count (head_of ns) sk out =
    Some (out @ remaining count (length out)
      (drop (nat (offset - sk)) (filter (in_range r) (map (nkey s) ns))))"
  using assms
proof (induction ns arbitrary: sk out)
  case (Cons a ns)
  then obtain n where n: "sl_heap s a = Some n" by auto
  then have k: "nkey s a = (node_score n, node_member n)" by (simp add: nkey_def)
  have srt: "zsorted (nkey s a # map (nkey s) ns)" "zsorted (map (nkey s) ns)" "chain s ns"
    "get_forward s a 0 = Some (head_of ns)"
    using Cons.prems by (simp_all add: zsorted_Cons)
  note IH = Cons.IH [OF srt(3,2) Cons.prems(3)]
  note unf = collect_scores.simps [of s r offset count "Some a"]
  let ?v = "node_score n"
  consider "below_min r ?v" | "\<not> below_min r ?v" "above_max r ?v"
    | "in_range r (nkey s a)" "offset > 0 \<and> sk < offset"
    | "in_range r (nkey s a)" "\<not> (offset > 0 \<and> sk < offset)"
    by (auto simp: in_range_def k)
  then show ?case
  proof cases
    case 1
    with n k srt(4) IH Cons.prems(4,5) show ?thesis by (simp add: unf in_range_def)
  next
    case 2
    then have "filter (in_range r) (map (nkey s) (a # ns)) = []"
      using above_max_none_in_range [OF srt(1), of r] k by simp
    with 2 n show ?thesis by (simp add: unf remaining_def del: filter.simps list.map)
  next
    case 3
    then have "nat (offset - sk) = Suc (nat (offset - (sk + 1)))" by auto
    with 3 n k srt(4) IH [of out "sk + 1"] Cons.prems(4,5) show ?thesis
      by (simp add: unf in_range_def)
  next
    case 4
    then have o: "nat (offset - sk) = 0" using Cons.prems(5) by auto
    show ?thesis
    proof (cases "count > 0 \<and> int (length out) + 1 \<ge> count")
      case True
      then have "nat count - length out = 1" using Cons.prems(4) by auto
      with True 4 n k o show ?thesis by (simp add: unf in_range_def remaining_def)
    next
      case False
      then have c: "count < 0 \<or> int (length (out @ [nkey s a])) < count" using Cons.prems(3) by auto
      have "collect_scores s r offset count (head_of (a # ns)) sk out =
        collect_scores s r offset count (head_of ns) sk (out @ [nkey s a])"
        using False 4 n k srt(4) by (auto simp: unf in_range_def Let_def)
      also note IH [OF c Cons.prems(5)]
      also have "(out @ [nkey s a]) @ remaining count (length (out @ [nkey s a]))
          (drop (nat (offset - sk)) (filter (in_range r) (map (nkey s) ns))) =
        out @ remaining count (length out) (nkey s a # filter (in_range r) (map (nkey s) ns))"
        unfolding o drop_0 by (rule remaining_Cons [OF c])
      also have "nkey s a # filter (in_range r) (map (nkey s) ns) = filter (in_range r) (map (nkey s) (a # ns))"
        using 4(1) by simp
      finally show ?thesis using o by simp
    qed
  qed
qed (simp add: collect_scores.simps remaining_def)

lemma skip_ties_chain:
  assumes "chain s ns"
  shows "skip_ties s v (head_of ns) =
    Some (head_of (dropWhile (\<lambda>a. d_eq (fst (nkey s a)) v) ns))"
  using assms
proof (induction ns)
  case (Cons a ns)
  then obtain n where "sl_heap s a = Some n" by auto
  with Cons show ?case by (simp add: skip_ties.simps [of s v "Some a"] nkey_def)
qed (simp add: skip_ties.simps [of s v None])

lemma dropWhile_below:
  assumes "zsorted (map (nkey s) ns)"
  shows "\<forall>b\<in>set (dropWhile (\<lambda>b. d_lt (fst (nkey s b)) v) ns). \<not> d_lt (fst (nkey s b)) v"
  using assms
proof (induction ns)
  case (Cons a ns)
  have srt: "zsorted (nkey s a # map (nkey s) ns)" using Cons.prems by simp
  show ?case
  proof (cases "d_lt (fst (nkey s a)) v")
    case True
    have "zsorted (map (nkey s) ns)" using srt by (simp only: zsorted_Cons)
    from Cons.IH [OF this] show ?thesis using True by (simp only: dropWhile.simps if_True)
  next
    case False
    have "\<not> d_lt (fst (nkey s b)) v" if b: "b \<in> set ns" for b
    proof -
      have "nkey s b \<in> set (map (nkey s) ns)" using b by simp
      note z = zsorted_scores [OF srt this]
      show ?thesis using False z by (auto simp: d_lt_def)
    qed
    with False show ?thesis by simp
  qed
qed simp

lemma filter_in_range_dropWhile:
  assumes "\<And>b. P b \<Longrightarrow> below_min r (fst (nkey s b))"
  shows "filter (in_range r) (map (nkey s) (dropWhile P ns)) = filter (in_range r) (map (nkey s) ns)"
  using assms by (induction ns) (auto simp: in_range_def)

lemma chain_dropWhile: "chain s ns \<Longrightarrow> chain s (dropWhile P ns)"
  by (induction ns) auto

lemma zsorted_dropWhile:
  "zsorted (map (nkey s) ns) \<Longrightarrow> zsorted (map (nkey s) (dropWhile P ns))"
  by (induction ns) (auto simp: zsorted_Cons)

lemma RangeByScore_forward:
  assumes "sl_rel s xs" and "count \<noteq> 0"
  shows "RangeByScore s r False offset count = Some (limit_by offset count (filter (in_range r) xs))"
proof -
  obtain ns where ns: "sl_ok s ns" "xs = map (nkey s) ns" "zsorted xs" "chain s ns"
    using assms(1) by (rule sl_relE)
  let ?P = "\<lambda>b. d_lt (fst (nkey s b)) (range_min r)" and ?E = "\<lambda>b. d_eq (fst (nkey s b)) (range_min r)"
  let ?U = "takeWhile ?P ns" and ?V = "dropWhile ?P ns"
  let ?W = "if min_exclusive r then dropWhile ?E ?V else ?V"
  have nk: "fst (nkey s b) = node_score (nd_of s b)" for b by (simp add: nkey_def)
  have "\<forall>b\<in>set ?U. ?P b" by (blast dest: set_takeWhileD)
  moreover have "\<forall>b\<in>set ?V. \<not> ?P b" using ns(2,3) by (intro dropWhile_below) simp
  ultimately have "descend_plain (\<lambda>n. d_lt (node_score n) (range_min r)) s (sl_level s) (sl_header s) =
      Some (last (sl_header s # ?U))"
    unfolding nk by (rule descend_plain_top [OF ns(1) takeWhile_dropWhile_id [symmetric]])
  moreover have "get_forward s (last (sl_header s # ?U)) 0 = Some (head_of ?V)"
  proof -
    have "chain s (butlast (sl_header s # ?U) @ last (sl_header s # ?U) # ?V)"
      using chain_all [OF ns(1)] append_butlast_last_id [of "sl_header s # ?U"]
        takeWhile_dropWhile_id [of ?P ns]
      by (metis append.assoc append_Cons append_Nil list.distinct(1))
    from chain_appendD [OF this] show ?thesis by simp
  qed
  moreover have V: "chain s ?V" by (rule chain_dropWhile [OF ns(4)])
  moreover have W: "chain s ?W" "zsorted (map (nkey s) ?W)"
    using V ns(2,3) by (simp_all add: chain_dropWhile zsorted_dropWhile)
  moreover have E: "below_min r (fst (nkey s b))" if "min_exclusive r" "?E b" for b
    using that by (simp add: below_min_def d_le_def)
  have P: "below_min r (fst (nkey s b))" if "?P b" for b
    using that by (simp add: below_min_def d_le_def)
  have "filter (in_range r) (map (nkey s) ?W) = filter (in_range r) xs"
  proof (cases "min_exclusive r")
    case True
    then show ?thesis
      using filter_in_range_dropWhile [of ?E r s ?V, OF E [OF True]]
        filter_in_range_dropWhile [of ?P r s ns, OF P] ns(2) by (simp only: if_True)
  next
    case False
    then show ?thesis
      using filter_in_range_dropWhile [of ?P r s ns, OF P] ns(2) by (simp only: if_False)
  qed
  then have "collect_scores s r offset count (head_of ?W) 0 [] =
      Some (limit_by offset count (filter (in_range r) xs))"
    using assms(2) collect_scores_chain [OF W assms(2), of "[]" 0 r offset]
    by (simp only: limit_by_def remaining_def Let_def) simp
  moreover have "(if min_exclusive r then skip_ties s (range_min r) (head_of ?V) else Some (head_of ?V)) =
      Some (head_of ?W)"
    using skip_ties_chain [OF V] by (simp only: if_split) simp
  ultimately show ?thesis using assms(2) by (simp add: RangeByScore_def)
qed

lemma RangeByScore_reverse:
  assumes "sl_rel s xs" and "count \<noteq> 0"
  shows "RangeByScore s r True offset count = reverse_window (filter (in_range r) xs) offset count"
  using assms by (auto elim!: sl_relE simp: RangeByScore_def collect_asc_chain)

lemma new_skiplist_rel: "sl_rel new_skiplist []"
proof -
  have "sl_ok new_skiplist []"
    by (auto simp: sl_ok_def shape_ok_def top_ok_def links_ok_def new_skiplist_def header_node_def
        ht_def wd_def fw_def kMaxLevel_def)
  then show ?thesis by (auto simp: sl_rel_def)
qed

end
