(* ===== verification/SkipListSpec.thy ===== *)
theory SkipListSpec
  imports SkipListQuery
begin

text \<open>
  What the rest of the program relies on: an index of \<open>(score, member)\<close> pairs ordered by
  score, then member. The locale states the contract over the abstract sorted list; the
  skip list is its implementation.
\<close>

section \<open>Operations as data\<close>

datatype index_op =
    OpInsert "nat \<Rightarrow> int" double string
  | OpErase double string
  | OpPopMin
  | OpPopMax

datatype index_answer =
    Changed bool
  | Popped "(double \<times> string) option"

primrec op_ok :: "index_op \<Rightarrow> bool" where
  "op_ok (OpInsert rnd sc m) = (\<not> d_isnan sc)"
| "op_ok (OpErase sc m) = (\<not> d_isnan sc)"
| "op_ok OpPopMin = True"
| "op_ok OpPopMax = True"

primrec spec_step :: "index_op \<Rightarrow> (double \<times> string) list \<Rightarrow> (double \<times> string) list \<times> index_answer" where
  "spec_step (OpInsert rnd sc m) xs = (zinsert (sc, m) xs, Changed (zkey (sc, m) \<notin> zkey ` set xs))"
| "spec_step (OpErase sc m) xs = (zerase (sc, m) xs, Changed (zkey (sc, m) \<in> zkey ` set xs))"
| "spec_step OpPopMin xs = (tl xs, Popped (case xs of [] \<Rightarrow> None | x # _ \<Rightarrow> Some x))"
| "spec_step OpPopMax xs = (butlast xs, Popped (if xs = [] then None else Some (last xs)))"

fun spec_run ::
  "index_op list \<Rightarrow> (double \<times> string) list \<Rightarrow> (double \<times> string) list \<times> index_answer list" where
  "spec_run [] xs = (xs, [])"
| "spec_run (op # ops) xs =
     (let (xs1, a) = spec_step op xs; (xs2, as) = spec_run ops xs1 in (xs2, a # as))"

text \<open>The same operations on the skip list.\<close>

primrec list_step :: "index_op \<Rightarrow> skiplist \<Rightarrow> (skiplist \<times> index_answer) option" where
  "list_step (OpInsert rnd sc m) s = map_option (apsnd Changed) (Insert s rnd sc m)"
| "list_step (OpErase sc m) s = map_option (apsnd Changed) (Erase s sc m)"
| "list_step OpPopMin s = map_option (apsnd Popped) (PopMin s)"
| "list_step OpPopMax s = map_option (apsnd Popped) (PopMax s)"

fun run_with ::
  "(index_op \<Rightarrow> 's \<Rightarrow> ('s \<times> index_answer) option) \<Rightarrow> index_op list \<Rightarrow> 's \<Rightarrow>
   ('s \<times> index_answer list) option" where
  "run_with step [] s = Some (s, [])"
| "run_with step (op # ops) s = do {
     (s1, a) \<leftarrow> step op s;
     (s2, as) \<leftarrow> run_with step ops s1;
     Some (s2, a # as) }"

section \<open>The contract\<close>

locale ordered_index =
  fixes rel :: "'s \<Rightarrow> (double \<times> string) list \<Rightarrow> bool"
    and empty :: 's
    and step :: "index_op \<Rightarrow> 's \<Rightarrow> ('s \<times> index_answer) option"
  assumes rel_empty: "rel empty []"
    and rel_sorted: "rel s xs \<Longrightarrow> zsorted xs"
    and rel_step: "rel s xs \<Longrightarrow> op_ok op \<Longrightarrow>
      \<exists>s'. step op s = Some (s', snd (spec_step op xs)) \<and> rel s' (fst (spec_step op xs))"
begin

lemma run_refines:
  assumes "rel s xs" and "list_all op_ok ops"
  shows "\<exists>s'. run_with step ops s = Some (s', snd (spec_run ops xs)) \<and> rel s' (fst (spec_run ops xs))"
  using assms
proof (induction ops arbitrary: s xs)
  case Nil
  then show ?case by simp
next
  case (Cons op ops)
  obtain s1 where s1: "step op s = Some (s1, snd (spec_step op xs))" "rel s1 (fst (spec_step op xs))"
    using rel_step [OF Cons.prems(1)] Cons.prems(2) by auto
  with Cons.IH [OF s1(2)] Cons.prems(2) show ?case by (auto split: prod.splits)
qed

lemma run_from_empty:
  assumes "list_all op_ok ops"
  shows "\<exists>s'. run_with step ops empty = Some (s', snd (spec_run ops [])) \<and>
     rel s' (fst (spec_run ops [])) \<and> zsorted (fst (spec_run ops []))"
  using run_refines [OF rel_empty assms] rel_sorted by blast

text \<open>A member that is moved to a new score: erase the old pair, insert the new one.\<close>

lemma move_member:
  assumes "rel s xs" and "\<not> d_isnan old" and "\<not> d_isnan new"
  shows "\<exists>s1 s2 b c. step (OpErase old m) s = Some (s1, Changed b) \<and>
     step (OpInsert rnd new m) s1 = Some (s2, Changed c) \<and>
     rel s2 (zinsert (new, m) (zerase (old, m) xs))"
proof -
  obtain s1 b where "step (OpErase old m) s = Some (s1, Changed b)" "rel s1 (zerase (old, m) xs)"
    using rel_step [OF assms(1), of "OpErase old m"] assms(2) by auto
  moreover from rel_step [OF this(2), of "OpInsert rnd new m"] obtain s2 c where
    "step (OpInsert rnd new m) s1 = Some (s2, Changed c)"
    "rel s2 (zinsert (new, m) (zerase (old, m) xs))"
    using assms(3) by auto
  ultimately show ?thesis by blast
qed

end

lemma sl_rel_sorted: "sl_rel s xs \<Longrightarrow> zsorted xs"
  by (auto elim: sl_relE)

lemma list_step_correct:
  assumes "sl_rel s xs" and "op_ok op"
  shows "\<exists>s'. list_step op s = Some (s', snd (spec_step op xs)) \<and> sl_rel s' (fst (spec_step op xs))"
proof (cases op)
  case (OpInsert rnd sc m)
  then have "\<not> d_isnan sc" using assms(2) by simp
  with assms(1) obtain s' where "Insert s rnd sc m = Some (s', zkey (sc, m) \<notin> zkey ` set xs)"
    "sl_rel s' (zinsert (sc, m) xs)" by (rule Insert_correct)
  with OpInsert show ?thesis by auto
next
  case (OpErase sc m)
  then have "\<not> d_isnan sc" using assms(2) by simp
  with assms(1) obtain s' where "Erase s sc m = Some (s', zkey (sc, m) \<in> zkey ` set xs)"
    "sl_rel s' (zerase (sc, m) xs)" by (rule Erase_correct)
  with OpErase show ?thesis by auto
next
  case OpPopMin
  moreover obtain s' where "PopMin s = Some (s', case xs of [] \<Rightarrow> None | x # _ \<Rightarrow> Some x)"
    "sl_rel s' (tl xs)" using assms(1) by (rule PopMin_correct)
  ultimately show ?thesis by auto
next
  case OpPopMax
  moreover obtain s' where "PopMax s = Some (s', if xs = [] then None else Some (last xs))"
    "sl_rel s' (butlast xs)" using assms(1) by (rule PopMax_correct)
  ultimately show ?thesis by auto
qed

interpretation sl: ordered_index sl_rel new_skiplist list_step
  by unfold_locales (simp_all add: new_skiplist_rel sl_rel_sorted list_step_correct)

section \<open>Properties\<close>

text \<open>A list of two pairs, for the instances below: 0 and 1 as scores.\<close>

abbreviation two_pairs :: "(double \<times> string) list" where
  "two_pairs \<equiv> [(0, ''a''), (0x3FF0000000000000, ''b'')]"

lemma two_pairs_rel: "\<exists>s. sl_rel s two_pairs"
proof -
  let ?ops = "[OpInsert (\<lambda>_. 0) 0x3FF0000000000000 ''b'', OpInsert (\<lambda>_. 2147483647) 0 ''a'']"
  have "fst (spec_run ?ops []) = two_pairs" by code_simp
  moreover have "list_all op_ok ?ops" by code_simp
  ultimately show ?thesis using sl.run_from_empty [of ?ops] by metis
qed

text \<open>
  C1: the skip list refines a sorted list of pairs. Any sequence of inserts, erases and pops
  with numeric scores, on the empty skip list and with any random levels, is defined and
  terminates, gives the answers of the sorted list, and leaves a skip list that satisfies the
  invariant (every level linked in key order with right spans, right level and length) for
  that sorted list.
\<close>

theorem skiplist_refines_sorted_list:
  assumes "list_all op_ok ops"
  shows "\<exists>s. run_with list_step ops new_skiplist = Some (s, snd (spec_run ops [])) \<and>
     sl_rel s (fst (spec_run ops [])) \<and> zsorted (fst (spec_run ops []))"
  using assms by (rule sl.run_from_empty)

theorem skiplist_refines_sorted_list_witness:
  "\<exists>s. run_with list_step
      [OpInsert (\<lambda>_. 0) 0x3FF0000000000000 ''b'', OpInsert (\<lambda>_. 2147483647) 0 ''a'',
       OpInsert (\<lambda>_. 0) 0x3FF0000000000000 ''b'', OpErase 0 ''c'', OpPopMax] new_skiplist =
     Some (s, [Changed True, Changed True, Changed False, Changed False,
       Popped (Some (0x3FF0000000000000, ''b''))]) \<and> sl_rel s [(0, ''a'')]"
proof -
  let ?ops = "[OpInsert (\<lambda>_. 0) 0x3FF0000000000000 ''b'', OpInsert (\<lambda>_. 2147483647) 0 ''a'',
        OpInsert (\<lambda>_. 0) 0x3FF0000000000000 ''b'', OpErase 0 ''c'', OpPopMax]"
  have "spec_run ?ops [] = ([(0, ''a'')], [Changed True, Changed True, Changed False, Changed False,
       Popped (Some (0x3FF0000000000000, ''b''))])" by code_simp
  moreover have "list_all op_ok ?ops" by code_simp
  ultimately show ?thesis using skiplist_refines_sorted_list [of ?ops] by (metis fst_conv snd_conv)
qed

text \<open>
  C3: \<open>Rank\<close> is the number of pairs before the key, and the not-found value for a key that is
  not in the list; \<open>RevRank\<close> counts from the other end.
\<close>

theorem skiplist_ranks:
  assumes "sl_rel s xs" and "\<not> d_isnan sc" and "length xs < 2 ^ 64 - 1"
  shows "Rank s sc m = Some (if zkey (sc, m) \<in> zkey ` set xs
       then of_nat (length (filter (\<lambda>q. zkey q < zkey (sc, m)) xs)) else SIZE_MAX) \<and>
     RevRank s sc m = Some (if zkey (sc, m) \<in> zkey ` set xs
       then of_nat (length xs - 1 - length (filter (\<lambda>q. zkey q < zkey (sc, m)) xs)) else SIZE_MAX)"
  using Rank_correct [OF assms(1,2)] RevRank_correct [OF assms] by (simp add: zrank_def)

theorem skiplist_ranks_witness:
  "\<exists>s. sl_rel s two_pairs \<and> Rank s 0x3FF0000000000000 ''b'' = Some 1 \<and>
     RevRank s 0x3FF0000000000000 ''b'' = Some 0 \<and> Rank s 0 ''b'' = Some SIZE_MAX"
proof -
  obtain s where s: "sl_rel s two_pairs" using two_pairs_rel by blast
  have n: "\<not> d_isnan 0x3FF0000000000000" "\<not> d_isnan 0" by code_simp+
  have f: "filter (\<lambda>q. zkey q < zkey (0x3FF0000000000000, ''b'')) two_pairs = [(0, ''a'')]"
    "zkey (0x3FF0000000000000, ''b'') \<in> zkey ` set two_pairs"
    "zkey (0, ''b'') \<notin> zkey ` set two_pairs" by code_simp+
  have l: "length two_pairs < 2 ^ 64 - 1" by simp
  from skiplist_ranks [OF s n(1) l, of "''b''"] skiplist_ranks [OF s n(2) l, of "''b''"] s show ?thesis
    by (simp only: f if_True if_False) auto
qed

text \<open>
  C4: \<open>RangeByRank\<close> answers a range of ranks with the slice of the sorted list (of its reversal
  for the reverse query) between the two indices, negative indices counting from the end and
  indices out of range clamped.
\<close>

theorem skiplist_range_by_rank:
  assumes "sl_rel s xs"
  shows "RangeByRank s start stop rv = Some (zslice (if rv then rev xs else xs) start stop)"
  using assms by (rule RangeByRank_correct)

theorem skiplist_range_by_rank_witness:
  "\<exists>s. sl_rel s two_pairs \<and> RangeByRank s (-2) 100 True = Some (rev two_pairs)"
proof -
  obtain s where s: "sl_rel s two_pairs" using two_pairs_rel by blast
  have "zslice (if True then rev two_pairs else two_pairs) (-2) 100 = rev two_pairs" by code_simp
  with skiplist_range_by_rank [OF s, of "-2" 100 True] s show ?thesis by metis
qed

text \<open>
  C5: \<open>RangeByScore\<close> answers with the pairs whose score lies in the range, in order or in
  reverse order, after the LIMIT clause: \<open>offset\<close> pairs dropped and at most \<open>count\<close> kept, all
  when \<open>count\<close> is negative. The reverse query needs an offset that is not negative.
  \<open>CountInRange\<close> is the number of those pairs.
\<close>

theorem skiplist_range_by_score:
  assumes "sl_rel s xs" and "count \<noteq> 0" and "rv \<longrightarrow> 0 \<le> offset \<and> in_ll (int (length xs)) \<and> in_ll offset"
  shows "RangeByScore s r rv offset count =
     Some (limit_by offset count ((if rv then rev else id) (filter (in_range r) xs))) \<and>
    CountInRange s r = Some (length (filter (in_range r) xs))"
proof (cases rv)
  case False
  with RangeByScore_forward [OF assms(1,2)] CountInRange_correct [OF assms(1)] show ?thesis by simp
next
  case True
  have "length (filter (in_range r) xs) \<le> length xs" by simp
  then have "in_ll (int (length (filter (in_range r) xs)) - offset)"
    using assms(3) True by (auto simp: in_ll_def LLONG_MAX_def LLONG_MIN_def simp del: length_filter_le)
  with True assms(3) reverse_window_eq [OF _ assms(2)] show ?thesis
    by (simp add: RangeByScore_reverse [OF assms(1,2)] CountInRange_correct [OF assms(1)])
qed

theorem skiplist_range_by_score_witness:
  "\<exists>s. sl_rel s two_pairs \<and>
     RangeByScore s \<lparr>range_min = 0, range_max = 0x3FF0000000000000, min_exclusive = False,
       max_exclusive = False\<rparr> True 0 1 = Some [(0x3FF0000000000000, ''b'')] \<and>
     CountInRange s \<lparr>range_min = 0, range_max = 0x3FF0000000000000, min_exclusive = True,
       max_exclusive = False\<rparr> = Some 1"
proof -
  obtain s where s: "sl_rel s two_pairs" using two_pairs_rel by blast
  let ?r = "\<lparr>range_min = 0, range_max = 0x3FF0000000000000, min_exclusive = False, max_exclusive = False\<rparr>"
  let ?x = "\<lparr>range_min = 0, range_max = 0x3FF0000000000000, min_exclusive = True, max_exclusive = False\<rparr>"
  have c: "(1 :: int) \<noteq> 0" "True \<longrightarrow> (0 :: int) \<le> 0 \<and> in_ll (int (length two_pairs)) \<and> in_ll 0"
    by (simp_all add: in_ll_def LLONG_MAX_def LLONG_MIN_def)
  have "limit_by 0 1 ((if True then rev else id) (filter (in_range ?r) two_pairs)) =
      [(0x3FF0000000000000, ''b'')]" "length (filter (in_range ?x) two_pairs) = 1" by code_simp+
  with skiplist_range_by_score [OF s c, of ?r] skiplist_range_by_score [OF s c, of ?x] s
  show ?thesis by metis
qed

text \<open>
  C6: with a negative offset the reverse query is undefined, whatever the list holds: the
  first iterator lies before the beginning of the vector, or its position overflows.
\<close>

theorem skiplist_reverse_negative_offset_undefined:
  assumes "sl_rel s xs" and "count \<noteq> 0" and "offset < 0"
  shows "RangeByScore s r True offset count = None"
  by (simp add: RangeByScore_reverse [OF assms(1,2)] reverse_window_negative [OF assms(3)])

theorem skiplist_reverse_negative_offset_undefined_witness:
  "\<exists>s. sl_rel s two_pairs \<and> RangeByScore s \<lparr>range_min = 0, range_max = 0x3FF0000000000000,
     min_exclusive = False, max_exclusive = False\<rparr> True (-1) (-1) = None"
proof -
  obtain s where s: "sl_rel s two_pairs" using two_pairs_rel by blast
  with skiplist_reverse_negative_offset_undefined [OF s, of "-1" "-1"] show ?thesis by auto
qed

end
