(* ===== verification/Database.thy ===== *)
theory Database
  imports SkipListSpec
begin

text \<open>
  The key spaces: \<open>include/value.h\<close>, \<open>include/db.h\<close> and \<open>src/db.cpp\<close>. An unordered map is the
  association list of its entries in iteration order, with distinct keys; a new entry comes
  last, one of the places the standard allows. An unordered set is a distinct list in the
  same way. The clock reading of an operation is its argument \<open>now\<close>, in milliseconds.
\<close>

section \<open>Values and tables\<close>

datatype Value =
    RawString string
  | HashValue "(string \<times> string) list"
  | ListValue "string list"
  | SetValue "string list"
  | ZSetValue skiplist "(string \<times> double) list"

datatype ValueType = kString | kHash | kList | kSet | kZSet

primrec TypeOf :: "Value \<Rightarrow> ValueType" where
  "TypeOf (RawString s) = kString"
| "TypeOf (HashValue h) = kHash"
| "TypeOf (ListValue l) = kList"
| "TypeOf (SetValue s) = kSet"
| "TypeOf (ZSetValue sl dict) = kZSet"

primrec ValueTypeName :: "ValueType \<Rightarrow> string" where
  "ValueTypeName kString = ''string''"
| "ValueTypeName kHash = ''hash''"
| "ValueTypeName kList = ''list''"
| "ValueTypeName kSet = ''set''"
| "ValueTypeName kZSet = ''zset''"

record Entry =
  ent_value :: Value
  expires_at_ms :: int

type_synonym Table = "(string \<times> Entry) list"

record Database =
  dbs :: "Table list"
  used :: nat
  max_memory :: nat
  total_expired :: nat

definition kNumDatabases :: nat where "kNumDatabases = 16"

definition new_database :: Database where
  "new_database = \<lparr>dbs = replicate kNumDatabases [], used = 0, max_memory = 0, total_expired = 0\<rparr>"

definition table :: "nat \<Rightarrow> Database \<Rightarrow> Table" where
  "table idx d = dbs d ! idx"

definition set_table :: "nat \<Rightarrow> Table \<Rightarrow> Database \<Rightarrow> Database" where
  "set_table idx t d = d\<lparr>dbs := (dbs d)[idx := t]\<rparr>"

text \<open>
  A sorted set is consistent when its dictionary and its skip list hold the same pairs. A
  value is well-formed when its keys and members are distinct and its sorted sets consistent.
\<close>

definition zset_ok :: "skiplist \<Rightarrow> (string \<times> double) list \<Rightarrow> bool" where
  "zset_ok sl dict \<longleftrightarrow> distinct (map fst dict) \<and>
     (\<exists>xs. sl_rel sl xs \<and> set xs = (\<lambda>(m, sc). (sc, m)) ` set dict)"

primrec value_ok :: "Value \<Rightarrow> bool" where
  "value_ok (RawString s) = True"
| "value_ok (HashValue h) = distinct (map fst h)"
| "value_ok (ListValue l) = True"
| "value_ok (SetValue s) = distinct s"
| "value_ok (ZSetValue sl dict) = zset_ok sl dict"

section \<open>Memory accounting\<close>

primrec ValueSize :: "Value \<Rightarrow> nat" where
  "ValueSize (RawString s) = 16 + length s"
| "ValueSize (HashValue h) = foldl (\<lambda>n kv. n + (16 + length (fst kv) + length (snd kv))) 32 h"
| "ValueSize (ListValue l) = foldl (\<lambda>n s. n + (8 + length s)) 16 l"
| "ValueSize (SetValue s) = foldl (\<lambda>n e. n + (16 + length e)) 16 s"
| "ValueSize (ZSetValue sl dict) = foldl (\<lambda>n kv. n + (16 + length (fst kv))) 32 dict"

definition EntrySize :: "string \<Rightarrow> Entry \<Rightarrow> nat" where
  "EntrySize key e = 48 + length key + ValueSize (ent_value e)"

definition MemAdd :: "nat \<Rightarrow> Database \<Rightarrow> Database" where
  "MemAdd n d = d\<lparr>used := used d + n\<rparr>"

definition MemSub :: "nat \<Rightarrow> Database \<Rightarrow> Database" where
  "MemSub n d = (if used d \<ge> n then d\<lparr>used := used d - n\<rparr> else d\<lparr>used := 0\<rparr>)"

section \<open>Operations\<close>

definition stale :: "int \<Rightarrow> Entry \<Rightarrow> bool" where
  "stale now e \<longleftrightarrow> expires_at_ms e \<noteq> 0 \<and> now \<ge> expires_at_ms e"

definition Lookup :: "int \<Rightarrow> nat \<Rightarrow> string \<Rightarrow> Database \<Rightarrow> Database \<times> Entry option" where
  "Lookup now idx key d =
     (case map_of (table idx d) key of
        None \<Rightarrow> (d, None)
      | Some e \<Rightarrow>
          if stale now e
          then (let d1 = MemSub (EntrySize key e) d;
                    d2 = set_table idx (AList.delete key (table idx d1)) d1
                in (d2\<lparr>total_expired := total_expired d2 + 1\<rparr>, None))
          else (d, Some e))"

definition Set :: "nat \<Rightarrow> string \<Rightarrow> Value \<Rightarrow> int \<Rightarrow> Database \<Rightarrow> Database" where
  "Set idx key value expires d =
     (let e' = \<lparr>ent_value = value, expires_at_ms = expires\<rparr>
      in case map_of (table idx d) key of
           None \<Rightarrow> MemAdd (EntrySize key e') (set_table idx (AList.update key e' (table idx d)) d)
         | Some e \<Rightarrow>
             let d1 = MemSub (EntrySize key e) d;
                 d2 = set_table idx (AList.update key e' (table idx d1)) d1
             in MemAdd (EntrySize key e') d2)"

definition Delete :: "nat \<Rightarrow> string \<Rightarrow> Database \<Rightarrow> Database \<times> bool" where
  "Delete idx key d =
     (case map_of (table idx d) key of
        None \<Rightarrow> (d, False)
      | Some e \<Rightarrow>
          let d1 = MemSub (EntrySize key e) d
          in (set_table idx (AList.delete key (table idx d1)) d1, True))"

definition Size :: "nat \<Rightarrow> Database \<Rightarrow> int" where
  "Size idx d = int (length (table idx d))"

definition TotalKeys :: "Database \<Rightarrow> int" where
  "TotalKeys d = foldl (\<lambda>n i. n + int (length (table i d))) 0 [0..<kNumDatabases]"

definition TotalExpires :: "Database \<Rightarrow> int" where
  "TotalExpires d =
     foldl (\<lambda>n i. foldl (\<lambda>n kv. if expires_at_ms (snd kv) \<noteq> 0 then n + 1 else n) n (table i d))
       0 [0..<kNumDatabases]"

definition FlushDb :: "nat \<Rightarrow> Database \<Rightarrow> Database" where
  "FlushDb idx d =
     set_table idx [] (foldl (\<lambda>d kv. MemSub (EntrySize (fst kv) (snd kv)) d) d (table idx d))"

definition FlushAll :: "Database \<Rightarrow> Database" where
  "FlushAll d = foldl (\<lambda>d i. FlushDb i d) d [0..<kNumDatabases]"

text \<open>
  One window of \<open>ActiveExpireCycle\<close>: the loop over the table from an iterator on, at most
  \<open>n\<close> turns. It returns the entries it keeps and passes the database through the accounting.
\<close>

definition kSampleWindow :: nat where "kSampleWindow = 200"

fun ExpireWindow :: "int \<Rightarrow> nat \<Rightarrow> Table \<Rightarrow> Database \<Rightarrow> nat \<Rightarrow> Table \<times> Database \<times> nat" where
  "ExpireWindow now n [] d deleted = ([], d, deleted)"
| "ExpireWindow now 0 t d deleted = (t, d, deleted)"
| "ExpireWindow now (Suc n) ((k, e) # t) d deleted =
     (if stale now e
      then (let d1 = MemSub (EntrySize k e) d
            in ExpireWindow now n t (d1\<lparr>total_expired := total_expired d1 + 1\<rparr>) (deleted + 1))
      else let (t', d', deleted') = ExpireWindow now n t d deleted
           in ((k, e) # t', d', deleted'))"

text \<open>\<open>rng d\<close> is the draw of the generator for database \<open>d\<close>.\<close>

definition ExpireDb :: "int \<Rightarrow> (nat \<Rightarrow> nat) \<Rightarrow> Database \<times> nat \<Rightarrow> nat \<Rightarrow> Database \<times> nat" where
  "ExpireDb now rng = (\<lambda>(d, deleted) idx.
     let t = table idx d
     in if t = [] then (d, deleted)
        else let size = length t;
                 offset = rng idx mod (if size < kSampleWindow then size else kSampleWindow);
                 (t', d', deleted') = ExpireWindow now kSampleWindow (drop offset t) d deleted
             in (set_table idx (take offset t @ t') d', deleted'))"

definition ActiveExpireCycle :: "int \<Rightarrow> (nat \<Rightarrow> nat) \<Rightarrow> Database \<Rightarrow> Database \<times> nat" where
  "ActiveExpireCycle now rng d = foldl (ExpireDb now rng) (d, 0) [0..<kNumDatabases]"

section \<open>The live view\<close>

text \<open>What a client can observe of a database at a given time.\<close>

definition live :: "int \<Rightarrow> Database \<Rightarrow> nat \<Rightarrow> string \<Rightarrow> Entry option" where
  "live now d idx key =
     (if idx < length (dbs d) then
        (case map_of (table idx d) key of
           None \<Rightarrow> None
         | Some e \<Rightarrow> if stale now e then None else Some e)
      else None)"

definition table_ok :: "Table \<Rightarrow> bool" where
  "table_ok t \<longleftrightarrow> distinct (map fst t)"

definition db_shape :: "Database \<Rightarrow> bool" where
  "db_shape d \<longleftrightarrow> length (dbs d) = kNumDatabases \<and> list_all table_ok (dbs d)"

text \<open>The account is exact when it is the sum of the sizes of all entries.\<close>

definition table_size :: "Table \<Rightarrow> nat" where
  "table_size t = sum_list (map (\<lambda>kv. EntrySize (fst kv) (snd kv)) t)"

definition mem_exact :: "Database \<Rightarrow> bool" where
  "mem_exact d \<longleftrightarrow> used d = sum_list (map table_size (dbs d))"

lemma dbs_Mem [simp]:
  "dbs (MemSub n d) = dbs d" "dbs (MemAdd n d) = dbs d"
  "table i (MemSub n d) = table i d" "table i (MemAdd n d) = table i d"
  "total_expired (MemSub n d) = total_expired d" "total_expired (MemAdd n d) = total_expired d"
  by (simp_all add: MemSub_def MemAdd_def table_def)

lemma used_Mem [simp]: "used (MemSub n d) = used d - n" "used (MemAdd n d) = used d + n"
  by (simp_all add: MemSub_def MemAdd_def)

lemma used_set_table [simp]: "used (set_table i t d) = used d"
  by (simp add: set_table_def)

lemma dbs_set_table [simp]: "dbs (set_table i t d) = (dbs d)[i := t]"
  by (simp add: set_table_def)

lemma table_set_table:
  "i < length (dbs d) \<Longrightarrow> table j (set_table i t d) = (if i = j then t else table j d)"
  by (simp add: table_def)

lemma live_cong: "dbs d' = dbs d \<Longrightarrow> live n d' = live n d"
  by (simp add: live_def table_def fun_eq_iff)

text \<open>The effect of replacing one table.\<close>

lemma live_set_table:
  assumes "i < length (dbs d)" and "dbs d' = (dbs d)[i := t]"
  shows "live n d' = (live n d)(i := (\<lambda>k. case map_of t k of None \<Rightarrow> None
     | Some e \<Rightarrow> if stale n e then None else Some e))"
  using assms by (auto simp: live_def table_def fun_eq_iff)

lemma db_shape_set_table:
  assumes "db_shape d" and "dbs d' = (dbs d)[i := t]" and "table_ok t"
  shows "db_shape d'"
  using assms set_update_subset_insert [of "dbs d" i t] by (auto simp: db_shape_def list_all_iff)

lemma table_ok_table: "db_shape d \<Longrightarrow> i < kNumDatabases \<Longrightarrow> table_ok (table i d)"
  by (simp add: db_shape_def list_all_length table_def)

lemma table_ok_update: "table_ok t \<Longrightarrow> table_ok (AList.update k e t)"
  by (simp add: table_ok_def AList.distinct_update)

lemma table_ok_delete: "table_ok t \<Longrightarrow> table_ok (AList.delete k t)"
  by (simp add: table_ok_def AList.distinct_delete)

lemma stale_mono: "stale n e \<Longrightarrow> n \<le> n' \<Longrightarrow> stale n' e"
  by (auto simp: stale_def)

subsection \<open>Every operation on the live view\<close>

lemma Lookup_live:
  assumes "db_shape d" and "i < kNumDatabases"
  shows "snd (Lookup now i k d) = live now d i k"
    and "now \<le> n \<Longrightarrow> live n (fst (Lookup now i k d)) = live n d"
    and "db_shape (fst (Lookup now i k d))"
proof -
  have i: "i < length (dbs d)" using assms by (simp add: db_shape_def)
  show "snd (Lookup now i k d) = live now d i k"
    using i by (auto simp: Lookup_def live_def Let_def split: option.splits)
  show "db_shape (fst (Lookup now i k d))"
    using assms table_ok_delete [OF table_ok_table [OF assms], of k]
    by (auto simp: Lookup_def Let_def intro: db_shape_set_table split: option.splits)
  assume n: "now \<le> n"
  show "live n (fst (Lookup now i k d)) = live n d"
  proof (cases "\<exists>e. map_of (table i d) k = Some e \<and> stale now e")
    case True
    then obtain e where e: "map_of (table i d) k = Some e" "stale now e" by blast
    have "dbs (fst (Lookup now i k d)) = (dbs d)[i := AList.delete k (table i d)]"
      using e by (simp add: Lookup_def Let_def)
    then have "live n (fst (Lookup now i k d)) = (live n d)(i := (\<lambda>k'. case ((map_of (table i d))(k := None)) k' of
        None \<Rightarrow> None | Some e \<Rightarrow> if stale n e then None else Some e))"
      by (subst live_set_table [OF i]) (auto simp: delete_conv' fun_eq_iff)
    also have "\<dots> = live n d"
      using e i stale_mono [OF e(2) n] by (auto simp: live_def fun_eq_iff)
    finally show ?thesis .
  next
    case False
    then have "fst (Lookup now i k d) = d" by (auto simp: Lookup_def split: option.splits)
    then show ?thesis by simp
  qed
qed

lemma Set_dbs: "dbs (Set i k v x d) = (dbs d)[i := AList.update k \<lparr>ent_value = v, expires_at_ms = x\<rparr> (table i d)]"
  by (simp add: Set_def Let_def split: option.splits)

lemma Set_live:
  assumes "db_shape d" and "i < kNumDatabases"
  shows "live n (Set i k v x d) = (live n d)(i := (live n d i)(k :=
      if x \<noteq> 0 \<and> n \<ge> x then None else Some \<lparr>ent_value = v, expires_at_ms = x\<rparr>))"
    and "db_shape (Set i k v x d)"
proof -
  have i: "i < length (dbs d)" using assms by (simp add: db_shape_def)
  show "live n (Set i k v x d) = (live n d)(i := (live n d i)(k :=
      if x \<noteq> 0 \<and> n \<ge> x then None else Some \<lparr>ent_value = v, expires_at_ms = x\<rparr>))"
    using i unfolding live_set_table [OF i Set_dbs]
    by (auto simp: update_conv' live_def stale_def fun_eq_iff)
  show "db_shape (Set i k v x d)"
    by (rule db_shape_set_table [OF assms(1) Set_dbs table_ok_update [OF table_ok_table [OF assms]]])
qed

lemma Delete_dbs: "dbs (fst (Delete i k d)) = (dbs d)[i := AList.delete k (table i d)]"
proof (cases "map_of (table i d) k")
  case None
  then have "AList.delete k (table i d) = table i d" by (simp add: delete_id map_of_eq_None_iff)
  with None show ?thesis by (simp add: Delete_def table_def)
qed (simp add: Delete_def Let_def)

lemma Delete_live:
  assumes "db_shape d" and "i < kNumDatabases"
  shows "live n (fst (Delete i k d)) = (live n d)(i := (live n d i)(k := None))"
    and "snd (Delete i k d) \<longleftrightarrow> map_of (table i d) k \<noteq> None"
    and "db_shape (fst (Delete i k d))"
proof -
  have i: "i < length (dbs d)" using assms by (simp add: db_shape_def)
  show "live n (fst (Delete i k d)) = (live n d)(i := (live n d i)(k := None))"
    using i unfolding live_set_table [OF i Delete_dbs]
    by (auto simp: delete_conv' live_def fun_eq_iff)
  show "snd (Delete i k d) \<longleftrightarrow> map_of (table i d) k \<noteq> None"
    by (auto simp: Delete_def Let_def split: option.splits)
  show "db_shape (fst (Delete i k d))"
    by (rule db_shape_set_table [OF assms(1) Delete_dbs table_ok_delete [OF table_ok_table [OF assms]]])
qed

lemma FlushDb_dbs: "dbs (FlushDb i d) = (dbs d)[i := []]"
proof -
  have "dbs (foldl (\<lambda>d kv. MemSub (EntrySize (fst kv) (snd kv)) d) d t) = dbs d" for t
    by (induction t arbitrary: d) simp_all
  then show ?thesis by (simp add: FlushDb_def)
qed

lemma FlushDb_live:
  assumes "db_shape d" and "i < kNumDatabases"
  shows "live n (FlushDb i d) = (live n d)(i := (\<lambda>k. None))" and "db_shape (FlushDb i d)"
proof -
  have i: "i < length (dbs d)" using assms by (simp add: db_shape_def)
  show "live n (FlushDb i d) = (live n d)(i := (\<lambda>k. None))"
    unfolding live_set_table [OF i FlushDb_dbs] by simp
  show "db_shape (FlushDb i d)"
    by (rule db_shape_set_table [OF assms(1) FlushDb_dbs]) (simp add: table_ok_def)
qed

lemma FlushAll_dbs:
  assumes "db_shape d"
  shows "dbs (FlushAll d) = replicate kNumDatabases []"
proof -
  have "length (dbs (foldl (\<lambda>d i. FlushDb i d) d [0..<n])) = length (dbs d) \<and>
    (\<forall>j<n. j < length (dbs d) \<longrightarrow> dbs (foldl (\<lambda>d i. FlushDb i d) d [0..<n]) ! j = [])" for n
    by (induction n) (auto simp: FlushDb_dbs nth_list_update less_Suc_eq)
  from this [of kNumDatabases] assms show ?thesis
    by (intro nth_equalityI) (simp_all add: FlushAll_def db_shape_def)
qed

subsection \<open>The expire cycle\<close>

abbreviation stale_of :: "int \<Rightarrow> Table \<Rightarrow> Table" where
  "stale_of now t \<equiv> filter (\<lambda>kv. stale now (snd kv)) t"

abbreviation fresh_of :: "int \<Rightarrow> Table \<Rightarrow> Table" where
  "fresh_of now t \<equiv> filter (\<lambda>kv. \<not> stale now (snd kv)) t"

lemma MemSub_eq: "MemSub n d = d\<lparr>used := used d - n\<rparr>"
  by (simp add: MemSub_def)

lemma ExpireWindow_eq:
  "ExpireWindow now n t d deleted =
     (fresh_of now (take n t) @ drop n t,
      d\<lparr>used := used d - table_size (stale_of now (take n t)),
        total_expired := total_expired d + length (stale_of now (take n t))\<rparr>,
      deleted + length (stale_of now (take n t)))"
  by (induction now n t d deleted rule: ExpireWindow.induct)
    (simp_all add: Let_def table_size_def MemSub_eq)

lemma table_size_simps [simp]:
  "table_size [] = 0" "table_size (kv # t) = EntrySize (fst kv) (snd kv) + table_size t"
  "table_size (t @ t') = table_size t + table_size t'"
  by (simp_all add: table_size_def)

lemma table_size_split: "table_size (stale_of now t) + table_size (fresh_of now t) = table_size t"
  by (induction t) simp_all

text \<open>What the cycle leaves of one table: the entries it sampled and found stale are gone.\<close>

definition window :: "(nat \<Rightarrow> nat) \<Rightarrow> nat \<Rightarrow> Table \<Rightarrow> nat" where
  "window rng idx t = rng idx mod (if length t < kSampleWindow then length t else kSampleWindow)"

definition sampled :: "(nat \<Rightarrow> nat) \<Rightarrow> nat \<Rightarrow> Table \<Rightarrow> Table" where
  "sampled rng idx t = take kSampleWindow (drop (window rng idx t) t)"

definition swept :: "int \<Rightarrow> (nat \<Rightarrow> nat) \<Rightarrow> nat \<Rightarrow> Table \<Rightarrow> Table" where
  "swept now rng idx t = take (window rng idx t) t @ fresh_of now (sampled rng idx t) @
     drop kSampleWindow (drop (window rng idx t) t)"

lemma ExpireDb_eq:
  "ExpireDb now rng (d, deleted) i =
     (d\<lparr>dbs := (dbs d)[i := swept now rng i (table i d)],
        used := used d - table_size (stale_of now (sampled rng i (table i d))),
        total_expired := total_expired d + length (stale_of now (sampled rng i (table i d)))\<rparr>,
      deleted + length (stale_of now (sampled rng i (table i d))))"
proof (cases "table i d = []")
  case True
  then have "(dbs d)[i := []] = dbs d" by (metis list_update_id table_def)
  with True show ?thesis by (simp add: ExpireDb_def swept_def sampled_def)
next
  case False
  then show ?thesis
    by (simp add: ExpireDb_def ExpireWindow_eq window_def [symmetric] sampled_def swept_def set_table_def Let_def)
qed

lemma swept_split: "t = take (window rng i t) t @ sampled rng i t @ drop kSampleWindow (drop (window rng i t) t)"
  by (simp add: sampled_def del: drop_drop)

lemma swept_subset: "set (swept now rng i t) \<subseteq> set t"
  unfolding swept_def sampled_def by (auto dest: in_set_takeD in_set_dropD)

lemma swept_size:
  "table_size (swept now rng i t) + table_size (stale_of now (sampled rng i t)) = table_size t"
  using table_size_split [of now "sampled rng i t"] arg_cong [OF swept_split [of t rng i], of table_size]
  by (simp add: swept_def)

lemma swept_length:
  "length (swept now rng i t) + length (stale_of now (sampled rng i t)) = length t"
  using sum_length_filter_compl [of "\<lambda>kv. stale now (snd kv)" "sampled rng i t"]
    arg_cong [OF swept_split [of t rng i], of length]
  by (simp add: swept_def)

lemma swept_or_stale:
  assumes "kv \<in> set t"
  shows "kv \<in> set (swept now rng i t) \<or> stale now (snd kv)"
proof -
  have "kv \<in> set (take (window rng i t) t @ sampled rng i t @ drop kSampleWindow (drop (window rng i t) t))"
    using assms swept_split [of t rng i] by metis
  then show ?thesis by (auto simp: swept_def simp del: drop_drop)
qed

lemma table_ok_swept:
  assumes "table_ok t"
  shows "table_ok (swept now rng i t)"
proof -
  have "table_ok (A @ filter P B @ C)" if "table_ok (A @ B @ C)" for A B C :: Table and P
    using that by (auto simp: table_ok_def distinct_map_filter)
  with assms swept_split [of t rng i] show ?thesis unfolding swept_def by metis
qed

lemma live_swept:
  assumes "table_ok t" and "now \<le> n"
  shows "(case map_of (swept now rng i t) k of None \<Rightarrow> None | Some e \<Rightarrow> if stale n e then None else Some e) =
    (case map_of t k of None \<Rightarrow> None | Some e \<Rightarrow> if stale n e then None else Some e)"
proof (cases "map_of t k")
  case None
  then have "map_of (swept now rng i t) k = None"
    using swept_subset [of now rng i t] by (auto simp: map_of_eq_None_iff)
  with None show ?thesis by simp
next
  case (Some e)
  have d: "distinct (map fst t)" "distinct (map fst (swept now rng i t))"
    using assms(1) table_ok_swept [OF assms(1)] by (simp_all add: table_ok_def)
  consider "(k, e) \<in> set (swept now rng i t)" | "stale now e"
    using swept_or_stale [OF map_of_SomeD [OF Some], of now rng i] by auto
  then show ?thesis
  proof cases
    case 1
    with d(2) Some show ?thesis by simp
  next
    case 2
    have "map_of (swept now rng i t) k = Some e'" if "(k, e') \<in> set (swept now rng i t)" for e'
      using d(2) that by simp
    moreover have "e' = e" if "(k, e') \<in> set (swept now rng i t)" for e'
      using that swept_subset d(1) Some by (metis map_of_eq_Some_iff option.inject subsetD)
    ultimately show ?thesis using Some 2 stale_mono [OF 2 assms(2)]
      by (cases "map_of (swept now rng i t) k") (auto dest: map_of_SomeD)
  qed
qed

lemma mem_exact_update:
  assumes "mem_exact d" and "i < length (dbs d)" and "dbs d' = (dbs d)[i := t]"
    and "used d' + table_size (table i d) = used d + table_size t"
  shows "mem_exact d'"
proof -
  let ?s = "map table_size (dbs d)"
  have "sum_list (?s[i := table_size t]) = sum_list ?s + table_size t - ?s ! i"
    using assms(2) by (intro sum_list_update) simp
  moreover have "?s ! i \<le> sum_list ?s" using assms(2) by (intro elem_le_sum_list) simp
  ultimately show ?thesis
    using assms by (simp add: mem_exact_def map_update table_def)
qed

lemma mem_exact_le: "mem_exact d \<Longrightarrow> i < length (dbs d) \<Longrightarrow> table_size (table i d) \<le> used d"
  unfolding mem_exact_def table_def using elem_le_sum_list [of i "map table_size (dbs d)"] by simp

lemma ExpireDb_step:
  assumes "db_shape d" and "i < kNumDatabases" and "ExpireDb now rng (d, a) i = (d', a')"
  shows "db_shape d'" "now \<le> n \<Longrightarrow> live n d' = live n d" "mem_exact d \<Longrightarrow> mem_exact d'"
    "a' + total_expired d = a + total_expired d'"
    "a' + length (concat (dbs d')) = a + length (concat (dbs d))"
proof -
  let ?t = "table i d"
  have i: "i < length (dbs d)" and ok: "table_ok ?t"
    using assms(1,2) table_ok_table by (auto simp: db_shape_def)
  have d': "d' = d\<lparr>dbs := (dbs d)[i := swept now rng i ?t],
        used := used d - table_size (stale_of now (sampled rng i ?t)),
        total_expired := total_expired d + length (stale_of now (sampled rng i ?t))\<rparr>"
    and a': "a' = a + length (stale_of now (sampled rng i ?t))"
    using assms(3) by (simp_all add: ExpireDb_eq)
  have dbs: "dbs d' = (dbs d)[i := swept now rng i ?t]" by (simp add: d')
  show "db_shape d'" by (rule db_shape_set_table [OF assms(1) dbs table_ok_swept [OF ok]])
  show "now \<le> n \<Longrightarrow> live n d' = live n d"
    unfolding live_set_table [OF i dbs] using live_swept [OF ok] i by (auto simp: live_def fun_eq_iff)
  show "a' + total_expired d = a + total_expired d'" by (simp add: d' a')
  show "mem_exact d'" if "mem_exact d"
    using mem_exact_le [OF that i] swept_size [of now rng i ?t]
    by (intro mem_exact_update [OF that i dbs]) (simp add: d')
  let ?s = "map length (dbs d)"
  have "sum_list (?s[i := length (swept now rng i ?t)]) = sum_list ?s + length (swept now rng i ?t) - ?s ! i"
    using i by (intro sum_list_update) simp
  moreover have "?s ! i \<le> sum_list ?s" using i by (intro elem_le_sum_list) simp
  ultimately show "a' + length (concat (dbs d')) = a + length (concat (dbs d))"
    using i swept_length [of now rng i ?t] by (simp add: d' a' length_concat map_update table_def)
qed

lemma ActiveExpireCycle_spec:
  assumes "db_shape d" and "ActiveExpireCycle now rng d = (d', deleted)"
  shows "db_shape d'" "now \<le> n \<Longrightarrow> live n d' = live n d" "mem_exact d \<Longrightarrow> mem_exact d'"
    "total_expired d' = total_expired d + deleted"
    "length (concat (dbs d')) + deleted = length (concat (dbs d))"
proof -
  have "case foldl (ExpireDb now rng) (d, 0) [0..<m] of (d', a) \<Rightarrow>
    db_shape d' \<and> (\<forall>n\<ge>now. live n d' = live n d) \<and> (mem_exact d \<longrightarrow> mem_exact d') \<and>
    total_expired d' = total_expired d + a \<and> length (concat (dbs d')) + a = length (concat (dbs d))"
    if "m \<le> kNumDatabases" for m
    using that
  proof (induction m)
    case 0
    then show ?case using assms(1) by simp
  next
    case (Suc m)
    obtain d1 a1 where 1: "foldl (ExpireDb now rng) (d, 0) [0..<m] = (d1, a1)" by fastforce
    obtain d2 a2 where 2: "ExpireDb now rng (d1, a1) m = (d2, a2)" by fastforce
    from Suc 1 have "db_shape d1" "m < kNumDatabases" by auto
    note st = ExpireDb_step [OF this 2]
    show ?case using Suc 1 2 st by auto
  qed
  from this [of kNumDatabases] assms(2) show "db_shape d'" "now \<le> n \<Longrightarrow> live n d' = live n d"
    "mem_exact d \<Longrightarrow> mem_exact d'" "total_expired d' = total_expired d + deleted"
    "length (concat (dbs d')) + deleted = length (concat (dbs d))"
    by (auto simp: ActiveExpireCycle_def)
qed



subsection \<open>Exact accounting\<close>

lemma table_size_delete:
  "table_ok t \<Longrightarrow> map_of t k = Some e \<Longrightarrow> table_size (AList.delete k t) + EntrySize k e = table_size t"
proof (induction t)
  case (Cons kv t)
  show ?case
  proof (cases "fst kv = k")
    case True
    with Cons.prems have "AList.delete k t = t" by (auto simp: table_ok_def intro: delete_id)
    with True Cons.prems show ?thesis by (cases kv) simp
  next
    case False
    with Cons show ?thesis by (cases kv) (auto simp: table_ok_def)
  qed
qed simp

lemma table_size_update:
  "map_of t k = None \<Longrightarrow> table_size (AList.update k e' t) = table_size t + EntrySize k e'"
  "table_ok t \<Longrightarrow> map_of t k = Some e \<Longrightarrow>
     table_size (AList.update k e' t) + EntrySize k e = table_size t + EntrySize k e'"
  by (induction t) (auto simp: table_ok_def split: if_splits)

lemma EntrySize_le: "table_ok t \<Longrightarrow> map_of t k = Some e \<Longrightarrow> EntrySize k e \<le> table_size t"
  using table_size_delete [of t k e] by simp

lemma mem_exact_Lookup:
  assumes "db_shape d" and "i < kNumDatabases" and "mem_exact d"
  shows "mem_exact (fst (Lookup now i k d))"
proof -
  have i: "i < length (dbs d)" and ok: "table_ok (table i d)"
    using assms(1,2) table_ok_table by (auto simp: db_shape_def)
  show ?thesis
  proof (cases "\<exists>e. map_of (table i d) k = Some e \<and> stale now e")
    case True
    then obtain e where e: "map_of (table i d) k = Some e" "stale now e" by blast
    show ?thesis
    proof (rule mem_exact_update [OF assms(3) i])
      show "dbs (fst (Lookup now i k d)) = (dbs d)[i := AList.delete k (table i d)]"
        using e by (simp add: Lookup_def Let_def)
      show "used (fst (Lookup now i k d)) + table_size (table i d) =
          used d + table_size (AList.delete k (table i d))"
        using e table_size_delete [OF ok e(1)] mem_exact_le [OF assms(3) i]
        by (simp add: Lookup_def Let_def)
    qed
  next
    case False
    then have "fst (Lookup now i k d) = d" by (auto simp: Lookup_def split: option.splits)
    with assms(3) show ?thesis by simp
  qed
qed

lemma mem_exact_Set:
  assumes "db_shape d" and "i < kNumDatabases" and "mem_exact d"
  shows "mem_exact (Set i k v x d)"
proof -
  have i: "i < length (dbs d)" and ok: "table_ok (table i d)"
    using assms(1,2) table_ok_table by (auto simp: db_shape_def)
  let ?e = "\<lparr>ent_value = v, expires_at_ms = x\<rparr>"
  have "used (Set i k v x d) + table_size (table i d) = used d + table_size (AList.update k ?e (table i d))"
  proof (cases "map_of (table i d) k")
    case None
    then show ?thesis using table_size_update(1) [OF None, of ?e] by (simp add: Set_def Let_def)
  next
    case (Some e)
    then show ?thesis
      using table_size_update(2) [OF ok Some, of ?e] EntrySize_le [OF ok Some] mem_exact_le [OF assms(3) i]
      by (simp add: Set_def Let_def)
  qed
  then show ?thesis by (rule mem_exact_update [OF assms(3) i Set_dbs])
qed

lemma mem_exact_Delete:
  assumes "db_shape d" and "i < kNumDatabases" and "mem_exact d"
  shows "mem_exact (fst (Delete i k d))"
proof -
  have i: "i < length (dbs d)" and ok: "table_ok (table i d)"
    using assms(1,2) table_ok_table by (auto simp: db_shape_def)
  have "used (fst (Delete i k d)) + table_size (table i d) = used d + table_size (AList.delete k (table i d))"
  proof (cases "map_of (table i d) k")
    case None
    then have "AList.delete k (table i d) = table i d" by (simp add: delete_id map_of_eq_None_iff)
    with None show ?thesis by (simp add: Delete_def)
  next
    case (Some e)
    then show ?thesis using table_size_delete [OF ok Some] mem_exact_le [OF assms(3) i]
      by (simp add: Delete_def Let_def)
  qed
  then show ?thesis by (rule mem_exact_update [OF assms(3) i Delete_dbs])
qed

lemma mem_exact_FlushDb:
  assumes "db_shape d" and "i < kNumDatabases" and "mem_exact d"
  shows "mem_exact (FlushDb i d)"
proof -
  have i: "i < length (dbs d)" using assms(1,2) by (simp add: db_shape_def)
  have "used (foldl (\<lambda>d kv. MemSub (EntrySize (fst kv) (snd kv)) d) d' t) = used d' - table_size t" for d' t
    by (induction t arbitrary: d') simp_all
  then have "used (FlushDb i d) + table_size (table i d) = used d + table_size []"
    using mem_exact_le [OF assms(3) i] by (simp add: FlushDb_def)
  then show ?thesis by (rule mem_exact_update [OF assms(3) i FlushDb_dbs])
qed

lemma FlushAll_ok:
  assumes "db_shape d"
  shows "db_shape (FlushAll d)" and "live n (FlushAll d) = (\<lambda>i k. None)"
    and "mem_exact d \<Longrightarrow> mem_exact (FlushAll d)"
proof -
  show "db_shape (FlushAll d)" by (simp add: db_shape_def FlushAll_dbs [OF assms] list_all_iff table_ok_def)
  show "live n (FlushAll d) = (\<lambda>i k. None)"
    by (auto simp: live_def table_def FlushAll_dbs [OF assms] fun_eq_iff)
  have "m \<le> kNumDatabases \<Longrightarrow> mem_exact d \<Longrightarrow>
      db_shape (foldl (\<lambda>d i. FlushDb i d) d [0..<m]) \<and> mem_exact (foldl (\<lambda>d i. FlushDb i d) d [0..<m])" for m
    by (induction m) (auto simp: assms mem_exact_FlushDb FlushDb_live)
  then show "mem_exact d \<Longrightarrow> mem_exact (FlushAll d)" by (simp add: FlushAll_def)
qed

section \<open>The contract of a key space with expiry\<close>

text \<open>
  The contract the commands rely on: a map from keys to entries with a time to live, in
  which expired entries are merely ignored. Operations are data, so that runs can be stated;
  the times of a run do not decrease.
\<close>

datatype db_op =
    DLookup int nat string
  | DSet nat string Value int
  | DDelete nat string
  | DFlushDb nat
  | DFlushAll
  | DExpireCycle int "nat \<Rightarrow> nat"

primrec op_time :: "db_op \<Rightarrow> int option" where
  "op_time (DLookup now i k) = Some now"
| "op_time (DSet i k v x) = None"
| "op_time (DDelete i k) = None"
| "op_time (DFlushDb i) = None"
| "op_time DFlushAll = None"
| "op_time (DExpireCycle now rng) = Some now"

primrec op_index :: "db_op \<Rightarrow> nat option" where
  "op_index (DLookup now i k) = Some i"
| "op_index (DSet i k v x) = Some i"
| "op_index (DDelete i k) = Some i"
| "op_index (DFlushDb i) = Some i"
| "op_index DFlushAll = None"
| "op_index (DExpireCycle now rng) = None"

definition clock_after :: "int \<Rightarrow> db_op \<Rightarrow> int" where
  "clock_after t op = (case op_time op of None \<Rightarrow> t | Some now \<Rightarrow> now)"

fun well_timed :: "int \<Rightarrow> db_op list \<Rightarrow> bool" where
  "well_timed t [] = True"
| "well_timed t (op # ops) =
     (t \<le> clock_after t op \<and> (case op_index op of None \<Rightarrow> True | Some i \<Rightarrow> i < kNumDatabases) \<and>
      well_timed (clock_after t op) ops)"

type_synonym timed_map = "nat \<Rightarrow> string \<Rightarrow> Entry option"

definition at_time :: "int \<Rightarrow> Entry option \<Rightarrow> Entry option" where
  "at_time n x = (case x of None \<Rightarrow> None | Some e \<Rightarrow> if stale n e then None else Some e)"

primrec spec_db :: "db_op \<Rightarrow> timed_map \<Rightarrow> timed_map \<times> Entry option" where
  "spec_db (DLookup now i k) m = (m, at_time now (m i k))"
| "spec_db (DSet i k v x) m = (m(i := (m i)(k \<mapsto> \<lparr>ent_value = v, expires_at_ms = x\<rparr>)), None)"
| "spec_db (DDelete i k) m = (m(i := (m i)(k := None)), None)"
| "spec_db (DFlushDb i) m = (m(i := (\<lambda>k. None)), None)"
| "spec_db DFlushAll m = ((\<lambda>i k. None), None)"
| "spec_db (DExpireCycle now rng) m = (m, None)"

primrec db_step :: "db_op \<Rightarrow> Database \<Rightarrow> Database \<times> Entry option" where
  "db_step (DLookup now i k) d = Lookup now i k d"
| "db_step (DSet i k v x) d = (Set i k v x d, None)"
| "db_step (DDelete i k) d = (fst (Delete i k d), None)"
| "db_step (DFlushDb i) d = (FlushDb i d, None)"
| "db_step DFlushAll d = (FlushAll d, None)"
| "db_step (DExpireCycle now rng) d = (fst (ActiveExpireCycle now rng d), None)"

fun run_ops :: "(db_op \<Rightarrow> 's \<Rightarrow> 's \<times> 'a) \<Rightarrow> db_op list \<Rightarrow> 's \<Rightarrow> 's \<times> 'a list" where
  "run_ops step [] s = (s, [])"
| "run_ops step (op # ops) s =
     (let (s1, a) = step op s; (s2, as) = run_ops step ops s1 in (s2, a # as))"

locale expiring_store =
  fixes inv :: "'s \<Rightarrow> bool"
    and view :: "int \<Rightarrow> 's \<Rightarrow> timed_map"
    and init :: 's
    and step :: "db_op \<Rightarrow> 's \<Rightarrow> 's \<times> Entry option"
  assumes init_ok: "inv init" "view n init = (\<lambda>i k. None)"
    and step_inv: "inv s \<Longrightarrow> well_timed t [op] \<Longrightarrow> inv (fst (step op s))"
    and lookup_answer: "inv s \<Longrightarrow> i < kNumDatabases \<Longrightarrow> snd (step (DLookup now i k) s) = view now s i k"
    and other_answer: "(\<And>now i k. op \<noteq> DLookup now i k) \<Longrightarrow> snd (step op s) = None"
    and step_view: "inv s \<Longrightarrow> well_timed t [op] \<Longrightarrow> clock_after t op \<le> n \<Longrightarrow>
      (\<And>i k. view n s i k = at_time n (m i k)) \<Longrightarrow>
      view n (fst (step op s)) i k = at_time n (fst (spec_db op m) i k)"
begin

text \<open>From the time of the last operation on, the store shows what the map shows.\<close>

definition sim :: "int \<Rightarrow> 's \<Rightarrow> timed_map \<Rightarrow> bool" where
  "sim t s m \<longleftrightarrow> inv s \<and> (\<forall>n\<ge>t. \<forall>i k. view n s i k = at_time n (m i k))"

lemma sim_step:
  assumes "sim t s m" and "well_timed t [op]"
  shows "sim (clock_after t op) (fst (step op s)) (fst (spec_db op m))"
    and "snd (step op s) = snd (spec_db op m)"
proof -
  have t: "t \<le> clock_after t op" using assms(2) by simp
  have s: "inv s" "\<And>n i k. t \<le> n \<Longrightarrow> view n s i k = at_time n (m i k)"
    using assms(1) by (auto simp: sim_def)
  show "sim (clock_after t op) (fst (step op s)) (fst (spec_db op m))"
    unfolding sim_def using step_inv [OF s(1) assms(2)] step_view [OF s(1) assms(2)] s(2) t
    by (meson order_trans)
  show "snd (step op s) = snd (spec_db op m)"
  proof (cases "\<exists>now i k. op = DLookup now i k")
    case True
    then obtain now i k where op: "op = DLookup now i k" by blast
    with assms(2) t have "i < kNumDatabases" "t \<le> now" by (simp_all add: clock_after_def)
    with s op show ?thesis by (simp add: lookup_answer)
  next
    case False
    then have "snd (step op s) = None" by (intro other_answer) blast
    with False show ?thesis by (cases op) auto
  qed
qed

lemma run_answers:
  assumes "sim t s m" and "well_timed t ops"
  shows "snd (run_ops step ops s) = snd (run_ops spec_db ops m) \<and> inv (fst (run_ops step ops s))"
  using assms
proof (induction ops arbitrary: t s m)
  case Nil
  then show ?case by (simp add: sim_def)
next
  case (Cons op ops)
  then have wt: "well_timed t [op]" "well_timed (clock_after t op) ops" by simp_all
  note st = sim_step [OF Cons.prems(1) wt(1)]
  from Cons.IH [OF st(1) wt(2)] st(2) show ?case by (simp add: split_beta)
qed

lemma run_from_init:
  assumes "well_timed t ops"
  shows "snd (run_ops step ops init) = snd (run_ops spec_db ops (\<lambda>i k. None)) \<and>
    inv (fst (run_ops step ops init))"
proof -
  have "sim t init (\<lambda>i k. None)" using init_ok by (simp add: sim_def at_time_def)
  then show ?thesis using assms by (rule run_answers)
qed

end

definition db_inv :: "Database \<Rightarrow> bool" where
  "db_inv d \<longleftrightarrow> db_shape d \<and> mem_exact d"

lemma db_inv_new: "db_inv new_database"
  by (simp add: db_inv_def db_shape_def mem_exact_def new_database_def table_ok_def list_all_iff
      sum_list_replicate)

lemma db_inv_step:
  assumes "db_inv d" and "well_timed t [op]"
  shows "db_inv (fst (db_step op d))"
  using assms
  by (cases op) (auto simp: db_inv_def mem_exact_Lookup Lookup_live mem_exact_Set Set_live
      mem_exact_Delete Delete_live mem_exact_FlushDb FlushDb_live FlushAll_ok
      intro: ActiveExpireCycle_spec [OF _ surjective_pairing])

lemma db_step_view:
  assumes "db_inv d" and "well_timed t [op]" and n: "clock_after t op \<le> n"
    and m: "\<And>i k. live n d i k = at_time n (m i k)"
  shows "live n (fst (db_step op d)) i k = at_time n (fst (spec_db op m) i k)"
proof -
  have d: "db_shape d" using assms(1) by (simp add: db_inv_def)
  show ?thesis
  proof (cases op)
    case (DExpireCycle now rng)
    with n have "live n (fst (ActiveExpireCycle now rng d)) = live n d"
      by (intro ActiveExpireCycle_spec(2) [OF d surjective_pairing]) (simp add: clock_after_def)
    with DExpireCycle m show ?thesis by simp
  qed (use assms(2) n m d in \<open>auto simp: clock_after_def Lookup_live Set_live Delete_live FlushDb_live
      FlushAll_ok at_time_def stale_def\<close>)
qed

interpretation kv: expiring_store db_inv live new_database db_step
proof unfold_locales
  show "live n new_database = (\<lambda>i k. None)" for n
    by (auto simp: live_def new_database_def table_def fun_eq_iff)
  show "snd (db_step (DLookup now i k) d) = live now d i k" if "db_inv d" "i < kNumDatabases" for d i now k
    using that by (simp add: db_inv_def Lookup_live)
  show "snd (db_step op d) = None" if "\<And>now i k. op \<noteq> DLookup now i k" for op d
    using that by (cases op) auto
qed (rule db_inv_new, rule db_inv_step, assumption+, rule db_step_view)

section \<open>Properties\<close>



text \<open>
  C11: an expire cycle removes stale entries only, counts them in its answer and in
  \<open>total_expired\<close>, and leaves every entry that is live at or after its time as it was.
\<close>

theorem active_expire_cycle_correct:
  assumes "db_shape d" and "ActiveExpireCycle now rng d = (d', deleted)"
  shows "length (concat (dbs d')) + deleted = length (concat (dbs d)) \<and>
    total_expired d' = total_expired d + deleted \<and> db_shape d' \<and>
    (\<forall>n\<ge>now. live n d' = live n d)"
  using ActiveExpireCycle_spec [OF assms] by blast

theorem active_expire_cycle_correct_witness:
  "\<exists>d d'. db_shape d \<and> ActiveExpireCycle 10 (\<lambda>_. 0) d = (d', 1) \<and> length (concat (dbs d')) = 1"
proof -
  let ?d = "Set 0 ''b'' (RawString ''w'') 0 (Set 0 ''a'' (RawString ''v'') 10 new_database)"
  have ok: "db_shape ?d" using db_inv_new by (simp add: Set_live kNumDatabases_def db_inv_def)
  have "snd (ActiveExpireCycle 10 (\<lambda>_. 0) ?d) = 1" by code_simp
  then obtain d' where d': "ActiveExpireCycle 10 (\<lambda>_. 0) ?d = (d', 1)" by (metis prod.collapse)
  have "length (concat (dbs ?d)) = 2" by code_simp
  with active_expire_cycle_correct [OF ok d'] have "length (concat (dbs d')) = 1" by simp
  with ok d' show ?thesis by blast
qed



end
