(* ===== verification/Rdb.thy ===== *)
theory Rdb
  imports Database
begin

unbundle bit_operations_syntax

text \<open>
  The snapshot file: \<open>include/rdb.h\<close> and \<open>src/rdb.cpp\<close>. Bytes are characters. \<open>rnds\<close> gives,
  for every insertion into a skip list while loading, the sequence of \<open>random()\<close> results it
  draws from. The outcome of loading is an error message or the new database; \<open>None\<close> stands
  for an undefined run of the skip list.
\<close>

section \<open>CRC32\<close>

definition crc_bit :: "32 word \<Rightarrow> 32 word" where
  "crc_bit c = (if c AND 1 \<noteq> 0 then 0xEDB88320 XOR drop_bit 1 c else drop_bit 1 c)"

definition crc_table :: "nat \<Rightarrow> 32 word" where
  "crc_table i = (crc_bit ^^ 8) (of_nat i)"

definition crc_step :: "32 word \<Rightarrow> char \<Rightarrow> 32 word" where
  "crc_step crc ch = crc_table (unat (take_bit 8 crc XOR of_char ch)) XOR drop_bit 8 crc"

definition Crc32 :: "string \<Rightarrow> 32 word" where
  "Crc32 data = foldl crc_step 0xFFFFFFFF data XOR 0xFFFFFFFF"

section \<open>Writing\<close>

definition byte_at :: "nat \<Rightarrow> 'a::len word \<Rightarrow> char" where
  "byte_at i v = char_of (unat (drop_bit (8 * i) v AND 0xff))"

definition PutU8 :: "string \<Rightarrow> 8 word \<Rightarrow> string" where
  "PutU8 out v = out @ [char_of (unat v)]"

definition PutU32 :: "string \<Rightarrow> 32 word \<Rightarrow> string" where
  "PutU32 out v = foldl (\<lambda>out i. out @ [byte_at i v]) out [0..<4]"

definition PutU64 :: "string \<Rightarrow> 64 word \<Rightarrow> string" where
  "PutU64 out v = foldl (\<lambda>out i. out @ [byte_at i v]) out [0..<8]"

text \<open>\<open>memcpy\<close> of a double: its bit pattern, in the byte order of a little-endian machine.\<close>

definition PutF64 :: "string \<Rightarrow> double \<Rightarrow> string" where
  "PutF64 out v = foldl (\<lambda>out i. out @ [byte_at i v]) out [0..<8]"

definition PutBytes :: "string \<Rightarrow> string \<Rightarrow> string" where
  "PutBytes out s = PutU32 out (of_nat (length s)) @ s"

primrec type_code :: "ValueType \<Rightarrow> 8 word" where
  "type_code kString = 0"
| "type_code kHash = 1"
| "type_code kList = 2"
| "type_code kSet = 3"
| "type_code kZSet = 4"

primrec PutValue :: "string \<Rightarrow> Value \<Rightarrow> string" where
  "PutValue out (RawString s) = PutBytes out s"
| "PutValue out (HashValue h) =
     foldl (\<lambda>out hk. PutBytes (PutBytes out (fst hk)) (snd hk)) (PutU32 out (of_nat (length h))) h"
| "PutValue out (ListValue l) = foldl PutBytes (PutU32 out (of_nat (length l))) l"
| "PutValue out (SetValue s) = foldl PutBytes (PutU32 out (of_nat (length s))) s"
| "PutValue out (ZSetValue sl dict) =
     foldl (\<lambda>out mk. PutF64 (PutBytes out (fst mk)) (snd mk)) (PutU32 out (of_nat (length dict))) dict"

definition PutEntry :: "string \<Rightarrow> string \<times> Entry \<Rightarrow> string" where
  "PutEntry out kv =
     (let e = snd kv;
          out1 = PutU8 out (type_code (TypeOf (ent_value e)));
          out2 = PutBytes out1 (fst kv);
          out3 = PutU64 out2 (of_int (expires_at_ms e))
      in PutValue out3 (ent_value e))"

definition PutTable :: "Database \<Rightarrow> string \<Rightarrow> nat \<Rightarrow> string" where
  "PutTable db out idx =
     (let t = table idx db
      in foldl PutEntry (PutU32 (PutU8 out (of_nat idx)) (of_nat (length t))) t)"

definition kMagic :: string where "kMagic = ''TINYREDIS01''"

definition kMagicLen :: nat where "kMagicLen = 11"

definition used_dbs :: "Database \<Rightarrow> nat list" where
  "used_dbs db = filter (\<lambda>i. table i db \<noteq> []) [0..<kNumDatabases]"

definition Serialize :: "Database \<Rightarrow> string" where
  "Serialize db =
     (let out = foldl (PutTable db) (PutU8 kMagic (of_nat (length (used_dbs db)))) (used_dbs db)
      in PutU32 out (Crc32 out))"

section \<open>Reading\<close>

record reader =
  rd_pos :: nat
  rd_ok :: bool

definition Need :: "string \<Rightarrow> nat \<Rightarrow> reader \<Rightarrow> reader \<times> bool" where
  "Need buf n r =
     (if \<not> rd_ok r \<or> rd_pos r + n > length buf then (r\<lparr>rd_ok := False\<rparr>, False) else (r, True))"

definition skip :: "nat \<Rightarrow> reader \<Rightarrow> reader" where
  "skip n r = r\<lparr>rd_pos := rd_pos r + n\<rparr>"

text \<open>\<open>v |= (uint8_t)buf[pos + i] << (8 * i)\<close> for \<open>i < n\<close>.\<close>

definition gather :: "string \<Rightarrow> nat \<Rightarrow> nat \<Rightarrow> 'a::len word" where
  "gather buf pos n = foldl (\<lambda>v i. v OR push_bit (8 * i) (of_char (buf ! (pos + i)))) 0 [0..<n]"

definition ReadU8 :: "string \<Rightarrow> reader \<Rightarrow> reader \<times> 8 word" where
  "ReadU8 buf r =
     (let (r1, ok) = Need buf 1 r in if ok then (skip 1 r1, of_char (buf ! rd_pos r1)) else (r1, 0))"

definition ReadU32 :: "string \<Rightarrow> reader \<Rightarrow> reader \<times> 32 word" where
  "ReadU32 buf r =
     (let (r1, ok) = Need buf 4 r in if ok then (skip 4 r1, gather buf (rd_pos r1) 4) else (r1, 0))"

definition ReadU64 :: "string \<Rightarrow> reader \<Rightarrow> reader \<times> 64 word" where
  "ReadU64 buf r =
     (let (r1, ok) = Need buf 8 r in if ok then (skip 8 r1, gather buf (rd_pos r1) 8) else (r1, 0))"

definition ReadF64 :: "string \<Rightarrow> reader \<Rightarrow> reader \<times> double" where
  "ReadF64 buf r =
     (let (r1, ok) = Need buf 8 r in if ok then (skip 8 r1, gather buf (rd_pos r1) 8) else (r1, 0))"

definition ReadBytes :: "string \<Rightarrow> 32 word \<Rightarrow> reader \<Rightarrow> reader \<times> string" where
  "ReadBytes buf len r =
     (let (r1, ok) = Need buf (unat len) r
      in if ok then (skip (unat len) r1, take (unat len) (drop (rd_pos r1) buf)) else (r1, []))"

text \<open>\<open>r.Bytes(r.U32())\<close>\<close>

definition ReadString :: "string \<Rightarrow> reader \<Rightarrow> reader \<times> string" where
  "ReadString buf r = (let (r1, n) = ReadU32 buf r in ReadBytes buf n r1)"

definition ReadField :: "string \<Rightarrow> reader \<Rightarrow> reader \<times> (string \<times> string)" where
  "ReadField buf r =
     (let (r1, fk) = ReadString buf r; (r2, fv) = ReadString buf r1 in (r2, (fk, fv)))"

definition ReadScored :: "string \<Rightarrow> reader \<Rightarrow> reader \<times> (string \<times> double)" where
  "ReadScored buf r =
     (let (r1, member) = ReadString buf r; (r2, score) = ReadF64 buf r1 in (r2, (member, score)))"

text \<open>\<open>for (uint32_t j = 0; j < n && r.ok; ++j)\<close> around one read.\<close>

fun ReadLoop ::
  "(string \<Rightarrow> reader \<Rightarrow> reader \<times> 'a) \<Rightarrow> ('c \<Rightarrow> 'a \<Rightarrow> 'c) \<Rightarrow> string \<Rightarrow> nat \<Rightarrow> reader \<Rightarrow> 'c \<Rightarrow> reader \<times> 'c" where
  "ReadLoop rd add buf 0 r acc = (r, acc)"
| "ReadLoop rd add buf (Suc n) r acc =
     (if rd_ok r then (let (r1, x) = rd buf r in ReadLoop rd add buf n r1 (add acc x)) else (r, acc))"

text \<open>\<open>emplace\<close> keeps an entry that is there, \<open>insert\<close> a member, \<open>operator[]\<close> overwrites.\<close>

definition emplace :: "('k \<times> 'v) list \<Rightarrow> 'k \<times> 'v \<Rightarrow> ('k \<times> 'v) list" where
  "emplace h kv = (if map_of h (fst kv) = None then h @ [kv] else h)"

definition set_insert :: "'a list \<Rightarrow> 'a \<Rightarrow> 'a list" where
  "set_insert s x = (if x \<in> set s then s else s @ [x])"

type_synonym zset_acc = "(nat \<times> skiplist \<times> (string \<times> double) list) option"

definition add_scored :: "(nat \<Rightarrow> nat \<Rightarrow> int) \<Rightarrow> zset_acc \<Rightarrow> string \<times> double \<Rightarrow> zset_acc" where
  "add_scored rnds acc ms = do {
     (c, sl, dict) \<leftarrow> acc;
     (sl', b) \<leftarrow> Insert sl (rnds c) (snd ms) (fst ms);
     Some (Suc c, sl', AList.update (fst ms) (snd ms) dict) }"

type_synonym 'a outcome = "(string + 'a) option"

text \<open>
  The switch on the type byte. \<open>c\<close> counts the insertions into skip lists so far, the index
  into \<open>rnds\<close>.
\<close>

definition LoadValue ::
  "(nat \<Rightarrow> nat \<Rightarrow> int) \<Rightarrow> string \<Rightarrow> 8 word \<Rightarrow> reader \<Rightarrow> nat \<Rightarrow> (reader \<times> nat \<times> Value) outcome" where
  "LoadValue rnds buf type r c =
     (if type = 0 then
        (let (r1, s) = ReadString buf r in Some (Inr (r1, c, RawString s)))
      else if type = 1 then
        (let (r1, n) = ReadU32 buf r;
             (r2, h) = ReadLoop ReadField emplace buf (unat n) r1 []
         in Some (Inr (r2, c, HashValue h)))
      else if type = 2 then
        (let (r1, n) = ReadU32 buf r;
             (r2, l) = ReadLoop ReadString (\<lambda>l s. l @ [s]) buf (unat n) r1 []
         in Some (Inr (r2, c, ListValue l)))
      else if type = 3 then
        (let (r1, n) = ReadU32 buf r;
             (r2, s) = ReadLoop ReadString set_insert buf (unat n) r1 []
         in Some (Inr (r2, c, SetValue s)))
      else if type = 4 then
        (let (r1, n) = ReadU32 buf r;
             (r2, z) = ReadLoop ReadScored (add_scored rnds) buf (unat n) r1 (Some (c, new_skiplist, []))
         in case z of
              None \<Rightarrow> None
            | Some (c', sl, dict) \<Rightarrow> Some (Inr (r2, c', ZSetValue sl dict)))
      else Some (Inl ''unknown value type in dump''))"

definition LoadEntry ::
  "(nat \<Rightarrow> nat \<Rightarrow> int) \<Rightarrow> string \<Rightarrow> nat \<Rightarrow> reader \<times> nat \<times> Database \<Rightarrow> (reader \<times> nat \<times> Database) outcome" where
  "LoadEntry rnds buf idx = (\<lambda>(r, c, fresh).
     let (r1, type) = ReadU8 buf r;
         (r2, klen) = ReadU32 buf r1;
         (r3, key) = ReadBytes buf klen r2;
         (r4, exp) = ReadU64 buf r3
     in if \<not> rd_ok r4 then Some (Inl ''truncated entry'')
        else case LoadValue rnds buf type r4 c of
               None \<Rightarrow> None
             | Some (Inl err) \<Rightarrow> Some (Inl err)
             | Some (Inr (r5, c', v)) \<Rightarrow>
                 if \<not> rd_ok r5 then Some (Inl ''truncated value'')
                 else Some (Inr (r5, c', Set idx key v (if exp \<noteq> 0 then sint exp else 0) fresh)))"

fun LoadEntries ::
  "(nat \<Rightarrow> nat \<Rightarrow> int) \<Rightarrow> string \<Rightarrow> nat \<Rightarrow> nat \<Rightarrow> reader \<times> nat \<times> Database \<Rightarrow> (reader \<times> nat \<times> Database) outcome" where
  "LoadEntries rnds buf idx 0 st = Some (Inr st)"
| "LoadEntries rnds buf idx (Suc n) st =
     (case LoadEntry rnds buf idx st of
        None \<Rightarrow> None
      | Some (Inl err) \<Rightarrow> Some (Inl err)
      | Some (Inr st') \<Rightarrow> LoadEntries rnds buf idx n st')"

definition LoadTable ::
  "(nat \<Rightarrow> nat \<Rightarrow> int) \<Rightarrow> string \<Rightarrow> reader \<times> nat \<times> Database \<Rightarrow> (reader \<times> nat \<times> Database) outcome" where
  "LoadTable rnds buf = (\<lambda>(r, c, fresh).
     let (r1, idx) = ReadU8 buf r; (r2, count) = ReadU32 buf r1
     in if \<not> rd_ok r2 \<or> unat idx \<ge> kNumDatabases then Some (Inl ''bad db index'')
        else LoadEntries rnds buf (unat idx) (unat count) (r2, c, fresh))"

fun LoadTables ::
  "(nat \<Rightarrow> nat \<Rightarrow> int) \<Rightarrow> string \<Rightarrow> nat \<Rightarrow> reader \<times> nat \<times> Database \<Rightarrow> (reader \<times> nat \<times> Database) outcome" where
  "LoadTables rnds buf 0 st = Some (Inr st)"
| "LoadTables rnds buf (Suc n) st =
     (case LoadTable rnds buf st of
        None \<Rightarrow> None
      | Some (Inl err) \<Rightarrow> Some (Inl err)
      | Some (Inr st') \<Rightarrow> LoadTables rnds buf n st')"

text \<open>\<open>LoadFromFile\<close> from the bytes of the file on.\<close>

definition LoadData :: "(nat \<Rightarrow> nat \<Rightarrow> int) \<Rightarrow> string \<Rightarrow> Database \<Rightarrow> Database outcome" where
  "LoadData rnds data db =
     (if length data < kMagicLen + 5 \<or> take kMagicLen data \<noteq> kMagic
      then Some (Inl ''bad magic (not a TINYREDIS dump)'')
      else let body = length data - 4
           in if Crc32 (take body data) \<noteq> gather data (length data - 4) 4
              then Some (Inl ''CRC mismatch (corrupt dump)'')
              else let (r, ndbs) = ReadU8 data \<lparr>rd_pos = kMagicLen, rd_ok = True\<rparr>
                   in if \<not> rd_ok r then Some (Inl ''truncated header'')
                      else case LoadTables rnds data (unat ndbs) (r, 0, new_database) of
                             None \<Rightarrow> None
                           | Some (Inl err) \<Rightarrow> Some (Inl err)
                           | Some (Inr (r', c, fresh)) \<Rightarrow>
                               Some (Inr (fresh\<lparr>max_memory := max_memory db\<rparr>)))"

section \<open>Files\<close>

text \<open>
  The file system as a map from paths to contents, the failures the code handles as flags, and
  what a failed write leaves in the temporary file. The text of \<open>strerror\<close> is left out of the
  error values.
\<close>

record disk =
  files :: "string \<Rightarrow> string option"
  last_save :: int

record io_faults =
  open_ok :: bool
  write_ok :: bool
  rename_ok :: bool
  read_ok :: bool
  fork_ok :: bool
  partial_data :: string

datatype save_error = CannotOpen | WriteFailed | RenameFailed | ForkFailed

definition tmp_path :: "string \<Rightarrow> string" where
  "tmp_path path = path @ ''.tmp''"

text \<open>Write the temporary file, then rename it: the body of \<open>SaveToFile\<close> and of the child.\<close>

definition write_rename :: "io_faults \<Rightarrow> string \<Rightarrow> string \<Rightarrow> disk \<Rightarrow> disk \<times> (save_error + unit)" where
  "write_rename io path data dk =
     (if \<not> open_ok io then (dk, Inl CannotOpen)
      else if \<not> write_ok io
      then (dk\<lparr>files := (files dk)(tmp_path path \<mapsto> partial_data io)\<rparr>, Inl WriteFailed)
      else if \<not> rename_ok io
      then (dk\<lparr>files := (files dk)(tmp_path path \<mapsto> data)\<rparr>, Inl RenameFailed)
      else (dk\<lparr>files := (files dk)(tmp_path path := None, path \<mapsto> data)\<rparr>, Inr ()))"

definition SaveToFile ::
  "io_faults \<Rightarrow> int \<Rightarrow> string \<Rightarrow> Database \<Rightarrow> disk \<Rightarrow> disk \<times> (save_error + unit)" where
  "SaveToFile io now path db dk =
     (case write_rename io path (Serialize db) dk of
        (dk', Inl err) \<Rightarrow> (dk', Inl err)
      | (dk', Inr u) \<Rightarrow> (dk'\<lparr>last_save := now\<rparr>, Inr ()))"

text \<open>The parent's part of \<open>BgSaveFork\<close>; the child holds the bytes taken before the fork.\<close>

definition BgSaveFork ::
  "io_faults \<Rightarrow> int \<Rightarrow> string \<Rightarrow> Database \<Rightarrow> disk \<Rightarrow> disk \<times> (save_error + string \<times> string)" where
  "BgSaveFork io now path db dk =
     (let data = Serialize db
      in if \<not> fork_ok io then (dk, Inl ForkFailed)
         else (dk\<lparr>last_save := now\<rparr>, Inr (path, data)))"

definition BgSaveChild :: "io_faults \<Rightarrow> string \<times> string \<Rightarrow> disk \<Rightarrow> disk" where
  "BgSaveChild io = (\<lambda>(path, data) dk. fst (write_rename io path data dk))"

definition FileExists :: "string \<Rightarrow> disk \<Rightarrow> bool" where
  "FileExists path dk \<longleftrightarrow> files dk path \<noteq> None"

definition LoadFromFile ::
  "io_faults \<Rightarrow> (nat \<Rightarrow> nat \<Rightarrow> int) \<Rightarrow> string \<Rightarrow> Database \<Rightarrow> disk \<Rightarrow> Database outcome" where
  "LoadFromFile io rnds path db dk =
     (case files dk path of
        None \<Rightarrow> Some (Inl (''cannot open '' @ path))
      | Some data \<Rightarrow>
          if data \<noteq> [] \<and> \<not> read_ok io then Some (Inl (''short read on '' @ path))
          else LoadData rnds data db)"

end
