(* ===== verification/Float.thy ===== *)
theory Float
  imports Double
begin

text \<open>
  Floating-point arithmetic, reading and printing as the C++ code uses them: \<open>+\<close> on \<open>double\<close>
  and \<open>long double\<close>, \<open>strtod\<close>, \<open>strtold\<close>, and the conversions \<open>%.*g\<close> and \<open>%.*Lf\<close> of
  \<open>snprintf\<close>. A finite number of a binary format is a sign and a natural number of units,
  the unit being the least subnormal; every operation rounds the exact rational result once,
  to nearest with ties to even. The format of \<open>long double\<close> differs between platforms, so
  the definitions take it as an argument; \<open>x87_extended\<close> is the one of Linux on x86-64.
\<close>

section \<open>Formats and rounding\<close>

record float_format =
  prec :: nat
  unit_exp :: nat
  top_exp :: nat

definition binary64 :: float_format where
  "binary64 = \<lparr>prec = 53, unit_exp = 1074, top_exp = 1024\<rparr>"

definition x87_extended :: float_format where
  "x87_extended = \<lparr>prec = 64, unit_exp = 16445, top_exp = 16384\<rparr>"

datatype fl = NaN bool | Inf bool | Fin bool nat

fun bit_length :: "nat \<Rightarrow> nat" where
  "bit_length n = (if n = 0 then 0 else Suc (bit_length (n div 2)))"

declare bit_length.simps [simp del]

definition half_even :: "nat \<Rightarrow> nat \<Rightarrow> nat" where
  "half_even a b =
     (let q = a div b; r = a mod b
      in if 2 * r < b \<or> (2 * r = b \<and> even q) then q else q + 1)"

text \<open>The number of units nearest to \<open>a / b\<close> units that the format has.\<close>

definition round_units :: "nat \<Rightarrow> nat \<Rightarrow> nat \<Rightarrow> nat" where
  "round_units p a b = (let s = bit_length (a div b) - p in half_even a (b * 2 ^ s) * 2 ^ s)"

definition fl_cap :: "float_format \<Rightarrow> bool \<Rightarrow> nat \<Rightarrow> fl" where
  "fl_cap f neg u = (if u \<ge> 2 ^ (top_exp f + unit_exp f) then Inf neg else Fin neg u)"

text \<open>Rounding of the number \<open>a / b\<close>.\<close>

definition fl_round :: "float_format \<Rightarrow> bool \<Rightarrow> nat \<Rightarrow> nat \<Rightarrow> fl" where
  "fl_round f neg a b = fl_cap f neg (round_units (prec f) (a * 2 ^ unit_exp f) b)"

definition fl_signed :: "bool \<Rightarrow> nat \<Rightarrow> int" where
  "fl_signed neg u = (if neg then - int u else int u)"

fun fl_add :: "float_format \<Rightarrow> fl \<Rightarrow> fl \<Rightarrow> fl" where
  "fl_add f (NaN s) y = NaN s"
| "fl_add f x (NaN s) = NaN s"
| "fl_add f (Inf s) (Inf t) = (if s = t then Inf s else NaN True)"
| "fl_add f (Inf s) (Fin t v) = Inf s"
| "fl_add f (Fin s u) (Inf t) = Inf t"
| "fl_add f (Fin s u) (Fin t v) =
     (let i = fl_signed s u + fl_signed t v
      in if i = 0 then Fin (s \<and> t) 0
         else fl_cap f (i < 0) (round_units (prec f) (nat \<bar>i\<bar>) 1))"

primrec fl_isnan :: "fl \<Rightarrow> bool" where
  "fl_isnan (NaN s) = True" | "fl_isnan (Inf s) = False" | "fl_isnan (Fin s u) = False"

primrec fl_isinf :: "fl \<Rightarrow> bool" where
  "fl_isinf (NaN s) = False" | "fl_isinf (Inf s) = True" | "fl_isinf (Fin s u) = False"

section \<open>\<open>double\<close>\<close>

text \<open>The bit pattern of a magnitude in units: the inverse of \<open>mag_units\<close>.\<close>

definition units_mag :: "nat \<Rightarrow> nat" where
  "units_mag u = (let s = bit_length u - 53 in s * 2 ^ 52 + u div 2 ^ s)"

definition d_sign :: "bool \<Rightarrow> nat" where
  "d_sign neg = (if neg then 2 ^ 63 else 0)"

primrec double_of :: "fl \<Rightarrow> double" where
  "double_of (NaN s) = of_nat (d_sign s + 4095 * 2 ^ 51)"
| "double_of (Inf s) = of_nat (d_sign s + 2047 * 2 ^ 52)"
| "double_of (Fin s u) = of_nat (d_sign s + units_mag u)"

definition fl_of :: "double \<Rightarrow> fl" where
  "fl_of x =
     (if d_isnan x then NaN (d_neg x) else if d_isinf x then Inf (d_neg x)
      else Fin (d_neg x) (mag_units (nat (d_mag x))))"

definition d_add :: "double \<Rightarrow> double \<Rightarrow> double" where
  "d_add x y = double_of (fl_add binary64 (fl_of x) (fl_of y))"

section \<open>Reading: \<open>strtoll\<close>, \<open>strtod\<close> and \<open>strtold\<close>\<close>

text \<open>A C string ends at its first NUL byte.\<close>

definition c_str :: "string \<Rightarrow> string" where
  "c_str s = takeWhile (\<lambda>c. c \<noteq> CHR 0x00) s"

definition is_space :: "char \<Rightarrow> bool" where
  "is_space c \<longleftrightarrow> c = CHR '' '' \<or> (9 \<le> (of_char c :: nat) \<and> (of_char c :: nat) \<le> 13)"

text \<open>An optional sign.\<close>

fun read_sign :: "string \<Rightarrow> bool \<times> string" where
  "read_sign [] = (False, [])"
| "read_sign (c # s) =
     (if c = CHR ''-'' then (True, s) else if c = CHR ''+'' then (False, s) else (False, c # s))"

text \<open>\<open>strtoll\<close> in base 10: the value, the rest after the digits, and whether it is out of
  range. Without digits nothing is read.\<close>

definition strtoll :: "string \<Rightarrow> int \<times> string \<times> bool" where
  "strtoll s =
     (let (neg, t) = read_sign (dropWhile is_space s);
          ds = takeWhile is_digit t;
          v = (if neg then - int (dec_val ds) else int (dec_val ds))
      in if ds = [] then (0, s, False)
         else (if v < LLONG_MIN then LLONG_MIN else if v > LLONG_MAX then LLONG_MAX else v,
               dropWhile is_digit t, \<not> in_ll v))"

definition upper_char :: "char \<Rightarrow> char" where
  "upper_char c = (if 97 \<le> (of_char c :: nat) \<and> (of_char c :: nat) \<le> 122
                   then char_of ((of_char c :: nat) - 32) else c)"

definition has_word :: "string \<Rightarrow> string \<Rightarrow> bool" where
  "has_word w s \<longleftrightarrow> map upper_char (take (length w) s) = w"

definition is_hex :: "char \<Rightarrow> bool" where
  "is_hex c \<longleftrightarrow> is_digit c \<or>
     (65 \<le> (of_char (upper_char c) :: nat) \<and> (of_char (upper_char c) :: nat) \<le> 70)"

definition hex_val :: "string \<Rightarrow> nat" where
  "hex_val s = foldl (\<lambda>a c. 16 * a + (if is_digit c then digit_val c else of_char (upper_char c) - 55)) 0 s"

text \<open>An exponent is the letter, an optional sign and at least one digit; otherwise it is not
  part of the number.\<close>

definition read_exponent :: "char \<Rightarrow> string \<Rightarrow> int \<times> string" where
  "read_exponent letter s =
     (case s of
        [] \<Rightarrow> (0, s)
      | c # t \<Rightarrow>
          let (neg, u) = read_sign t; ds = takeWhile is_digit u
          in if upper_char c = letter \<and> ds \<noteq> []
             then (if neg then - int (dec_val ds) else int (dec_val ds), dropWhile is_digit u)
             else (0, s))"

text \<open>Digits, and after a point more digits; the point belongs to the number only when there
  is a digit on one of its sides.\<close>

definition read_mantissa :: "(char \<Rightarrow> bool) \<Rightarrow> string \<Rightarrow> string \<times> string \<times> string" where
  "read_mantissa dig s =
     (let i = takeWhile dig s; r = dropWhile dig s
      in case r of
           [] \<Rightarrow> (i, [], r)
         | c # t \<Rightarrow> if c = CHR ''.'' \<and> (i \<noteq> [] \<or> takeWhile dig t \<noteq> [])
                    then (i, takeWhile dig t, dropWhile dig t) else (i, [], r))"

definition fl_scale :: "float_format \<Rightarrow> bool \<Rightarrow> nat \<Rightarrow> nat \<Rightarrow> int \<Rightarrow> fl" where
  "fl_scale f neg base m e =
     (if e \<ge> 0 then fl_round f neg (m * base ^ nat e) 1 else fl_round f neg m (base ^ nat (- e)))"

definition read_decimal :: "float_format \<Rightarrow> bool \<Rightarrow> string \<Rightarrow> (fl \<times> string) option" where
  "read_decimal f neg s =
     (let (i, fr, r) = read_mantissa is_digit s; (e, r') = read_exponent (CHR ''E'') r
      in if i = [] \<and> fr = [] then None
         else Some (fl_scale f neg 10 (dec_val (i @ fr)) (e - int (length fr)), r'))"

definition read_hex :: "float_format \<Rightarrow> bool \<Rightarrow> string \<Rightarrow> (fl \<times> string) option" where
  "read_hex f neg s =
     (let (i, fr, r) = read_mantissa is_hex (drop 2 s); (e, r') = read_exponent (CHR ''P'') r
      in if \<not> has_word ''0X'' s \<or> (i = [] \<and> fr = []) then None
         else Some (fl_scale f neg 2 (hex_val (i @ fr)) (e - 4 * int (length fr)), r'))"

definition nan_tail :: "string \<Rightarrow> string" where
  "nan_tail s =
     (case s of
        [] \<Rightarrow> s
      | c # t \<Rightarrow>
          let r = dropWhile (\<lambda>c. is_digit c \<or> c = CHR ''_'' \<or>
                    (65 \<le> (of_char (upper_char c) :: nat) \<and> (of_char (upper_char c) :: nat) \<le> 90)) t
          in if c = CHR ''('' \<and> r \<noteq> [] \<and> hd r = CHR '')'' then tl r else s)"

text \<open>The number at the start of a C string and what follows it; with no number, zero and the
  whole string.\<close>

definition strtofl :: "float_format \<Rightarrow> string \<Rightarrow> fl \<times> string" where
  "strtofl f s =
     (let (neg, t) = read_sign (dropWhile is_space s)
      in if has_word ''INFINITY'' t then (Inf neg, drop 8 t)
         else if has_word ''INF'' t then (Inf neg, drop 3 t)
         else if has_word ''NAN'' t then (NaN neg, nan_tail (drop 3 t))
         else case read_hex f neg t of
                Some r \<Rightarrow> r
              | None \<Rightarrow> (case read_decimal f neg t of Some r \<Rightarrow> r | None \<Rightarrow> (Fin False 0, s)))"

section \<open>Printing: \<open>%.*f\<close> and \<open>%.*g\<close>\<close>

definition sign_str :: "bool \<Rightarrow> string" where
  "sign_str neg = (if neg then ''-'' else [])"

definition pad_left :: "nat \<Rightarrow> string \<Rightarrow> string" where
  "pad_left w s = replicate (w - length s) (CHR ''0'') @ s"

text \<open>The number \<open>n / 10\<^sup>p\<close> with exactly \<open>p\<close> digits after the point.\<close>

definition fixed_str :: "nat \<Rightarrow> nat \<Rightarrow> string" where
  "fixed_str p n =
     nat_str (n div 10 ^ p) @ (if p = 0 then [] else CHR ''.'' # pad_left p (nat_str (n mod 10 ^ p)))"

definition printf_f :: "nat \<Rightarrow> bool \<Rightarrow> nat \<Rightarrow> nat \<Rightarrow> string" where
  "printf_f p neg a b = sign_str neg @ fixed_str p (half_even (a * 10 ^ p) b)"

text \<open>The decimal exponent of a positive rational: \<open>10\<^sup>x \<le> a / b < 10\<^sup>x\<^sup>+\<^sup>1\<close>.\<close>

function lead_zeros :: "nat \<Rightarrow> nat \<Rightarrow> nat" where
  "lead_zeros a b = (if a = 0 \<or> b \<le> a then 0 else Suc (lead_zeros (10 * a) b))"
  by pat_completeness auto
termination by (relation "measure (\<lambda>(a, b). b - a)") auto

declare lead_zeros.simps [simp del]

definition dec_exp :: "nat \<Rightarrow> nat \<Rightarrow> int" where
  "dec_exp a b =
     (if b \<le> a then int (length (nat_str (a div b))) - 1 else - int (lead_zeros a b))"

text \<open>\<open>p\<close> significant digits and the exponent of the first one, after rounding.\<close>

definition ten_pow :: "int \<Rightarrow> nat \<Rightarrow> nat \<Rightarrow> nat \<times> nat" where
  "ten_pow e a b = (if e \<ge> 0 then (a * 10 ^ nat e, b) else (a, b * 10 ^ nat (- e)))"

definition sig_digits :: "nat \<Rightarrow> nat \<Rightarrow> nat \<Rightarrow> nat \<times> int" where
  "sig_digits p a b =
     (let x = dec_exp a b; (a', b') = ten_pow (int p - 1 - x) a b; d = half_even a' b'
      in if d = 10 ^ p then (10 ^ (p - 1), x + 1) else (d, x))"

definition strip_zeros :: "string \<Rightarrow> string" where
  "strip_zeros s = rev (dropWhile (\<lambda>c. c = CHR ''0'') (rev s))"

definition with_point :: "string \<Rightarrow> string \<Rightarrow> string" where
  "with_point i fr = (let fr' = strip_zeros fr in if fr' = [] then i else i @ CHR ''.'' # fr')"

text \<open>Style e when the exponent is below -4 or not below the precision, style f otherwise;
  trailing zeros of the fraction are dropped.\<close>

definition printf_g :: "nat \<Rightarrow> bool \<Rightarrow> nat \<Rightarrow> nat \<Rightarrow> string" where
  "printf_g p neg a b =
     (let (d, x) = sig_digits p a b; ds = nat_str d
      in sign_str neg @
         (if x < - 4 \<or> x \<ge> int p
          then with_point (take 1 ds) (drop 1 ds) @ ''e'' @ (if x < 0 then ''-'' else ''+'')
               @ pad_left 2 (nat_str (nat \<bar>x\<bar>))
          else if x \<ge> 0 then with_point (take (Suc (nat x)) ds) (drop (Suc (nat x)) ds)
          else with_point ''0'' (replicate (nat (- x) - 1) (CHR ''0'') @ ds)))"

end
