(* ===== verification/Resp.thy ===== *)
theory Resp
  imports Prelude
begin

text \<open>
  The RESP2 wire protocol: \<open>include/resp.h\<close> and \<open>src/resp.cpp\<close>. The incremental request
  parser keeps a byte buffer and a sticky error message; \<open>Feed\<close> appends bytes and extracts
  every complete command. The encoders append a reply to an output buffer.
\<close>

section \<open>Line scanning\<close>

definition kCR :: char where [simp]: "kCR = CHR 0x0D"

definition kLF :: char where [simp]: "kLF = CHR 0x0A"

definition CRLF :: string where [simp]: "CRLF = [kCR, kLF]"

definition kMaxInlineBytes :: nat where "kMaxInlineBytes = 64 * 1024"

definition kMaxBulkBytes :: nat where "kMaxBulkBytes = 512 * 1024 * 1024"

definition kMaxMultiBulkElements :: nat where "kMaxMultiBulkElements = 1024"

definition IsCrLfAt :: "string \<Rightarrow> nat \<Rightarrow> bool" where
  "IsCrLfAt b i \<longleftrightarrow> i + 1 < length b \<and> b ! i = kCR \<and> b ! (i + 1) = kLF"

text \<open>
  The loop of \<open>PeekLine\<close>, which \<open>TryParseMultiBulk\<close> repeats from an inner position: the
  index of the end of the line, without its terminator.
\<close>

fun ScanLine :: "string \<Rightarrow> nat \<Rightarrow> bool \<Rightarrow> nat option" where
  "ScanLine [] i saw_cr = None"
| "ScanLine (c # cs) i saw_cr =
     (if c = kCR then ScanLine cs (Suc i) True
      else if c = kLF then Some (if saw_cr then i - 1 else i)
      else ScanLine cs (Suc i) False)"

definition PeekLine :: "string \<Rightarrow> nat option" where
  "PeekLine buf = ScanLine buf 0 False"

section \<open>The request parser\<close>

text \<open>
  The return codes of \<open>TryParseOne\<close>: 1 with the command and the buffer that is left, 0, and
  -1 with the error message it stores.
\<close>

datatype parse_rc =
    Parsed "string list" string
  | NeedMore
  | ProtoError string

definition IsBlank :: "char \<Rightarrow> bool" where
  "IsBlank c \<longleftrightarrow> c = CHR '' '' \<or> c = CHR 0x09"

text \<open>The tokenising loop of \<open>TryParseInline\<close>, on the line.\<close>

function SplitInline :: "string \<Rightarrow> string list" where
  "SplitInline s =
     (if s = [] then []
      else let t = dropWhile IsBlank s;
               tok = takeWhile (\<lambda>c. \<not> IsBlank c) t;
               rest = dropWhile (\<lambda>c. \<not> IsBlank c) t
           in if tok \<noteq> [] then tok # SplitInline rest else SplitInline rest)"
  by pat_completeness auto
termination
proof (relation "measure length", goal_cases)
  case 1
  show ?case by simp
next
  case (2 s t tok rest)
  have "length tok + length rest = length t" and "length t \<le> length s"
    using 2 takeWhile_dropWhile_id [of "\<lambda>c. \<not> IsBlank c" t]
    by (metis length_append, simp add: length_dropWhile_le)
  moreover have "0 < length tok" using 2 by simp
  ultimately show ?case unfolding in_measure by linarith
next
  case (3 s t tok rest)
  have "\<not> IsBlank c" if "t = c # cs" for c cs
    using 3 that by (metis dropWhile_eq_Cons_conv)
  then have "t = []" using 3(3,5) by (cases t) auto
  with 3 show ?case by simp
qed

declare SplitInline.simps [simp del]

definition TryParseInline :: "string \<Rightarrow> parse_rc" where
  "TryParseInline buf =
     (case PeekLine buf of
        None \<Rightarrow>
          if length buf > kMaxInlineBytes
          then ProtoError ''ERR Protocol error: too big inline request''
          else NeedMore
      | Some line_len \<Rightarrow>
          Parsed (SplitInline (take line_len buf))
                 (drop (line_len + (if IsCrLfAt buf line_len then 2 else 1)) buf))"

text \<open>
  Reading a length: not empty, digits only, and within the range of \<open>std::stoll\<close>, whose
  exception the code catches.
\<close>

definition ReadLength :: "string \<Rightarrow> nat option" where
  "ReadLength s =
     (if s = [] \<or> \<not> list_all is_digit s then None
      else if int (dec_val s) > LLONG_MAX then None
      else Some (dec_val s))"

text \<open>
  The body of the element loop of \<open>TryParseMultiBulk\<close> at position \<open>pos\<close>: the bulk string
  and the position after its CRLF, or the return code.
\<close>

definition ReadBulk :: "string \<Rightarrow> nat \<Rightarrow> parse_rc + string \<times> nat" where
  "ReadBulk buf pos =
     (if pos \<ge> length buf then Inl NeedMore
      else if buf ! pos \<noteq> CHR ''$''
      then Inl (ProtoError (''ERR Protocol error: expected '' @ [CHR 0x27] @ ''$'' @ [CHR 0x27] @
                            '', got '' @ [CHR 0x27] @ [buf ! pos] @ [CHR 0x27]))
      else case ScanLine (drop pos buf) pos False of
        None \<Rightarrow>
          if length buf - pos > 32
          then Inl (ProtoError ''ERR Protocol error: invalid bulk length'')
          else Inl NeedMore
      | Some len_line \<Rightarrow>
          (case ReadLength (take (len_line - (pos + 1)) (drop (pos + 1) buf)) of
             None \<Rightarrow> Inl (ProtoError ''ERR Protocol error: invalid bulk length'')
           | Some bulk_len \<Rightarrow>
               if bulk_len > kMaxBulkBytes
               then Inl (ProtoError ''ERR Protocol error: invalid bulk length'')
               else let after_len = len_line + (if IsCrLfAt buf len_line then 2 else 1);
                        tail = after_len + bulk_len
                    in if length buf < after_len + bulk_len + 2 then Inl NeedMore
                       else if buf ! tail \<noteq> kCR \<or> buf ! (tail + 1) \<noteq> kLF
                       then Inl (ProtoError ''ERR Protocol error: expected CRLF after bulk data'')
                       else Inr (take bulk_len (drop after_len buf), tail + 2)))"

fun BulkLoop :: "string \<Rightarrow> nat \<Rightarrow> nat \<Rightarrow> string list \<Rightarrow> parse_rc" where
  "BulkLoop buf 0 pos out = Parsed out (drop pos buf)"
| "BulkLoop buf (Suc k) pos out =
     (case ReadBulk buf pos of
        Inl rc \<Rightarrow> rc
      | Inr (s, pos') \<Rightarrow> BulkLoop buf k pos' (out @ [s]))"

definition TryParseMultiBulk :: "string \<Rightarrow> parse_rc" where
  "TryParseMultiBulk buf =
     (case PeekLine buf of
        None \<Rightarrow>
          if length buf > 32 then ProtoError ''ERR Protocol error: invalid multibulk length''
          else NeedMore
      | Some line_len \<Rightarrow>
          (case ReadLength (take (line_len - 1) (drop 1 buf)) of
             None \<Rightarrow> ProtoError ''ERR Protocol error: invalid multibulk length''
           | Some count \<Rightarrow>
               if count > kMaxMultiBulkElements
               then ProtoError ''ERR Protocol error: invalid multibulk length''
               else let pos = line_len + (if IsCrLfAt buf line_len then 2 else 1)
                    in if count = 0 then Parsed [] (drop pos buf)
                       else if length buf < pos then NeedMore
                       else BulkLoop buf count pos []))"

definition TryParseOne :: "string \<Rightarrow> parse_rc" where
  "TryParseOne buf =
     (if buf = [] then NeedMore
      else if buf ! 0 = CHR ''*'' then TryParseMultiBulk buf
      else TryParseInline buf)"

subsection \<open>A successful parse consumes bytes\<close>

lemma ScanLine_bounds:
  "ScanLine cs i saw = Some n \<Longrightarrow> (saw \<Longrightarrow> 0 < i) \<Longrightarrow> i - 1 \<le> n \<and> n < i + length cs"
  by (induction cs i saw rule: ScanLine.induct) (fastforce split: if_splits)+

lemma PeekLine_bound: "PeekLine buf = Some n \<Longrightarrow> n < length buf"
  using ScanLine_bounds [of buf 0 False n] by (simp add: PeekLine_def)

lemma ReadBulk_not_Parsed: "ReadBulk buf pos \<noteq> Inl (Parsed cmd rest)"
  by (auto simp: ReadBulk_def Let_def split: option.splits)

lemma ReadBulk_advances: "ReadBulk buf pos = Inr (s, pos') \<Longrightarrow> pos < pos' \<and> pos' \<le> length buf"
  by (fastforce simp: ReadBulk_def Let_def split: option.splits if_splits dest!: ScanLine_bounds)

lemma BulkLoop_Parsed_suffix:
  "BulkLoop buf k pos out = Parsed cmd rest \<Longrightarrow> \<exists>n\<ge>pos. rest = drop n buf"
proof (induction k arbitrary: pos out)
  case 0
  then show ?case by auto
next
  case (Suc k)
  then obtain s pos' where rb: "ReadBulk buf pos = Inr (s, pos')"
    and "BulkLoop buf k pos' (out @ [s]) = Parsed cmd rest"
    by (auto split: sum.splits simp: ReadBulk_not_Parsed)
  with Suc.IH obtain n where "pos' \<le> n" "rest = drop n buf" by blast
  with ReadBulk_advances [OF rb] show ?case by (intro exI [of _ n]) simp
qed

lemma TryParseOne_suffix:
  assumes "TryParseOne buf = Parsed cmd rest"
  shows "\<exists>n>0. n \<le> length buf \<and> rest = drop n buf"
proof -
  from assms have ne: "buf \<noteq> []" by (auto simp: TryParseOne_def)
  have "\<exists>n>0. rest = drop n buf"
  proof (cases "buf ! 0 = CHR ''*''")
    case True
    with assms ne have "TryParseMultiBulk buf = Parsed cmd rest" by (simp add: TryParseOne_def)
    then obtain n pos where "rest = drop n buf" "pos \<le> n" "0 < pos"
      by (fastforce simp: TryParseMultiBulk_def Let_def split: option.splits if_splits
          dest!: BulkLoop_Parsed_suffix)
    then show ?thesis by (auto intro: exI [of _ n])
  next
    case False
    with assms ne show ?thesis
      by (auto simp: TryParseOne_def TryParseInline_def split: option.splits if_splits)
  qed
  then obtain n where "n > 0" "rest = drop n buf" by blast
  with ne show ?thesis
    by (intro exI [of _ "min n (length buf)"]) (auto simp: min_def)
qed

corollary TryParseOne_consumes:
  "TryParseOne buf = Parsed cmd rest \<Longrightarrow> length rest < length buf"
  using TryParseOne_suffix [of buf cmd rest] by auto

subsection \<open>Parsing everything that is buffered\<close>

record request_parser =
  parser_buf :: string
  parser_error :: string

definition fresh_parser :: request_parser where
  "fresh_parser = \<lparr>parser_buf = [], parser_error = []\<rparr>"

definition has_error :: "request_parser \<Rightarrow> bool" where
  "has_error p \<longleftrightarrow> parser_error p \<noteq> []"

definition reset :: "request_parser \<Rightarrow> request_parser" where
  "reset p = p\<lparr>parser_buf := [], parser_error := []\<rparr>"

text \<open>The loop of \<open>ParseBuffered\<close>: the commands, the buffer left and the error, if any.\<close>

function ParseLoop :: "string \<Rightarrow> string list list \<times> string \<times> string" where
  "ParseLoop buf =
     (case TryParseOne buf of
        Parsed argv rest \<Rightarrow>
          (let (cmds, buf', err) = ParseLoop rest in (argv # cmds, buf', err))
      | NeedMore \<Rightarrow> ([], buf, [])
      | ProtoError msg \<Rightarrow> ([], buf, msg))"
  by pat_completeness auto
termination
  by (relation "measure length") (auto dest: TryParseOne_consumes)

declare ParseLoop.simps [simp del]

definition ParseBuffered :: "request_parser \<Rightarrow> request_parser \<times> string list list" where
  "ParseBuffered p =
     (if has_error p then (p, [])
      else let (cmds, buf', err) = ParseLoop (parser_buf p)
           in (p\<lparr>parser_buf := buf', parser_error := err\<rparr>, cmds))"

definition Feed :: "request_parser \<Rightarrow> string \<Rightarrow> request_parser \<times> string list list" where
  "Feed p data =
     (let p' = (if has_error p then p
                else let p1 = p\<lparr>parser_buf := parser_buf p @ data\<rparr>
                     in if length (parser_buf p1) > kMaxBulkBytes
                        then p1\<lparr>parser_error := ''ERR Protocol error: too big request buffer''\<rparr>
                        else p1)
      in ParseBuffered p')"

text \<open>The reads of one connection, in order.\<close>

fun FeedAll :: "request_parser \<Rightarrow> string list \<Rightarrow> request_parser \<times> string list list" where
  "FeedAll p [] = (p, [])"
| "FeedAll p (d # ds) =
     (let (p1, cmds1) = Feed p d; (p2, cmds2) = FeedAll p1 ds in (p2, cmds1 @ cmds2))"

section \<open>Reply encoders\<close>

definition AppendSimpleReply :: "string \<Rightarrow> string \<Rightarrow> string" where
  "AppendSimpleReply out s = out @ ''+'' @ s @ CRLF"

definition AppendErrorReply :: "string \<Rightarrow> string \<Rightarrow> string" where
  "AppendErrorReply out s = out @ ''-'' @ s @ CRLF"

definition AppendIntReply :: "string \<Rightarrow> int \<Rightarrow> string" where
  "AppendIntReply out v = out @ '':'' @ int_str v @ CRLF"

definition AppendBulkReply :: "string \<Rightarrow> string \<Rightarrow> string" where
  "AppendBulkReply out s = out @ ''$'' @ nat_str (length s) @ CRLF @ s @ CRLF"

definition AppendNullBulkReply :: "string \<Rightarrow> string" where
  "AppendNullBulkReply out = out @ ''$-1'' @ CRLF"

definition AppendArrayReply :: "string \<Rightarrow> int \<Rightarrow> string" where
  "AppendArrayReply out n = out @ ''*'' @ int_str n @ CRLF"

definition AppendNullArrayReply :: "string \<Rightarrow> string" where
  "AppendNullArrayReply out = out @ ''*-1'' @ CRLF"

definition AppendEmptyArrayReply :: "string \<Rightarrow> string" where
  "AppendEmptyArrayReply out = out @ ''*0'' @ CRLF"

definition AppendBulkArray :: "string \<Rightarrow> string list \<Rightarrow> string" where
  "AppendBulkArray out items =
     foldl AppendBulkReply (AppendArrayReply out (int (length items))) items"

lemma AppendBulkReply_out: "AppendBulkReply out s = out @ AppendBulkReply [] s"
  by (simp add: AppendBulkReply_def)

lemma foldl_AppendBulkReply:
  "foldl AppendBulkReply out items = out @ concat (map (AppendBulkReply []) items)"
proof (induction items arbitrary: out)
  case (Cons s items)
  then show ?case by (simp add: AppendBulkReply_out [of out])
qed simp

lemma AppendBulkArray_eq:
  "AppendBulkArray out items =
     out @ ''*'' @ nat_str (length items) @ CRLF @ concat (map (AppendBulkReply []) items)"
  by (simp add: AppendBulkArray_def foldl_AppendBulkReply AppendArrayReply_def int_str_def)

section \<open>Requests as clients send them\<close>

text \<open>
  A client sends a command as an array of bulk strings, the format \<open>AppendBulkArray\<close> writes.
  A command is within the parser's limits when it has at most \<open>kMaxMultiBulkElements\<close>
  arguments of at most \<open>kMaxBulkBytes\<close> bytes each.
\<close>

definition encode_command :: "string list \<Rightarrow> string" where
  "encode_command argv = AppendBulkArray [] argv"

definition within_limits :: "string list \<Rightarrow> bool" where
  "within_limits argv \<longleftrightarrow>
     length argv \<le> kMaxMultiBulkElements \<and> (\<forall>a\<in>set argv. length a \<le> kMaxBulkBytes)"

subsection \<open>Scanning a header line\<close>

definition no_eol :: "string \<Rightarrow> bool" where
  "no_eol s \<longleftrightarrow> kCR \<notin> set s \<and> kLF \<notin> set s"

lemma no_eol_nat_str [simp]: "no_eol (nat_str n)"
  using is_digit_neq nat_str_digit_mem by (force simp: no_eol_def)

lemma no_eol_Cons [simp]: "no_eol (c # s) \<longleftrightarrow> c \<noteq> kCR \<and> c \<noteq> kLF \<and> no_eol s"
  by (auto simp: no_eol_def)

lemma ScanLine_CRLF: "no_eol s \<Longrightarrow> ScanLine (s @ kCR # kLF # r) i False = Some (i + length s)"
  by (induction s arbitrary: i) auto

lemma ScanLine_None: "kLF \<notin> set s \<Longrightarrow> ScanLine s i saw = None"
  by (induction s i saw rule: ScanLine.induct) auto

lemma ReadLength_nat_str: "int n \<le> LLONG_MAX \<Longrightarrow> ReadLength (nat_str n) = Some n"
  by (simp add: ReadLength_def)

lemma strict_prefix_line:
  assumes "strict_prefix q (s @ [kCR, kLF])" and "no_eol s"
  shows "kLF \<notin> set q" and "length q \<le> Suc (length s)"
proof -
  from assms(1) have "prefix q (s @ [kCR])"
    using prefix_snoc [of q "s @ [kCR]" kLF] by (auto simp: strict_prefix_def)
  then show "kLF \<notin> set q" and "length q \<le> Suc (length s)"
    using assms(2) set_mono_prefix [of q "s @ [kCR]"] prefix_length_le [of q "s @ [kCR]"]
    by (auto simp: no_eol_def)
qed

lemma strict_prefix_appendE:
  assumes "strict_prefix q (h @ t)"
  obtains "strict_prefix q h" | q' where "q = h @ q'" "strict_prefix q' t"
proof -
  from assms have "prefix q (h @ t)" "q \<noteq> h @ t" by (auto simp: strict_prefix_def)
  then consider "prefix q h" | us where "q = h @ us" "prefix us t"
    by (auto simp: prefix_append)
  then show thesis
  proof cases
    case 1
    show thesis
    proof (cases "q = h")
      case True
      with \<open>q \<noteq> h @ t\<close> that(2) [of "[]"] show thesis by (simp add: strict_prefix_def)
    next
      case False
      with 1 that(1) show thesis by (simp add: strict_prefix_def)
    qed
  next
    case (2 us)
    with \<open>q \<noteq> h @ t\<close> that(2) [of us] show thesis by (auto simp: strict_prefix_def)
  qed
qed

subsection \<open>One bulk string\<close>

lemma bulk_len_LLONG: "n \<le> kMaxBulkBytes \<Longrightarrow> int n \<le> LLONG_MAX"
  by (simp add: kMaxBulkBytes_def LLONG_MAX_def)

lemma bulk_digits: "n \<le> kMaxBulkBytes \<Longrightarrow> length (nat_str n) \<le> 9"
  by (rule length_nat_str) (simp_all add: kMaxBulkBytes_def)

lemma ReadBulk_bulk:
  assumes "length s \<le> kMaxBulkBytes"
  shows "ReadBulk (pre @ AppendBulkReply [] s @ r) (length pre)
         = Inr (s, length pre + length (AppendBulkReply [] s))"
proof -
  let ?d = "nat_str (length s)" and ?b = "pre @ AppendBulkReply [] s @ r"
  let ?p = "length pre"
  let ?l = "?p + Suc (length ?d)"
  have b: "?b = pre @ CHR ''$'' # ?d @ kCR # kLF # s @ kCR # kLF # r"
    by (simp add: AppendBulkReply_def)
  have b2: "?b = (pre @ CHR ''$'' # ?d) @ kCR # kLF # s @ kCR # kLF # r" by (simp add: b)
  have b3: "?b = (pre @ CHR ''$'' # ?d @ [kCR, kLF]) @ s @ kCR # kLF # r" by (simp add: b)
  have b4: "?b = (pre @ CHR ''$'' # ?d @ [kCR, kLF] @ s) @ kCR # kLF # r" by (simp add: b)
  have scan: "ScanLine (drop ?p ?b) ?p False = Some ?l"
    using ScanLine_CRLF [of "CHR ''$'' # ?d"] by (simp add: b)
  have num: "take (?l - (?p + 1)) (drop (?p + 1) ?b) = ?d" by (simp add: b)
  have crlf: "IsCrLfAt ?b ?l" unfolding b2 by (simp add: IsCrLfAt_def nth_append)
  have cont: "take (length s) (drop (?l + 2) ?b) = s"
    unfolding b3 by (subst drop_exact) simp_all
  have tail: "?b ! (?l + 2 + length s) = kCR" "?b ! (?l + 2 + length s + 1) = kLF"
    unfolding b4 by (simp_all add: nth_append)
  have len: "length ?b = ?l + 2 + length s + 2 + length r" by (simp add: b)
  have "?b ! ?p = CHR ''$''" by (simp add: b)
  then show ?thesis
    using assms scan num crlf cont tail len
    by (simp add: ReadBulk_def ReadLength_nat_str bulk_len_LLONG Let_def AppendBulkReply_def)
qed

lemma ReadBulk_partial:
  assumes "length s \<le> kMaxBulkBytes" and q: "strict_prefix q (AppendBulkReply [] s)"
  shows "ReadBulk (pre @ q) (length pre) = Inl NeedMore"
proof (cases q)
  case Nil
  then show ?thesis by (simp add: ReadBulk_def)
next
  case (Cons c q1)
  let ?d = "nat_str (length s)"
  let ?h = "(CHR ''$'' # ?d) @ [kCR, kLF]" and ?t = "s @ [kCR, kLF]"
  have dollar: "c = CHR ''$''"
    using q Cons by (simp add: AppendBulkReply_def strict_prefix_def)
  have "strict_prefix q (?h @ ?t)" using q by (simp add: AppendBulkReply_def)
  then show ?thesis
  proof (rule strict_prefix_appendE)
    assume "strict_prefix q ?h"
    then have "kLF \<notin> set q" "length q \<le> Suc (Suc (length ?d))"
      using strict_prefix_line [of q "CHR ''$'' # ?d"] by simp_all
    with bulk_digits [OF assms(1)] dollar Cons show ?thesis
      by (simp add: ReadBulk_def ScanLine_None)
  next
    fix q' assume q': "q = ?h @ q'" "strict_prefix q' ?t"
    let ?l = "length pre + Suc (length ?d)"
    have "prefix q' ?t" "q' \<noteq> ?t" using q'(2) by (auto simp: strict_prefix_def)
    then have lt: "length q' < length s + 2" using prefix_length_less [OF q'(2)] by simp
    have b: "pre @ q = pre @ CHR ''$'' # ?d @ kCR # kLF # q'" by (simp add: q'(1))
    have scan: "ScanLine (drop (length pre) (pre @ q)) (length pre) False = Some ?l"
      using ScanLine_CRLF [of "CHR ''$'' # ?d"] by (simp add: b)
    have num: "take (?l - (length pre + 1)) (drop (length pre + 1) (pre @ q)) = ?d"
      by (simp add: b)
    have b2: "pre @ q = (pre @ CHR ''$'' # ?d) @ kCR # kLF # q'" by (simp add: b)
    have crlf: "IsCrLfAt (pre @ q) ?l" unfolding b2 by (simp add: IsCrLfAt_def nth_append)
    have "(pre @ q) ! length pre = CHR ''$''" "length pre < length (pre @ q)" by (simp_all add: b)
    moreover have "length (pre @ q) < ?l + 2 + length s + 2" using lt by (simp add: b)
    ultimately show ?thesis
      using assms(1) scan num crlf
      by (simp add: ReadBulk_def ReadLength_nat_str bulk_len_LLONG Let_def)
  qed
qed

subsection \<open>A whole command\<close>

lemma BulkLoop_bulks:
  assumes "\<forall>a\<in>set args. length a \<le> kMaxBulkBytes"
  shows "BulkLoop (pre @ concat (map (AppendBulkReply []) args) @ r) (length args) (length pre) out
         = Parsed (out @ args) r"
  using assms
proof (induction args arbitrary: pre out)
  case (Cons a args)
  have "ReadBulk (pre @ AppendBulkReply [] a @ concat (map (AppendBulkReply []) args) @ r)
          (length pre) = Inr (a, length (pre @ AppendBulkReply [] a))"
    using ReadBulk_bulk [of a] Cons.prems by simp
  with Cons.IH [of "pre @ AppendBulkReply [] a" "out @ [a]"] Cons.prems show ?case by simp
qed simp

lemma BulkLoop_partial:
  assumes "\<forall>a\<in>set args. length a \<le> kMaxBulkBytes"
    and "strict_prefix q (concat (map (AppendBulkReply []) args))"
  shows "BulkLoop (pre @ q) (length args) (length pre) out = NeedMore"
  using assms
proof (induction args arbitrary: pre q out)
  case (Cons a args)
  have a: "length a \<le> kMaxBulkBytes" using Cons.prems by simp
  have "strict_prefix q (AppendBulkReply [] a @ concat (map (AppendBulkReply []) args))"
    using Cons.prems by simp
  then show ?case
  proof (rule strict_prefix_appendE)
    assume "strict_prefix q (AppendBulkReply [] a)"
    then show ?thesis by (simp add: ReadBulk_partial [OF a])
  next
    fix q' assume q': "q = AppendBulkReply [] a @ q'"
      "strict_prefix q' (concat (map (AppendBulkReply []) args))"
    have "ReadBulk (pre @ q) (length pre) = Inr (a, length (pre @ AppendBulkReply [] a))"
      using ReadBulk_bulk [OF a, of pre q'] by (simp add: q'(1))
    with Cons.IH [of q' "pre @ AppendBulkReply [] a" "out @ [a]"] Cons.prems q' show ?thesis
      by simp
  qed
qed simp

lemma command_digits: "n \<le> kMaxMultiBulkElements \<Longrightarrow> length (nat_str n) \<le> 4"
  by (rule length_nat_str) (simp_all add: kMaxMultiBulkElements_def)

lemma command_len_LLONG: "n \<le> kMaxMultiBulkElements \<Longrightarrow> int n \<le> LLONG_MAX"
  by (simp add: kMaxMultiBulkElements_def LLONG_MAX_def)

lemma encode_command_eq:
  "encode_command argv =
     (CHR ''*'' # nat_str (length argv) @ [kCR, kLF]) @ concat (map (AppendBulkReply []) argv)"
  by (simp add: encode_command_def AppendBulkArray_eq)

text \<open>What the parser sees once the header line is complete.\<close>

lemma TryParseOne_header:
  assumes "n \<le> kMaxMultiBulkElements"
  shows "TryParseOne ((CHR ''*'' # nat_str n @ [kCR, kLF]) @ r) =
           (if n = 0 then Parsed [] r
            else BulkLoop ((CHR ''*'' # nat_str n @ [kCR, kLF]) @ r) n
                   (length (CHR ''*'' # nat_str n @ [kCR, kLF])) [])"
proof -
  let ?d = "nat_str n"
  let ?b = "(CHR ''*'' # ?d @ [kCR, kLF]) @ r"
  let ?l = "Suc (length ?d)"
  have b2: "?b = (CHR ''*'' # ?d) @ kCR # kLF # r" by simp
  have peek: "PeekLine ?b = Some ?l"
    using ScanLine_CRLF [of "CHR ''*'' # ?d"] by (simp add: PeekLine_def)
  have crlf: "IsCrLfAt ?b ?l" unfolding b2 by (simp add: IsCrLfAt_def nth_append)
  have num: "take (?l - 1) (drop 1 ?b) = ?d" by simp
  have rest: "drop (?l + 2) ?b = r" by (subst drop_exact) simp_all
  have "TryParseOne ?b = TryParseMultiBulk ?b" by (simp add: TryParseOne_def)
  also have "\<dots> = (if n = 0 then Parsed [] r else BulkLoop ?b n (?l + 2) [])"
    unfolding TryParseMultiBulk_def peek option.case num
      ReadLength_nat_str [OF command_len_LLONG [OF assms]]
    using assms crlf rest by (simp add: Let_def)
  finally show ?thesis by simp
qed

lemma TryParseOne_encode:
  assumes "within_limits argv"
  shows "TryParseOne (encode_command argv @ r) = Parsed argv r"
proof -
  let ?h = "CHR ''*'' # nat_str (length argv) @ [kCR, kLF]"
  let ?bs = "concat (map (AppendBulkReply []) argv)"
  have n: "length argv \<le> kMaxMultiBulkElements" and a: "\<forall>a\<in>set argv. length a \<le> kMaxBulkBytes"
    using assms by (simp_all add: within_limits_def)
  have e: "encode_command argv @ r = ?h @ ?bs @ r" by (simp add: encode_command_eq)
  show ?thesis
    unfolding e TryParseOne_header [OF n] BulkLoop_bulks [OF a] by simp
qed

lemma TryParseOne_partial:
  assumes "within_limits argv" and q: "strict_prefix q (encode_command argv)"
  shows "TryParseOne q = NeedMore"
proof -
  let ?d = "nat_str (length argv)"
  let ?h = "CHR ''*'' # ?d @ [kCR, kLF]"
  let ?bs = "concat (map (AppendBulkReply []) argv)"
  have n: "length argv \<le> kMaxMultiBulkElements" and a: "\<forall>a\<in>set argv. length a \<le> kMaxBulkBytes"
    using assms by (simp_all add: within_limits_def)
  have "strict_prefix q (?h @ ?bs)" using q by (simp only: encode_command_eq)
  then show ?thesis
  proof (rule strict_prefix_appendE)
    assume h: "strict_prefix q ?h"
    then have "kLF \<notin> set q" "length q \<le> Suc (Suc (length ?d))"
      using strict_prefix_line [of q "CHR ''*'' # ?d"] by simp_all
    moreover from h have "q = [] \<or> q ! 0 = CHR ''*''"
      by (cases q) (auto simp: strict_prefix_def)
    ultimately show ?thesis using command_digits [OF n]
      by (auto simp: TryParseOne_def TryParseMultiBulk_def PeekLine_def ScanLine_None)
  next
    fix q' assume q': "q = ?h @ q'" "strict_prefix q' ?bs"
    then have "length argv \<noteq> 0" by auto
    then show ?thesis
      unfolding q'(1) TryParseOne_header [OF n] BulkLoop_partial [OF a q'(2)] by simp
  qed
qed

subsection \<open>A stream of commands, in any fragments\<close>

abbreviation encode_stream :: "string list list \<Rightarrow> string" where
  "encode_stream cs \<equiv> concat (map encode_command cs)"

lemma ParseLoop_stream:
  assumes "\<forall>c\<in>set cs. within_limits c" and "TryParseOne q = NeedMore"
  shows "ParseLoop (encode_stream cs @ q) = (cs, q, [])"
  using assms
proof (induction cs)
  case Nil
  then show ?case by (simp add: ParseLoop.simps)
next
  case (Cons c cs)
  then show ?case
    using TryParseOne_encode [of c "encode_stream cs @ q"]
    by (simp add: ParseLoop.simps [of "encode_command c @ _"])
qed

lemma stream_prefix_split:
  assumes "\<forall>c\<in>set cs. within_limits c" and "prefix p (encode_stream cs)"
  obtains cs1 cs2 q where "cs = cs1 @ cs2" "p = encode_stream cs1 @ q" "TryParseOne q = NeedMore"
proof -
  have "\<exists>cs1 cs2 q. cs = cs1 @ cs2 \<and> p = encode_stream cs1 @ q \<and> TryParseOne q = NeedMore"
    using assms
  proof (induction cs arbitrary: p)
    case Nil
    then show ?case by (simp add: TryParseOne_def)
  next
    case (Cons c cs)
    show ?case
    proof (cases "strict_prefix p (encode_command c)")
      case True
      then show ?thesis
        using TryParseOne_partial [of c p] Cons.prems
        by (intro exI [of _ "[]"] exI [of _ "c # cs"] exI [of _ p]) simp
    next
      case False
      with Cons.prems(2) obtain p' where p': "p = encode_command c @ p'" "prefix p' (encode_stream cs)"
        by (auto simp: prefix_append strict_prefix_def)
      with Cons.IH [of p'] Cons.prems(1) obtain cs1 cs2 q where
        "cs = cs1 @ cs2" "p' = encode_stream cs1 @ q" "TryParseOne q = NeedMore" by auto
      with p' show ?thesis
        by (intro exI [of _ "c # cs1"] exI [of _ cs2] exI [of _ q]) simp
    qed
  qed
  with that show thesis by blast
qed

lemma FeedAll_stream:
  assumes "\<forall>c\<in>set cs. within_limits c" and "TryParseOne b = NeedMore"
    and "b @ concat chunks = encode_stream cs" and "length (encode_stream cs) \<le> kMaxBulkBytes"
  shows "FeedAll \<lparr>parser_buf = b, parser_error = []\<rparr> chunks
         = (\<lparr>parser_buf = [], parser_error = []\<rparr>, cs)"
  using assms
proof (induction chunks arbitrary: b cs)
  case Nil
  then have "cs = []"
    using TryParseOne_encode by (cases cs) auto
  with Nil show ?case by simp
next
  case (Cons d ds)
  then have "prefix (b @ d) (encode_stream cs)" by (metis append.assoc concat.simps(2) prefixI)
  then obtain cs1 cs2 q where split: "cs = cs1 @ cs2" "b @ d = encode_stream cs1 @ q"
    and q: "TryParseOne q = NeedMore"
    using stream_prefix_split Cons.prems(1) by metis
  have "length (b @ d) \<le> kMaxBulkBytes"
    using Cons.prems(3,4) by (metis append.assoc concat.simps(2) length_append le_add1 order_trans)
  then have "Feed \<lparr>parser_buf = b, parser_error = []\<rparr> d = (\<lparr>parser_buf = q, parser_error = []\<rparr>, cs1)"
    using ParseLoop_stream [OF _ q, of cs1] Cons.prems(1) split
    by (simp add: Feed_def ParseBuffered_def has_error_def)
  moreover have "FeedAll \<lparr>parser_buf = q, parser_error = []\<rparr> ds = (\<lparr>parser_buf = [], parser_error = []\<rparr>, cs2)"
  proof (rule Cons.IH)
    have "encode_stream cs1 @ q @ concat ds = encode_stream cs1 @ encode_stream cs2"
      using Cons.prems(3) split by (metis append.assoc concat.simps(2) concat_append map_append)
    then show "q @ concat ds = encode_stream cs2" by simp
  qed (use Cons.prems split q in auto)
  ultimately show ?case using split by simp
qed

subsection \<open>Inline requests\<close>

lemma SplitInline_Nil [simp]: "SplitInline [] = []"
  by (simp add: SplitInline.simps)



subsection \<open>What stays in the buffer\<close>

lemma TryParseOne_message: "TryParseOne buf \<noteq> ProtoError []"
proof -
  have "ReadBulk buf pos \<noteq> Inl (ProtoError [])" for pos
    by (auto simp: ReadBulk_def Let_def split: option.splits)
  then have "BulkLoop buf k pos out \<noteq> ProtoError []" for k pos out
    by (induction k arbitrary: pos out) (auto split: sum.splits)
  then show ?thesis
    by (auto simp: TryParseOne_def TryParseMultiBulk_def TryParseInline_def Let_def split: option.splits)
qed

lemma ParseLoop_left:
  "ParseLoop buf = (cmds, buf', []) \<Longrightarrow> TryParseOne buf' = NeedMore \<and> suffix buf' buf"
proof (induction buf arbitrary: cmds rule: ParseLoop.induct)
  case (1 buf)
  show ?case
  proof (cases "TryParseOne buf")
    case (Parsed argv rest)
    with 1(2) obtain cmds' where "ParseLoop rest = (cmds', buf', [])"
      by (auto simp: ParseLoop.simps [of buf] split: prod.splits)
    with 1(1) [OF Parsed] have "TryParseOne buf' = NeedMore \<and> suffix buf' rest" by blast
    moreover have "suffix rest buf" using TryParseOne_suffix [OF Parsed] by (auto simp: suffix_drop)
    ultimately show ?thesis using suffix_order.order_trans by blast
  next
    case NeedMore
    with 1(2) show ?thesis by (auto simp: ParseLoop.simps [of buf])
  next
    case (ProtoError msg)
    with 1(2) TryParseOne_message [of buf] show ?thesis by (auto simp: ParseLoop.simps [of buf])
  qed
qed

section \<open>Properties\<close>

lemmas feed_eval = Feed_def ParseBuffered_def has_error_def ParseLoop.simps TryParseOne_def
  TryParseInline_def TryParseMultiBulk_def PeekLine_def ReadLength_def ReadBulk_def SplitInline.simps
  IsBlank_def IsCrLfAt_def kMaxBulkBytes_def kMaxInlineBytes_def kMaxMultiBulkElements_def
  fresh_parser_def LLONG_MAX_def is_digit_def dec_val_def digit_val_def Let_def

text \<open>
  C2: a client that sends any commands within the parser's limits, encoded as arrays of bulk
  strings, is understood however the network cuts the bytes: whatever the reads are, the
  parser returns exactly those commands, in order, and ends with an empty buffer and no error.
\<close>

theorem feed_fragmentation_roundtrip:
  assumes "\<forall>c\<in>set cs. within_limits c" and "concat chunks = encode_stream cs"
    and "length (encode_stream cs) \<le> kMaxBulkBytes"
  shows "FeedAll fresh_parser chunks = (fresh_parser, cs)"
  using FeedAll_stream [of cs "[]" chunks] assms by (simp add: fresh_parser_def TryParseOne_def)

theorem feed_fragmentation_roundtrip_witness:
  "FeedAll fresh_parser [''*2'' @ [CHR 0x0D], [CHR 0x0A] @ ''$3'' @ CRLF @ ''GE'', ''T'' @ CRLF @ ''$1'' @ CRLF @ ''k'' @ CRLF]
     = (fresh_parser, [[''GET'', ''k'']])"
  by (rule feed_fragmentation_roundtrip, simp_all add: within_limits_def kMaxBulkBytes_def
      kMaxMultiBulkElements_def encode_command_def AppendBulkArray_eq AppendBulkReply_def nat_str.simps
      digit_char_def) code_simp

text \<open>
  C7: after any read that ends without a protocol error the buffer holds no complete request:
  the parser asks for more bytes on what is left, and what is left is the end of the bytes it
  was given.
\<close>

theorem feed_leaves_incomplete_request:
  assumes "Feed p data = (p', cmds)" and "\<not> has_error p'"
  shows "TryParseOne (parser_buf p') = NeedMore \<and> suffix (parser_buf p') (parser_buf p @ data)"
proof -
  let ?b = "parser_buf p @ data"
  from assms have "\<not> has_error p"
    by (auto simp: Feed_def ParseBuffered_def has_error_def Let_def split: if_splits prod.splits)
  with assms have "ParseLoop ?b = (cmds, parser_buf p', [])"
    by (auto simp: Feed_def ParseBuffered_def has_error_def Let_def split: if_splits prod.splits)
  from ParseLoop_left [OF this] show ?thesis by simp
qed

theorem feed_leaves_incomplete_request_witness:
  "Feed fresh_parser (''PING'' @ CRLF @ ''*1'' @ CRLF) =
     (\<lparr>parser_buf = ''*1'' @ CRLF, parser_error = []\<rparr>, [[''PING'']]) \<and>
   TryParseOne (''*1'' @ CRLF) = NeedMore \<and>
   suffix (''*1'' @ CRLF) (''PING'' @ CRLF @ ''*1'' @ CRLF)"
proof -
  have f: "Feed fresh_parser (''PING'' @ CRLF @ ''*1'' @ CRLF) =
     (\<lparr>parser_buf = ''*1'' @ CRLF, parser_error = []\<rparr>, [[''PING'']])"
    by (simp add: feed_eval)
  have "\<not> has_error \<lparr>parser_buf = ''*1'' @ CRLF, parser_error = []\<rparr>" by (simp add: has_error_def)
  from feed_leaves_incomplete_request [OF f this] f show ?thesis by (simp add: fresh_parser_def)
qed

text \<open>
  C8: a protocol error is final until the parser is reset: the parser then ignores every
  later byte, returns no command and keeps buffer and message as they are.
\<close>

theorem protocol_error_is_sticky:
  assumes "has_error p"
  shows "FeedAll p chunks = (p, []) \<and> \<not> has_error (reset p)"
proof -
  have "FeedAll p chunks = (p, [])"
    using assms by (induction chunks) (simp_all add: Feed_def ParseBuffered_def)
  then show ?thesis by (simp add: reset_def has_error_def)
qed

theorem protocol_error_is_sticky_witness:
  "FeedAll (fst (Feed fresh_parser (''*x'' @ CRLF))) [''PING'' @ CRLF] =
     (\<lparr>parser_buf = ''*x'' @ CRLF, parser_error = ''ERR Protocol error: invalid multibulk length''\<rparr>, [])"
proof -
  have f: "fst (Feed fresh_parser (''*x'' @ CRLF)) =
     \<lparr>parser_buf = ''*x'' @ CRLF, parser_error = ''ERR Protocol error: invalid multibulk length''\<rparr>"
    by (simp add: feed_eval)
  have "has_error (fst (Feed fresh_parser (''*x'' @ CRLF)))" by (simp only: f has_error_def) simp
  from protocol_error_is_sticky [OF this, of "[''PING'' @ CRLF]"] show ?thesis by (simp only: f)
qed



end
