(* ===== verification/CmdBase.thy ===== *)
theory CmdBase
  imports Rdb Float Resp
begin

text \<open>
  What the command handlers of \<open>src/commands.cpp\<close> share: the client, statistics and options
  records of \<open>include/commands.h\<close>, case folding, error replies, strict number parsing, typed
  lookup, creation on demand, the arity table and the list of write commands.

  A handler is a function from the clock reading of the command (\<open>now\<close>, milliseconds), the
  index of the selected database, the argument vector, the database and the reply buffer to
  the database and the buffer it leaves. Where the C++ code can reach undefined behaviour
  the handler returns a \<open>result\<close>. Arguments are read with \<open>argv ! i\<close>: the arity check of the
  dispatcher runs first, and the reads it does not cover are explicit faults. A pointer into
  the table is the value it points at, and writing through it is \<open>assign_value\<close>, which
  changes the entry in place and, like the code, does not touch the memory account.
\<close>

section \<open>Clients, statistics, options\<close>

type_synonym Args = "string list"

record ClientState =
  db_index :: nat
  client_name :: string
  client_id :: nat
  in_multi :: bool
  multi_error :: bool
  multi_queue :: "Args list"
  quit_requested :: bool

definition new_client :: ClientState where
  "new_client = \<lparr>db_index = 0, client_name = [], client_id = 0, in_multi = False,
     multi_error = False, multi_queue = [], quit_requested = False\<rparr>"

record ServerStats =
  total_commands :: nat
  total_connections :: nat
  rejected_connections :: nat
  expired_keys :: nat
  start_time_us :: int
  connected_clients :: nat
  shutdown_requested :: bool
  shutdown_nosave :: bool

definition new_stats :: ServerStats where
  "new_stats = \<lparr>total_commands = 0, total_connections = 0, rejected_connections = 0,
     expired_keys = 0, start_time_us = 0, connected_clients = 0, shutdown_requested = False,
     shutdown_nosave = False\<rparr>"

record ServerOptions =
  port :: int
  bind_addr :: string
  dir :: string
  dbfilename :: string
  maxmemory :: nat
  num_databases :: int

definition default_options :: ServerOptions where
  "default_options = \<lparr>port = 6379, bind_addr = ''127.0.0.1'', dir = ''.'',
     dbfilename = ''dump.rdb'', maxmemory = 0, num_databases = int kNumDatabases\<rparr>"

section \<open>Case folding and error replies\<close>

definition lower_char :: "char \<Rightarrow> char" where
  "lower_char c = (if 65 \<le> (of_char c :: nat) \<and> (of_char c :: nat) \<le> 90
                   then char_of ((of_char c :: nat) + 32) else c)"

definition ToLower :: "string \<Rightarrow> string" where
  "ToLower s = map lower_char s"

definition ToUpper :: "string \<Rightarrow> string" where
  "ToUpper s = map upper_char s"

abbreviation quote :: string where
  "quote \<equiv> [CHR 0x27]"

definition ErrWrongArgs :: "string \<Rightarrow> string \<Rightarrow> string" where
  "ErrWrongArgs out cmd_lower =
     AppendErrorReply out (''ERR wrong number of arguments for '' @ quote @ cmd_lower @ quote @ '' command'')"

definition ErrWrongType :: "string \<Rightarrow> string" where
  "ErrWrongType out =
     AppendErrorReply out ''WRONGTYPE Operation against a key holding the wrong kind of value''"

definition ErrSyntax :: "string \<Rightarrow> string" where
  "ErrSyntax out = AppendErrorReply out ''ERR syntax error''"

definition ErrNotInt :: "string \<Rightarrow> string" where
  "ErrNotInt out = AppendErrorReply out ''ERR value is not an integer or out of range''"

definition ErrNotFloat :: "string \<Rightarrow> string" where
  "ErrNotFloat out = AppendErrorReply out ''ERR value is not a valid float''"

definition ErrHashNotInt :: "string \<Rightarrow> string" where
  "ErrHashNotInt out = AppendErrorReply out ''ERR hash value is not an integer''"

definition ErrIncrOverflow :: "string \<Rightarrow> string" where
  "ErrIncrOverflow out = AppendErrorReply out ''ERR increment would produce NaN or Infinity''"

definition ErrHashNotFloat :: "string \<Rightarrow> string" where
  "ErrHashNotFloat out = AppendErrorReply out ''ERR hash value is not a float''"

definition ErrUnknownCommand :: "string \<Rightarrow> Args \<Rightarrow> string" where
  "ErrUnknownCommand out argv =
     (let msg = ''ERR unknown command '' @ quote @ argv ! 0 @ quote
      in AppendErrorReply out
           (if length argv > 1
            then msg @ '', with args beginning with: '' @ quote @ argv ! 1 @ quote @ '' '' else msg))"

section \<open>Strict number parsing\<close>

text \<open>Whether the end pointer of a conversion is the end of the string object.\<close>

definition at_end :: "string \<Rightarrow> string \<Rightarrow> bool" where
  "at_end s rest \<longleftrightarrow> length (c_str s) - length rest = length s"

definition ParseIntStrict :: "string \<Rightarrow> int option" where
  "ParseIntStrict s =
     (if s = [] then None
      else let (v, rest, erange) = strtoll (c_str s)
           in if erange \<or> \<not> at_end s rest then None else Some v)"

definition ParseDoubleStrict :: "string \<Rightarrow> double option" where
  "ParseDoubleStrict s =
     (if s = [] then None
      else let (v, rest) = strtofl binary64 (c_str s)
           in if \<not> at_end s rest then None else Some (double_of v))"

definition ParseLongDoubleStrict :: "float_format \<Rightarrow> string \<Rightarrow> fl option" where
  "ParseLongDoubleStrict ld s =
     (if s = [] then None
      else let (v, rest) = strtofl ld (c_str s)
           in if \<not> at_end s rest then None else Some v)"

section \<open>Printing of numbers\<close>

definition strtod :: "string \<Rightarrow> double" where
  "strtod s = double_of (fst (strtofl binary64 s))"

definition snprintf_g :: "nat \<Rightarrow> double \<Rightarrow> string" where
  "snprintf_g p d =
     (case fl_of d of
        NaN s \<Rightarrow> sign_str s @ ''nan''
      | Inf s \<Rightarrow> sign_str s @ ''inf''
      | Fin s u \<Rightarrow> printf_g p s u (2 ^ unit_exp binary64))"

definition AppendDoubleReply :: "string \<Rightarrow> double \<Rightarrow> string" where
  "AppendDoubleReply out d =
     out @ (if d_isnan d then ''nan'' else if d_eq d 0 then ''0'' else snprintf_g 17 d) @ CRLF"

definition FormatDouble :: "double \<Rightarrow> string" where
  "FormatDouble d =
     (if d_isnan d then ''nan''
      else if d_isinf d then (if d_lt 0 d then ''inf'' else ''-inf'')
      else if d_eq d 0 then ''0''
      else let b15 = snprintf_g 15 d
           in if d_eq (strtod b15) d then b15
              else let b16 = snprintf_g 16 d
                   in if d_eq (strtod b16) d then b16 else snprintf_g 17 d)"

text \<open>
  \<open>snprintf\<close> into \<open>char buf[128]\<close> keeps 127 characters and returns the full length \<open>l\<close>. The
  trimming starts at \<open>buf[l - 1]\<close>, which is inside the buffer only for \<open>l \<le> 128\<close>; for
  \<open>l = 128\<close> it is the terminator and nothing is trimmed.
\<close>

definition trim_fraction :: "string \<Rightarrow> string" where
  "trim_fraction buf =
     (let t = strip_zeros buf in if t \<noteq> [] \<and> last t = CHR ''.'' then butlast t else t)"

definition FormatLongDouble :: "float_format \<Rightarrow> fl \<Rightarrow> string result" where
  "FormatLongDouble ld x =
     (case x of
        NaN s \<Rightarrow> Inr ''nan''
      | Inf s \<Rightarrow> Inr (if s then ''-inf'' else ''inf'')
      | Fin s u \<Rightarrow>
          if u = 0 then Inr ''0''
          else let full = printf_f 17 s u (2 ^ unit_exp ld); l = length full; buf = take 127 full
               in if CHR ''.'' \<in> set buf
                  then if l > 128 then Inl OutOfBounds
                       else if l = 128 then Inr buf
                       else let t = trim_fraction buf in Inr (if t = ''-0'' then ''0'' else t)
                  else Inr buf)"

section \<open>Typed lookup and creation\<close>

datatype 'a LookupResult = is_missing: kMissing | is_found: kFound 'a | is_wrong: kWrongType

text \<open>The alternatives of \<open>std::get_if\<close>.\<close>

fun get_string :: "Value \<Rightarrow> string option" where
  "get_string (RawString s) = Some s" | "get_string _ = None"

fun get_hash :: "Value \<Rightarrow> (string \<times> string) list option" where
  "get_hash (HashValue h) = Some h" | "get_hash _ = None"

fun get_list :: "Value \<Rightarrow> string list option" where
  "get_list (ListValue l) = Some l" | "get_list _ = None"

fun get_set :: "Value \<Rightarrow> string list option" where
  "get_set (SetValue s) = Some s" | "get_set _ = None"

fun get_zset :: "Value \<Rightarrow> (skiplist \<times> (string \<times> double) list) option" where
  "get_zset (ZSetValue sl dict) = Some (sl, dict)" | "get_zset _ = None"

definition GetTyped ::
  "(Value \<Rightarrow> 'a option) \<Rightarrow> int \<Rightarrow> nat \<Rightarrow> string \<Rightarrow> Database \<Rightarrow> Database \<times> 'a LookupResult" where
  "GetTyped get_if now idx key d =
     (let (d1, e) = Lookup now idx key d
      in (d1, case e of
                None \<Rightarrow> kMissing
              | Some e \<Rightarrow> (case get_if (ent_value e) of None \<Rightarrow> kWrongType | Some p \<Rightarrow> kFound p)))"

text \<open>Writing through a pointer to the value, or to the expiry time, of a present entry.\<close>

definition update_entry :: "nat \<Rightarrow> string \<Rightarrow> (Entry \<Rightarrow> Entry) \<Rightarrow> Database \<Rightarrow> Database" where
  "update_entry idx key f d =
     (case map_of (table idx d) key of
        None \<Rightarrow> d
      | Some e \<Rightarrow> set_table idx (AList.update key (f e) (table idx d)) d)"

definition assign_value :: "nat \<Rightarrow> string \<Rightarrow> Value \<Rightarrow> Database \<Rightarrow> Database" where
  "assign_value idx key v d = update_entry idx key (\<lambda>e. e\<lparr>ent_value := v\<rparr>) d"

definition assign_expiry :: "nat \<Rightarrow> string \<Rightarrow> int \<Rightarrow> Database \<Rightarrow> Database" where
  "assign_expiry idx key x d = update_entry idx key (\<lambda>e. e\<lparr>expires_at_ms := x\<rparr>) d"

text \<open>Look a key up; when it is missing, store a fresh value and look it up again.\<close>

definition LookupOrSet ::
  "Value \<Rightarrow> int \<Rightarrow> nat \<Rightarrow> string \<Rightarrow> Database \<Rightarrow> Database \<times> Entry option" where
  "LookupOrSet fresh now idx key d =
     (let (d1, e) = Lookup now idx key d
      in case e of
           None \<Rightarrow> Lookup now idx key (Set idx key fresh 0 d1)
         | Some e \<Rightarrow> (d1, Some e))"

definition GetOrCreate ::
  "(Value \<Rightarrow> 'a option) \<Rightarrow> Value \<Rightarrow> int \<Rightarrow> nat \<Rightarrow> string \<Rightarrow> Database \<Rightarrow> Database \<times> 'a option" where
  "GetOrCreate get_if fresh now idx key d =
     (let (d1, e) = LookupOrSet fresh now idx key d
      in (d1, case e of None \<Rightarrow> None | Some e \<Rightarrow> get_if (ent_value e)))"

definition GetOrCreateStringEntry ::
  "int \<Rightarrow> nat \<Rightarrow> string \<Rightarrow> Database \<Rightarrow> Database \<times> string option" where
  "GetOrCreateStringEntry = GetOrCreate get_string (RawString [])"

definition HashOrCreate ::
  "int \<Rightarrow> nat \<Rightarrow> string \<Rightarrow> Database \<Rightarrow> Database \<times> (string \<times> string) list option" where
  "HashOrCreate = GetOrCreate get_hash (HashValue [])"

definition ListCreate :: "int \<Rightarrow> nat \<Rightarrow> string \<Rightarrow> Database \<Rightarrow> Database \<times> string list option" where
  "ListCreate = GetOrCreate get_list (ListValue [])"

definition SetCreate :: "int \<Rightarrow> nat \<Rightarrow> string \<Rightarrow> Database \<Rightarrow> Database \<times> string list option" where
  "SetCreate = GetOrCreate get_set (SetValue [])"

definition ZSetCreate ::
  "int \<Rightarrow> nat \<Rightarrow> string \<Rightarrow> Database \<Rightarrow> Database \<times> (skiplist \<times> (string \<times> double) list) option" where
  "ZSetCreate = GetOrCreate get_zset (ZSetValue new_skiplist [])"

definition KeyIsLiveExpired :: "int \<Rightarrow> Entry \<Rightarrow> bool" where
  "KeyIsLiveExpired now e \<longleftrightarrow> expires_at_ms e \<noteq> 0 \<and> now \<ge> expires_at_ms e"

text \<open>An undefined run of a skip-list operation is an undefined run of the command.\<close>

definition defined :: "'a option \<Rightarrow> 'a result" where
  "defined x = (case x of None \<Rightarrow> Inl Diverges | Some y \<Rightarrow> Inr y)"

section \<open>Arities and write commands\<close>

definition ArityTable :: "(string \<times> int \<times> int) list" where
  "ArityTable =
    [(''PING'', (1, 2)), (''ECHO'', (2, 2)), (''SELECT'', (2, 2)), (''AUTH'', (2, 2)),
     (''QUIT'', (1, 1)), (''HELLO'', (1, - 1)), (''COMMAND'', (1, 2)), (''INFO'', (1, 2)),
     (''DBSIZE'', (1, 1)), (''FLUSHDB'', (1, 2)), (''FLUSHALL'', (1, 2)), (''SAVE'', (1, 1)),
     (''BGSAVE'', (1, 1)), (''LASTSAVE'', (1, 1)), (''BGREWRITEAOF'', (1, 1)), (''WAIT'', (3, 3)),
     (''TIME'', (1, 1)), (''ROLE'', (1, 1)), (''SHUTDOWN'', (1, 2)), (''CONFIG'', (3, 3)),
     (''CLIENT'', (2, - 1)), (''MEMORY'', (3, 3)), (''GET'', (2, 2)), (''SET'', (3, - 1)),
     (''SETNX'', (3, 3)), (''SETEX'', (4, 4)), (''PSETEX'', (4, 4)), (''GETSET'', (3, 3)),
     (''GETDEL'', (2, 2)), (''GETRANGE'', (4, 4)), (''SETRANGE'', (4, 4)), (''STRLEN'', (2, 2)),
     (''APPEND'', (3, 3)), (''INCR'', (2, 2)), (''DECR'', (2, 2)), (''INCRBY'', (3, 3)),
     (''DECRBY'', (3, 3)), (''INCRBYFLOAT'', (3, 3)), (''MGET'', (2, - 1)), (''MSET'', (3, - 1)),
     (''MSETNX'', (3, - 1)), (''DEL'', (2, - 1)), (''UNLINK'', (2, - 1)), (''EXISTS'', (2, - 1)),
     (''KEYS'', (2, 2)), (''RANDOMKEY'', (1, 1)), (''TYPE'', (2, 2)), (''RENAME'', (3, 3)),
     (''EXPIRE'', (3, 3)), (''PEXPIRE'', (3, 3)), (''EXPIREAT'', (3, 3)), (''PEXPIREAT'', (3, 3)),
     (''TTL'', (2, 2)), (''PTTL'', (2, 2)), (''PERSIST'', (2, 2)), (''SCAN'', (2, - 1)),
     (''HSET'', (4, - 1)), (''HMSET'', (4, - 1)), (''HGET'', (3, 3)), (''HMGET'', (3, - 1)),
     (''HGETALL'', (2, 2)), (''HDEL'', (3, - 1)), (''HEXISTS'', (3, 3)), (''HLEN'', (2, 2)),
     (''HKEYS'', (2, 2)), (''HVALS'', (2, 2)), (''HSETNX'', (4, 4)), (''HINCRBY'', (4, 4)),
     (''HINCRBYFLOAT'', (4, 4)), (''HSTRLEN'', (3, 3)), (''LPUSH'', (3, - 1)),
     (''RPUSH'', (3, - 1)), (''LPOP'', (2, 3)), (''RPOP'', (2, 3)), (''LLEN'', (2, 2)),
     (''LRANGE'', (4, 4)), (''LINDEX'', (3, 3)), (''LSET'', (4, 4)), (''LREM'', (4, 4)),
     (''LINSERT'', (5, 5)), (''LTRIM'', (4, 4)), (''LMOVE'', (5, 5)), (''RPOPLPUSH'', (3, 3)),
     (''SADD'', (3, - 1)), (''SREM'', (3, - 1)), (''SMEMBERS'', (2, 2)), (''SISMEMBER'', (3, 3)),
     (''SCARD'', (2, 2)), (''SPOP'', (2, 3)), (''SRANDMEMBER'', (2, 3)), (''SMOVE'', (4, 4)),
     (''SINTER'', (2, - 1)), (''SUNION'', (2, - 1)), (''SDIFF'', (2, - 1)),
     (''SINTERSTORE'', (3, - 1)), (''SUNIONSTORE'', (3, - 1)), (''SDIFFSTORE'', (3, - 1)),
     (''ZADD'', (4, - 1)), (''ZSCORE'', (3, 3)), (''ZCARD'', (2, 2)), (''ZRANGE'', (3, - 1)),
     (''ZREVRANGE'', (4, - 1)), (''ZRANGEBYSCORE'', (4, - 1)), (''ZREVRANGEBYSCORE'', (4, - 1)),
     (''ZRANK'', (3, 3)), (''ZREVRANK'', (3, 3)), (''ZCOUNT'', (4, 4)), (''ZREM'', (3, - 1)),
     (''ZINCRBY'', (4, 4)), (''ZPOPMIN'', (2, 3)), (''ZPOPMAX'', (2, 3)),
     (''ZREMRANGEBYRANK'', (4, 4)), (''ZREMRANGEBYSCORE'', (4, 4)), (''MULTI'', (1, 1)),
     (''EXEC'', (1, 1)), (''DISCARD'', (1, 1))]"

definition CommandExists :: "string \<Rightarrow> bool" where
  "CommandExists upper \<longleftrightarrow> map_of ArityTable upper \<noteq> None"

definition ArityOk :: "string \<Rightarrow> nat \<Rightarrow> bool" where
  "ArityOk upper argc =
     (case map_of ArityTable upper of
        None \<Rightarrow> False
      | Some (mn, mx) \<Rightarrow>
          if int argc < mn then False else if mx \<ge> 0 \<and> int argc > mx then False else True)"

definition writes :: "string list" where
  "writes =
    [''SET'', ''SETNX'', ''SETEX'', ''PSETEX'', ''GETSET'', ''SETRANGE'', ''APPEND'', ''INCR'',
     ''DECR'', ''INCRBY'', ''DECRBY'', ''INCRBYFLOAT'', ''MSET'', ''MSETNX'', ''DEL'', ''UNLINK'',
     ''RENAME'', ''EXPIRE'', ''PEXPIRE'', ''EXPIREAT'', ''PEXPIREAT'', ''PERSIST'', ''GETDEL'',
     ''HSET'', ''HMSET'', ''HDEL'', ''HSETNX'', ''HINCRBY'', ''HINCRBYFLOAT'', ''LPUSH'', ''RPUSH'',
     ''LPOP'', ''RPOP'', ''LSET'', ''LREM'', ''LINSERT'', ''LTRIM'', ''LMOVE'', ''RPOPLPUSH'',
     ''SADD'', ''SREM'', ''SPOP'', ''SMOVE'', ''SINTERSTORE'', ''SUNIONSTORE'', ''SDIFFSTORE'',
     ''ZADD'', ''ZREM'', ''ZINCRBY'', ''ZPOPMIN'', ''ZPOPMAX'', ''ZREMRANGEBYRANK'',
     ''ZREMRANGEBYSCORE'', ''FLUSHDB'', ''FLUSHALL'']"

definition IsWriteCommand :: "string \<Rightarrow> bool" where
  "IsWriteCommand upper \<longleftrightarrow> List.member writes upper"

end
