(* ===== verification/Replies.thy ===== *)
theory Replies
  imports CmdBase
begin

text \<open>
  The replies a client reads: a datatype of RESP2 replies with its byte encoding, which can
  be decoded in one way only, and the fact that every reply function of the handlers appends
  the encoding of one reply. A simple string or an error is a line; the encoding of a line
  that holds a carriage return or a line feed would end early.
\<close>

section \<open>Replies and their encoding\<close>

datatype reply =
    RSimple string
  | RError string
  | RInt int
  | RBulk string
  | RNil
  | RArray "reply list"

fun encode_reply :: "reply \<Rightarrow> string" where
  "encode_reply (RSimple s) = AppendSimpleReply [] s"
| "encode_reply (RError s) = AppendErrorReply [] s"
| "encode_reply (RInt i) = AppendIntReply [] i"
| "encode_reply (RBulk s) = AppendBulkReply [] s"
| "encode_reply RNil = AppendNullBulkReply []"
| "encode_reply (RArray rs) = AppendArrayReply [] (int (length rs)) @ concat (map encode_reply rs)"

definition one_line :: "string \<Rightarrow> bool" where
  "one_line s \<longleftrightarrow> CHR 0x0D \<notin> set s \<and> CHR 0x0A \<notin> set s"

fun reply_ok :: "reply \<Rightarrow> bool" where
  "reply_ok (RSimple s) = one_line s"
| "reply_ok (RError s) = one_line s"
| "reply_ok (RArray rs) = (\<forall>r\<in>set rs. reply_ok r)"
| "reply_ok _ = True"

lemma one_line_simps [simp]:
  "one_line []"
  "one_line (c # s) \<longleftrightarrow> c \<noteq> CHR 0x0D \<and> c \<noteq> CHR 0x0A \<and> one_line s"
  "one_line (s @ t) \<longleftrightarrow> one_line s \<and> one_line t"
  by (auto simp: one_line_def)

lemma one_line_nat_str [simp]: "one_line (nat_str n)"
  using nat_str_digit_mem [of _ n] is_digit_neq by (auto simp: one_line_def)

lemma one_line_int_str [simp]: "one_line (int_str i)"
  by (simp add: int_str_def)

lemma lower_char_eol [simp]:
  "lower_char c = CHR 0x0D \<longleftrightarrow> c = CHR 0x0D" "lower_char c = CHR 0x0A \<longleftrightarrow> c = CHR 0x0A"
  by (auto simp: lower_char_def dest: arg_cong [of _ _ "of_char :: char \<Rightarrow> nat"])

lemma one_line_ToLower [simp]: "one_line (ToLower s) \<longleftrightarrow> one_line s"
  by (induction s) (simp_all add: ToLower_def)

subsection \<open>Unique decoding\<close>

lemma nat_str_inj [simp]: "nat_str m = nat_str n \<longleftrightarrow> m = n"
  by (metis dec_val_nat_str)

lemma nat_str_minus: "nat_str m \<noteq> CHR ''-'' # s"
  using nat_str_digit_mem [of "CHR ''-''" m] by (auto simp: is_digit_def)

lemma nat_str_minus_append [simp]:
  "nat_str m @ t \<noteq> CHR ''-'' # s" "CHR ''-'' # s \<noteq> nat_str m @ t"
  using nat_str_minus [of m] by (auto simp: append_eq_Cons_conv Cons_eq_append_conv dest: sym)

lemma int_str_inj [simp]: "int_str i = int_str j \<longleftrightarrow> i = j"
  using nat_str_minus [of "nat i"] nat_str_minus [of "nat j"]
  by (auto simp: int_str_def dest: sym)

lemma line_split:
  assumes "one_line a" and "one_line b" and "a @ CRLF @ s = b @ CRLF @ t"
  shows "a = b \<and> s = t"
  using assms
proof (induction a arbitrary: b)
  case Nil
  then show ?case by (cases b) (auto simp: CRLF_def)
next
  case (Cons c a)
  then show ?case by (cases b) (auto simp: CRLF_def)
qed

lemma line_splitD:
  "a @ CHR 0x0D # CHR 0x0A # s = b @ CHR 0x0D # CHR 0x0A # t \<Longrightarrow> one_line a \<Longrightarrow> one_line b \<Longrightarrow>
     a = b \<and> s = t"
  using line_split [of a b s t] by (simp add: CRLF_def)

lemmas append_defs =
  AppendSimpleReply_def AppendErrorReply_def AppendIntReply_def AppendBulkReply_def
  AppendNullBulkReply_def AppendArrayReply_def AppendEmptyArrayReply_def

lemma encode_reply_cases:
  "\<exists>c t. encode_reply r = c # t \<and>
     c = (case r of RSimple s \<Rightarrow> CHR ''+'' | RError s \<Rightarrow> CHR ''-'' | RInt i \<Rightarrow> CHR '':''
          | RBulk s \<Rightarrow> CHR ''$'' | RNil \<Rightarrow> CHR ''$'' | RArray rs \<Rightarrow> CHR ''*'')"
  by (cases r) (simp_all add: append_defs)

lemma encode_reply_unique:
  assumes "reply_ok r" and "reply_ok r'" and "encode_reply r @ s = encode_reply r' @ s'"
  shows "r = r' \<and> s = s'"
  using assms
proof (induction r arbitrary: r' s s')
  case (RSimple a)
  with encode_reply_cases [of r'] show ?case
    by (cases r') (auto simp: append_defs dest!: line_splitD)
next
  case (RError a)
  with encode_reply_cases [of r'] show ?case
    by (cases r') (auto simp: append_defs dest!: line_splitD)
next
  case (RInt i)
  with encode_reply_cases [of r'] show ?case
    by (cases r') (auto simp: append_defs dest!: line_splitD)
next
  case (RBulk a)
  show ?case
  proof (cases r')
    case (RBulk b)
    with RBulk.prems line_splitD [of "nat_str (length a)" "a @ CRLF @ s" "nat_str (length b)" "b @ CRLF @ s'"]
    show ?thesis by (auto simp: append_defs)
  qed (use RBulk.prems encode_reply_cases [of r'] in \<open>auto simp: append_defs\<close>)
next
  case RNil
  with encode_reply_cases [of r'] show ?case
    by (cases r') (auto simp: append_defs dest!: line_splitD)
next
  case (RArray rs)
  from RArray.prems(3) obtain rs' where r': "r' = RArray rs'"
    using encode_reply_cases [of r'] by (cases r') (auto simp: append_defs)
  with RArray.prems have eq: "length rs = length rs'"
    "concat (map encode_reply rs) @ s = concat (map encode_reply rs') @ s'"
    by (auto simp: append_defs dest!: line_splitD)
  have "rs = rs' \<and> s = s'"
    using eq RArray.IH RArray.prems(1,2) unfolding r'
  proof (induction rs rs' rule: list_induct2)
    case (Cons a as b bs)
    have ab: "a = b \<and> concat (map encode_reply as) @ s = concat (map encode_reply bs) @ s'"
      using Cons.prems by (intro Cons.prems(2)) auto
    have "as = bs \<and> s = s'"
    proof (rule Cons.IH)
      show "x = r' \<and> t = t'" if "x \<in> set as" "reply_ok x" "reply_ok r'"
        "encode_reply x @ t = encode_reply r' @ t'" for x r' t t'
        using that by (intro Cons.prems(2)) auto
    qed (use ab Cons.prems in auto)
    with ab show ?case by simp
  qed simp
  with r' show ?case by simp
qed

section \<open>Appending one reply\<close>

definition answers :: "string \<Rightarrow> string \<Rightarrow> bool" where
  "answers out out' \<longleftrightarrow> (\<exists>r. reply_ok r \<and> out' = out @ encode_reply r)"

lemma answersI: "reply_ok r \<Longrightarrow> out' = out @ encode_reply r \<Longrightarrow> answers out out'"
  by (auto simp: answers_def)

lemma answers_array:
  assumes "out' = AppendArrayReply out (int (length rs)) @ concat (map encode_reply rs)"
    and "\<forall>r\<in>set rs. reply_ok r"
  shows "answers out out'"
  by (rule answersI [of "RArray rs"]) (use assms in \<open>simp_all add: append_defs\<close>)

lemma encode_bulk_array:
  "encode_reply (RArray (map RBulk ks)) =
     ''*'' @ nat_str (length ks) @ CRLF @ concat (map (AppendBulkReply []) ks)"
  by (simp add: AppendArrayReply_def int_str_def comp_def)

lemma answers_simps [simp]:
  "answers out (AppendSimpleReply out s) \<longleftrightarrow> one_line s" (is ?s)
  "answers out (AppendErrorReply out s) \<longleftrightarrow> one_line s" (is ?e)
  "answers out (AppendIntReply out i)"
  "answers out (AppendBulkReply out s)"
  "answers out (AppendNullBulkReply out)"
  "answers out (AppendEmptyArrayReply out)"
  "answers out (AppendBulkArray out items)"
proof -
  show ?s
  proof
    assume "answers out (AppendSimpleReply out s)"
    then obtain r where r: "reply_ok r" "AppendSimpleReply [] s = encode_reply r"
      by (auto simp: answers_def append_defs)
    then obtain t where t: "s @ CRLF = t @ CRLF" "one_line t"
      using encode_reply_cases [of r] by (cases r) (auto simp: append_defs)
    then show "one_line s" by simp
  qed (auto intro: answersI [of "RSimple s"] simp: append_defs)
  show ?e
  proof
    assume "answers out (AppendErrorReply out s)"
    then obtain r where r: "reply_ok r" "AppendErrorReply [] s = encode_reply r"
      by (auto simp: answers_def append_defs)
    then obtain t where t: "s @ CRLF = t @ CRLF" "one_line t"
      using encode_reply_cases [of r] by (cases r) (auto simp: append_defs)
    then show "one_line s" by simp
  qed (auto intro: answersI [of "RError s"] simp: append_defs)
  show "answers out (AppendIntReply out i)"
    by (rule answersI [of "RInt i"]) (simp_all add: append_defs)
  show "answers out (AppendBulkReply out s)"
    by (rule answersI [of "RBulk s"]) (simp_all add: append_defs)
  show "answers out (AppendNullBulkReply out)"
    by (rule answersI [of RNil]) (simp_all add: append_defs)
  show "answers out (AppendEmptyArrayReply out)"
    by (rule answersI [of "RArray []"]) (simp_all add: append_defs int_str_def nat_str.simps digit_char_def
      char_of_def bit_simps)
  show "answers out (AppendBulkArray out items)"
    by (rule answers_array [of _ _ "map RBulk items"])
      (simp_all add: AppendBulkArray_def foldl_AppendBulkReply comp_def)
qed

lemma ErrWrongArgs_answers [simp]: "answers out (ErrWrongArgs out s) \<longleftrightarrow> one_line s"
  by (simp add: ErrWrongArgs_def)

lemma Err_answers [simp]:
  "answers out (ErrWrongType out)" "answers out (ErrSyntax out)" "answers out (ErrNotInt out)"
  "answers out (ErrNotFloat out)" "answers out (ErrHashNotInt out)"
  "answers out (ErrIncrOverflow out)" "answers out (ErrHashNotFloat out)"
  by (simp_all add: ErrWrongType_def ErrSyntax_def ErrNotInt_def ErrNotFloat_def
      ErrHashNotInt_def ErrIncrOverflow_def ErrHashNotFloat_def)

text \<open>A loop that appends one reply per element after an array header.\<close>

lemma foldl_replies:
  assumes "\<And>out x. x \<in> set xs \<Longrightarrow> f out x = out @ encode_reply (g x)"
  shows "foldl f out xs = out @ concat (map (\<lambda>x. encode_reply (g x)) xs)"
  using assms by (induction xs arbitrary: out) simp_all

lemma foldl_answers:
  assumes "\<And>out x. x \<in> set xs \<Longrightarrow> f out x = out @ encode_reply (g x)"
    and "\<forall>x\<in>set xs. reply_ok (g x)" and "n = int (length xs)"
  shows "answers out (foldl f (AppendArrayReply out n) xs)"
  using assms(2,3) foldl_replies [of xs f g, OF assms(1)]
  by (intro answers_array [of _ _ "map g xs"]) (simp_all add: comp_def)

text \<open>Two replies per element.\<close>

lemma foldl_replies2:
  assumes "\<And>out x. x \<in> set xs \<Longrightarrow> f out x = out @ encode_reply (g x) @ encode_reply (h x)"
  shows "foldl f out xs = out @ concat (map encode_reply (concat (map (\<lambda>x. [g x, h x]) xs)))"
  using assms by (induction xs arbitrary: out) simp_all

lemma foldl_answers2:
  assumes "\<And>out x. x \<in> set xs \<Longrightarrow> f out x = out @ encode_reply (g x) @ encode_reply (h x)"
    and "\<forall>x\<in>set xs. reply_ok (g x) \<and> reply_ok (h x)" and "n = 2 * int (length xs)"
  shows "answers out (foldl f (AppendArrayReply out n) xs)"
proof (rule answers_array [of _ _ "concat (map (\<lambda>x. [g x, h x]) xs)"])
  have "length (concat (map (\<lambda>x. [g x, h x]) xs)) = 2 * length xs" for xs :: "'a list"
    by (induction xs) simp_all
  then show "foldl f (AppendArrayReply out n) xs =
      AppendArrayReply out (int (length (concat (map (\<lambda>x. [g x, h x]) xs)))) @
      concat (map encode_reply (concat (map (\<lambda>x. [g x, h x]) xs)))"
    using assms(3) foldl_replies2 [of xs f g h, OF assms(1)] by simp
qed (use assms(2) in auto)

end
