(* ===== verification/Contract.thy ===== *)
theory Contract
  imports Replies
begin

text \<open>
  The contract every data command meets: it keeps the database well-formed, it changes what a
  client can see only at the keys it names in the selected database, and it appends exactly
  one reply. The rules below decompose the contract along the primitives the handlers are
  made of, so that a handler's proof is a run of these rules.
\<close>

section \<open>Well-formed databases\<close>

definition entries_ok :: "Table \<Rightarrow> bool" where
  "entries_ok t \<longleftrightarrow> (\<forall>kv\<in>set t. value_ok (ent_value (snd kv)))"

definition db_good :: "Database \<Rightarrow> bool" where
  "db_good d \<longleftrightarrow> db_shape d \<and> list_all entries_ok (dbs d)"

named_theorems handler_rules \<open>decomposition of the contract of a handler\<close>

lemma db_good_shape [simp]: "db_good d \<Longrightarrow> db_shape d"
  by (simp add: db_good_def)

lemma db_good_new [simp]: "db_good new_database"
  by (simp add: db_good_def new_database_def db_shape_def table_ok_def entries_ok_def list_all_iff)

lemma db_good_table: "db_good d \<Longrightarrow> i < kNumDatabases \<Longrightarrow> table_ok (table i d) \<and> entries_ok (table i d)"
  by (simp add: db_good_def db_shape_def list_all_length table_def)

lemma db_good_set_table:
  assumes "db_good d" and "dbs d' = (dbs d)[i := t]" and "table_ok t" and "entries_ok t"
  shows "db_good d'"
  using assms set_update_subset_insert [of "dbs d" i t]
  by (auto simp: db_good_def db_shape_def list_all_iff)

lemma entries_ok_delete [simp]: "entries_ok t \<Longrightarrow> entries_ok (AList.delete k t)"
  by (auto simp: entries_ok_def AList.delete_eq)

lemma entries_ok_update:
  "entries_ok t \<Longrightarrow> value_ok (ent_value e) \<Longrightarrow> entries_ok (AList.update k e t)"
  by (induction t) (auto simp: entries_ok_def)

lemma entries_ok_lookup: "entries_ok t \<Longrightarrow> map_of t k = Some e \<Longrightarrow> value_ok (ent_value e)"
  by (fastforce simp: entries_ok_def dest: map_of_SomeD)

section \<open>What an operation may change\<close>

definition evolves :: "int \<Rightarrow> nat \<Rightarrow> string set \<Rightarrow> Database \<Rightarrow> Database \<Rightarrow> bool" where
  "evolves now i K d d' \<longleftrightarrow> db_good d' \<and> i < kNumDatabases \<and>
     (\<forall>n j k. now \<le> n \<longrightarrow> j = i \<and> k \<in> K \<or> live n d' j k = live n d j k)"

lemma evolves_refl: "db_good d \<Longrightarrow> i < kNumDatabases \<Longrightarrow> evolves now i K d d"
  by (simp add: evolves_def)

lemma evolves_good: "evolves now i K d d' \<Longrightarrow> db_good d'"
  by (simp add: evolves_def)

lemma evolves_trans: "evolves now i K d d1 \<Longrightarrow> evolves now i K d1 d2 \<Longrightarrow> evolves now i K d d2"
  unfolding evolves_def by metis

lemma evolves_mono: "evolves now i K d d' \<Longrightarrow> K \<subseteq> L \<Longrightarrow> evolves now i L d d'"
  unfolding evolves_def by blast

lemma evolves_cong: "dbs d1 = dbs d2 \<Longrightarrow> evolves now i K d d1 \<longleftrightarrow> evolves now i K d d2"
  using live_cong [of d1 d2] by (simp add: evolves_def db_good_def db_shape_def)

lemma evolvesI:
  assumes "evolves now i K d d1" and "db_good d2"
    and "\<And>n j k. now \<le> n \<Longrightarrow> j = i \<and> k \<in> K \<or> live n d2 j k = live n d1 j k"
  shows "evolves now i K d d2"
  using assms unfolding evolves_def by metis

lemma evolves_Lookup:
  assumes "evolves now i K d d0"
  shows "evolves now i K d (fst (Lookup now i k d0))"
proof (rule evolvesI [OF assms])
  have g: "db_good d0" "i < kNumDatabases" using assms by (simp_all add: evolves_def)
  note t = db_good_table [OF g]
  have "dbs (fst (Lookup now i k d0)) = dbs d0 \<or>
    dbs (fst (Lookup now i k d0)) = (dbs d0)[i := AList.delete k (table i d0)]"
    by (simp add: Lookup_def Let_def split: option.split)
  then show "db_good (fst (Lookup now i k d0))"
  proof
    assume "dbs (fst (Lookup now i k d0)) = dbs d0"
    with g show ?thesis by (simp add: db_good_def db_shape_def)
  next
    assume "dbs (fst (Lookup now i k d0)) = (dbs d0)[i := AList.delete k (table i d0)]"
    from db_good_set_table [OF g(1) this] t show ?thesis by (simp add: table_ok_delete)
  qed
  show "j = i \<and> k' \<in> K \<or> live n (fst (Lookup now i k d0)) j k' = live n d0 j k'" if "now \<le> n" for n j k'
    using Lookup_live(2) [of d0 i now n] g that by simp
qed

lemma Lookup_value:
  assumes "Lookup now i k d = (d1, Some e)" and "db_good d" and "i < kNumDatabases"
  shows "value_ok (ent_value e)" and "map_of (table i d1) k = Some e" and "\<not> stale now e"
proof -
  have m: "map_of (table i d) k = Some e \<and> d1 = d \<and> \<not> stale now e"
    using assms(1) by (auto simp: Lookup_def Let_def split: option.splits if_splits)
  with entries_ok_lookup db_good_table [OF assms(2,3)] show "value_ok (ent_value e)" by blast
  show "map_of (table i d1) k = Some e" "\<not> stale now e" using m by simp_all
qed

lemma evolves_Set:
  assumes "evolves now i K d d0" and "k \<in> K" and "value_ok v"
  shows "evolves now i K d (Set i k v x d0)"
proof (rule evolvesI [OF assms(1)])
  have g: "db_good d0" "i < kNumDatabases" using assms by (simp_all add: evolves_def)
  show "db_good (Set i k v x d0)"
    using assms(3) g db_good_table [OF g]
    by (intro db_good_set_table [OF g(1) Set_dbs]) (auto intro: table_ok_update entries_ok_update)
  show "j = i \<and> k' \<in> K \<or> live n (Set i k v x d0) j k' = live n d0 j k'" for n j k'
    using Set_live(1) [of d0 i n k v x] g assms(2) by (auto simp: fun_upd_apply)
qed

lemma evolves_Delete:
  assumes "evolves now i K d d0" and "k \<in> K"
  shows "evolves now i K d (fst (Delete i k d0))"
proof (rule evolvesI [OF assms(1)])
  have g: "db_good d0" "i < kNumDatabases" using assms by (simp_all add: evolves_def)
  show "db_good (fst (Delete i k d0))"
    using g db_good_table [OF g]
    by (intro db_good_set_table [OF g(1) Delete_dbs]) (auto intro: table_ok_delete)
  show "j = i \<and> k' \<in> K \<or> live n (fst (Delete i k d0)) j k' = live n d0 j k'" for n j k'
    using Delete_live(1) [of d0 i n k] g assms(2) by (auto simp: fun_upd_apply)
qed

text \<open>Deleting a stale key is not visible at all.\<close>

lemma evolves_Delete_stale:
  assumes "evolves now i K d d0" and "map_of (table i d0) k = Some e" and "stale now e"
  shows "evolves now i K d (fst (Delete i k d0))"
proof -
  have "Lookup now i k d0 = ((fst (Delete i k d0))\<lparr>total_expired := total_expired d0 + 1\<rparr>, None)"
    using assms(2,3) by (simp add: Lookup_def Delete_def Let_def set_table_def)
  with evolves_Lookup [OF assms(1), of k]
  have "evolves now i K d ((fst (Delete i k d0))\<lparr>total_expired := total_expired d0 + 1\<rparr>)" by simp
  then show ?thesis by (rule evolves_cong [THEN iffD1, rotated]) simp
qed

lemma update_entry_dbs:
  "dbs (update_entry i k f d) =
     (dbs d)[i := (case map_of (table i d) k of None \<Rightarrow> table i d | Some e \<Rightarrow> AList.update k (f e) (table i d))]"
  by (simp add: update_entry_def table_def split: option.split)

lemma evolves_update_entry:
  assumes "evolves now i K d d0" and "k \<in> K"
    and "\<And>e. map_of (table i d0) k = Some e \<Longrightarrow> value_ok (ent_value (f e))"
  shows "evolves now i K d (update_entry i k f d0)"
proof (rule evolvesI [OF assms(1)])
  have g: "db_good d0" "i < kNumDatabases" using assms by (simp_all add: evolves_def)
  then have i: "i < length (dbs d0)" by (simp add: db_good_def db_shape_def)
  show "db_good (update_entry i k f d0)"
    using g db_good_table [OF g] assms(3)
    by (intro db_good_set_table [OF g(1) update_entry_dbs])
      (auto intro: table_ok_update entries_ok_update split: option.split)
  show "j = i \<and> k' \<in> K \<or> live n (update_entry i k f d0) j k' = live n d0 j k'" for n j k'
    using assms(2) i unfolding live_set_table [OF i update_entry_dbs]
    by (auto simp: live_def update_conv' split: option.split)
qed

lemma evolves_assign_value:
  "evolves now i K d d0 \<Longrightarrow> k \<in> K \<Longrightarrow> value_ok v \<Longrightarrow> evolves now i K d (assign_value i k v d0)"
  unfolding assign_value_def by (rule evolves_update_entry) simp_all

lemma evolves_assign_expiry:
  assumes "evolves now i K d d0" and "k \<in> K"
  shows "evolves now i K d (assign_expiry i k x d0)"
  unfolding assign_expiry_def
proof (rule evolves_update_entry [OF assms])
  show "value_ok (ent_value (e\<lparr>expires_at_ms := x\<rparr>))" if "map_of (table i d0) k = Some e" for e
    using that assms(1) db_good_table [of d0 i] by (auto simp: evolves_def intro: entries_ok_lookup)
qed

section \<open>The contract of a handler\<close>

definition handler_ok :: "int \<Rightarrow> nat \<Rightarrow> string set \<Rightarrow> Database \<Rightarrow> string \<Rightarrow> Database \<times> string \<Rightarrow> bool" where
  "handler_ok now i K d out x \<longleftrightarrow> evolves now i K d (fst x) \<and> answers out (snd x)"

definition result_ok ::
  "int \<Rightarrow> nat \<Rightarrow> string set \<Rightarrow> Database \<Rightarrow> string \<Rightarrow> (Database \<times> string) result \<Rightarrow> bool" where
  "result_ok now i K d out r \<longleftrightarrow> (\<forall>x. r = Inr x \<longrightarrow> handler_ok now i K d out x)"

lemma handler_okI [handler_rules]:
  "evolves now i K d d' \<Longrightarrow> answers out out' \<Longrightarrow> handler_ok now i K d out (d', out')"
  by (simp add: handler_ok_def)

lemma result_ok_Inl [simp]: "result_ok now i K d out (Inl f)"
  by (simp add: result_ok_def)

lemma result_ok_Inr [simp]: "result_ok now i K d out (Inr x) = handler_ok now i K d out x"
  by (simp add: result_ok_def)

lemma result_ok_bind [handler_rules]:
  assumes "\<And>x. r = Inr x \<Longrightarrow> result_ok now i K d out (f x)"
  shows "result_ok now i K d out (bind_result r f)"
  using assms by (cases r) simp_all

lemma evolves_rules [handler_rules]:
  "evolves now i K d d0 \<Longrightarrow> k \<in> K \<Longrightarrow> value_ok v \<Longrightarrow> evolves now i K d (Set i k v x d0)"
  "evolves now i K d d0 \<Longrightarrow> k \<in> K \<Longrightarrow> evolves now i K d (fst (Delete i k d0))"
  "evolves now i K d d0 \<Longrightarrow> k \<in> K \<Longrightarrow> value_ok v \<Longrightarrow> evolves now i K d (assign_value i k v d0)"
  "evolves now i K d d0 \<Longrightarrow> k \<in> K \<Longrightarrow> evolves now i K d (assign_expiry i k x d0)"
  by (simp_all add: evolves_Set evolves_Delete evolves_assign_value evolves_assign_expiry)

text \<open>A lookup whose results the handler goes on with.\<close>

lemma Lookup_rule:
  assumes "evolves now i K d d0"
    and "\<And>d1. evolves now i K d d1 \<Longrightarrow> P (F d1 None)"
    and "\<And>d1 e. evolves now i K d d1 \<Longrightarrow> value_ok (ent_value e) \<Longrightarrow> P (F d1 (Some e))"
  shows "P (case Lookup now i k d0 of (d1, e) \<Rightarrow> F d1 e)"
proof (cases "Lookup now i k d0")
  case (Pair d1 e)
  with evolves_Lookup [OF assms(1), of k] have "evolves now i K d d1" by simp
  moreover have "value_ok (ent_value e')" if "e = Some e'" for e'
    using Lookup_value(1) [of now i k d0 d1 e'] assms(1) Pair that by (simp add: evolves_def)
  ultimately show ?thesis using assms(2,3) Pair by (cases e) simp_all
qed

lemmas handler_Lookup [handler_rules] =
  Lookup_rule [where P = "handler_ok now i K d out" for now i K d out]
  Lookup_rule [where P = "result_ok now i K d out" for now i K d out]

text \<open>What a typed lookup finds is part of a well-formed value.\<close>

lemma GetTyped_rule:
  assumes "evolves now i K d d0"
    and "\<And>d1. evolves now i K d d1 \<Longrightarrow> P (F d1 kMissing)"
    and "\<And>d1. evolves now i K d d1 \<Longrightarrow> P (F d1 kWrongType)"
    and "\<And>d1 v p. evolves now i K d d1 \<Longrightarrow> value_ok v \<Longrightarrow> g v = Some p \<Longrightarrow> P (F d1 (kFound p))"
  shows "P (case GetTyped g now i k d0 of (d1, st) \<Rightarrow> F d1 st)"
proof -
  let ?t = "\<lambda>e. case e of None \<Rightarrow> kMissing
      | Some e \<Rightarrow> (case g (ent_value e) of None \<Rightarrow> kWrongType | Some p \<Rightarrow> kFound p)"
  have "P (case Lookup now i k d0 of (d1, e) \<Rightarrow> F d1 (?t e))"
  proof (rule Lookup_rule [OF assms(1)])
    show "P (F d1 (?t None))" if "evolves now i K d d1" for d1 using assms(2) [OF that] by simp
    show "P (F d1 (?t (Some e)))" if "evolves now i K d d1" "value_ok (ent_value e)" for d1 e
      using assms(3) [OF that(1)] assms(4) [OF that] by (cases "g (ent_value e)") simp_all
  qed
  then show ?thesis by (simp add: GetTyped_def case_prod_beta)
qed

lemmas handler_GetTyped [handler_rules] =
  GetTyped_rule [where P = "handler_ok now i K d out" for now i K d out]
  GetTyped_rule [where P = "result_ok now i K d out" for now i K d out]

lemma evolves_GetTyped:
  "evolves now i K d d0 \<Longrightarrow> evolves now i K d (fst (GetTyped g now i k d0))"
  using evolves_Lookup [of now i K d d0 k] by (simp add: GetTyped_def case_prod_beta)

lemma LookupOrSet_ok:
  assumes "evolves now i K d d0" and "k \<in> K" and "value_ok fresh" and "LookupOrSet fresh now i k d0 = (d1, e)"
  shows "evolves now i K d d1 \<and> (\<forall>e'. e = Some e' \<longrightarrow> value_ok (ent_value e'))"
proof (cases "Lookup now i k d0")
  case (Pair d2 e2)
  have d2: "evolves now i K d d2" using evolves_Lookup [OF assms(1), of k] Pair by simp
  show ?thesis
  proof (cases e2)
    case None
    let ?s = "Set i k fresh 0 d2"
    have s: "evolves now i K d ?s" by (rule evolves_Set [OF d2 assms(2,3)])
    have "Lookup now i k ?s = (d1, e)" using assms(4) Pair None by (simp add: LookupOrSet_def)
    with evolves_Lookup [OF s, of k] Lookup_value(1) [of now i k ?s d1] s
    show ?thesis by (auto simp: evolves_def)
  next
    case (Some e3)
    then have "d1 = d2" "e = Some e3" using assms(4) Pair by (simp_all add: LookupOrSet_def)
    with d2 Some Pair Lookup_value(1) [of now i k d0 d2 e3] assms(1)
    show ?thesis by (simp add: evolves_def)
  qed
qed

lemma GetOrCreate_rule:
  assumes "evolves now i K d d0" and "k \<in> K" and "value_ok fresh"
    and "\<And>d1. evolves now i K d d1 \<Longrightarrow> P (F d1 None)"
    and "\<And>d1 v p. evolves now i K d d1 \<Longrightarrow> value_ok v \<Longrightarrow> g v = Some p \<Longrightarrow> P (F d1 (Some p))"
  shows "P (case GetOrCreate g fresh now i k d0 of (d1, p) \<Rightarrow> F d1 p)"
proof -
  obtain d1 e where r: "LookupOrSet fresh now i k d0 = (d1, e)" by fastforce
  note ok = LookupOrSet_ok [OF assms(1-3) r]
  have "P (F d1 (case e of None \<Rightarrow> None | Some e \<Rightarrow> g (ent_value e)))"
  proof (cases "case e of None \<Rightarrow> None | Some e \<Rightarrow> g (ent_value e)")
    case None
    with assms(4) [of d1] ok show ?thesis by simp
  next
    case (Some p)
    then obtain e' where e': "e = Some e'" "g (ent_value e') = Some p" by (auto split: option.splits)
    with assms(5) [of d1 "ent_value e'" p] ok show ?thesis by simp
  qed
  then show ?thesis using r by (simp add: GetOrCreate_def)
qed

lemmas handler_GetOrCreate [handler_rules] =
  GetOrCreate_rule [where P = "handler_ok now i K d out" for now i K d out]
  GetOrCreate_rule [where P = "result_ok now i K d out" for now i K d out]

lemma get_if_Some [simp]:
  "get_string v = Some s \<longleftrightarrow> v = RawString s" "get_hash v = Some h \<longleftrightarrow> v = HashValue h"
  "get_list v = Some l \<longleftrightarrow> v = ListValue l" "get_set v = Some t \<longleftrightarrow> v = SetValue t"
  "get_zset v = Some z \<longleftrightarrow> v = ZSetValue (fst z) (snd z)"
  by (cases v; auto)+

end
