(* ===== verification/CmdKeys.thy ===== *)
theory CmdKeys
  imports Contract
begin

text \<open>
  The commands on keys and expiry times of \<open>src/commands.cpp\<close>: \<open>GlobMatch\<close>, \<open>CmdExpire\<close> and
  the branches of \<open>Dispatch\<close> from \<open>DEL\<close> to \<open>PERSIST\<close>.
\<close>

section \<open>The glob matcher\<close>

text \<open>
  The matcher of \<open>KEYS\<close> and \<open>SCAN\<close>: positions \<open>p\<close> and \<open>s\<close>, and the position of the last star
  with the position in the string it was tried from. The result is the pattern position at
  the end of the string, \<open>None\<close> for a mismatch.
\<close>

function GlobLoop :: "string \<Rightarrow> string \<Rightarrow> nat \<Rightarrow> nat \<Rightarrow> (nat \<times> nat) option \<Rightarrow> nat option" where
  "GlobLoop pat str p s star =
     (if s < length str then
        if p < length pat \<and> (pat ! p = CHR ''?'' \<or> pat ! p = str ! s)
        then GlobLoop pat str (p + 1) (s + 1) star
        else if p < length pat \<and> pat ! p = CHR ''*'' then GlobLoop pat str (p + 1) s (Some (p, s))
        else (case star of
                Some (star_p, star_s) \<Rightarrow>
                  GlobLoop pat str (star_p + 1) (star_s + 1) (Some (star_p, star_s + 1))
              | None \<Rightarrow> None)
      else Some p)"
  by pat_completeness auto

text \<open>
  The star never moves back in a run from the start; from any other state one turn of the
  loop puts it where it belongs, which is the first component of the measure.
\<close>

termination
  by (relation "measures [\<lambda>(pat, str, p, s, star). (case star of Some (pp, ss) \<Rightarrow> (if s < ss then 1 else 0) | None \<Rightarrow> 0),
        \<lambda>(pat, str, p, s, star). (case star of Some (pp, ss) \<Rightarrow> length str - ss | None \<Rightarrow> length str + 1),
        \<lambda>(pat, str, p, s, star). length pat - p]")
    (auto split: option.splits if_splits)

declare GlobLoop.simps [simp del]

definition GlobMatch :: "string \<Rightarrow> string \<Rightarrow> bool" where
  "GlobMatch pattern str =
     (case GlobLoop pattern str 0 0 None of
        None \<Rightarrow> False
      | Some p \<Rightarrow> dropWhile (\<lambda>c. c = CHR ''*'') (drop p pattern) = [])"

section \<open>Keys\<close>

fun DelLoop :: "nat \<Rightarrow> Args \<Rightarrow> Database \<Rightarrow> int \<Rightarrow> Database \<times> int" where
  "DelLoop idx [] d n = (d, n)"
| "DelLoop idx (k # ks) d n =
     (let (d1, gone) = Delete idx k d in DelLoop idx ks d1 (n + (if gone then 1 else 0)))"

definition CmdDel :: "nat \<Rightarrow> Args \<Rightarrow> Database \<Rightarrow> string \<Rightarrow> Database \<times> string" where
  "CmdDel idx argv d out =
     (let (d1, n) = DelLoop idx (drop 1 argv) d 0 in (d1, AppendIntReply out n))"

fun ExistsLoop :: "int \<Rightarrow> nat \<Rightarrow> Args \<Rightarrow> Database \<Rightarrow> int \<Rightarrow> Database \<times> int" where
  "ExistsLoop now idx [] d n = (d, n)"
| "ExistsLoop now idx (k # ks) d n =
     (let (d1, e) = Lookup now idx k d in ExistsLoop now idx ks d1 (if e \<noteq> None then n + 1 else n))"

definition CmdExists :: "int \<Rightarrow> nat \<Rightarrow> Args \<Rightarrow> Database \<Rightarrow> string \<Rightarrow> Database \<times> string" where
  "CmdExists now idx argv d out =
     (let (d1, n) = ExistsLoop now idx (drop 1 argv) d 0 in (d1, AppendIntReply out n))"

text \<open>\<open>KEYS\<close> splits the table into matching live keys and stale ones, then deletes these.\<close>

fun KeysLoop :: "int \<Rightarrow> string \<Rightarrow> Table \<Rightarrow> string list \<times> string list \<Rightarrow> string list \<times> string list" where
  "KeysLoop now pattern [] acc = acc"
| "KeysLoop now pattern ((k, e) # t) (keys, gone) =
     (if KeyIsLiveExpired now e then KeysLoop now pattern t (keys, gone @ [k])
      else KeysLoop now pattern t (if GlobMatch pattern k then keys @ [k] else keys, gone))"

definition CmdKeys ::
  "int \<Rightarrow> nat \<Rightarrow> Args \<Rightarrow> Database \<Rightarrow> ServerStats \<Rightarrow> string \<Rightarrow> Database \<times> ServerStats \<times> string" where
  "CmdKeys now idx argv d stats out =
     (let (keys, gone) = KeysLoop now (argv ! 1) (table idx d) ([], []);
          (d1, stats1) =
            foldl (\<lambda>(d, st) k. (fst (Delete idx k d), st\<lparr>expired_keys := expired_keys st + 1\<rparr>))
              (d, stats) gone
      in (d1, stats1, AppendBulkArray out (sort keys)))"

datatype scan_error = ScanNotInt | ScanSyntax

fun ScanOptions :: "Args \<Rightarrow> string \<Rightarrow> int \<Rightarrow> scan_error + string \<times> int" where
  "ScanOptions [] pattern count = Inr (pattern, count)"
| "ScanOptions (a # rest) pattern count =
     (let u = ToUpper a
      in if u = ''MATCH'' \<and> rest \<noteq> [] then ScanOptions (tl rest) (hd rest) count
         else if u = ''COUNT'' \<and> rest \<noteq> [] then
           (case ParseIntStrict (hd rest) of
              None \<Rightarrow> Inl ScanNotInt
            | Some cnt \<Rightarrow> if cnt < 0 then Inl ScanNotInt else ScanOptions (tl rest) pattern cnt)
         else Inl ScanSyntax)"

fun ScanLoop :: "int \<Rightarrow> string \<Rightarrow> int \<Rightarrow> Table \<Rightarrow> string list \<Rightarrow> string list" where
  "ScanLoop now pattern count [] keys = keys"
| "ScanLoop now pattern count ((k, e) # t) keys =
     (if KeyIsLiveExpired now e then ScanLoop now pattern count t keys
      else let keys1 = (if GlobMatch pattern k then keys @ [k] else keys)
           in if count \<ge> 0 \<and> int (length keys1) \<ge> count then keys1
              else ScanLoop now pattern count t keys1)"

definition CmdScan :: "int \<Rightarrow> nat \<Rightarrow> Args \<Rightarrow> Database \<Rightarrow> string \<Rightarrow> string" where
  "CmdScan now idx argv d out =
     (case ParseIntStrict (argv ! 1) of
        None \<Rightarrow> AppendErrorReply out ''ERR invalid cursor''
      | Some cursor \<Rightarrow>
          if cursor \<noteq> 0 then AppendErrorReply out ''ERR invalid cursor''
          else case ScanOptions (drop 2 argv) ''*'' (- 1) of
                 Inl ScanNotInt \<Rightarrow> ErrNotInt out
               | Inl ScanSyntax \<Rightarrow> ErrSyntax out
               | Inr (pattern, count) \<Rightarrow>
                   AppendBulkArray (AppendBulkReply (AppendArrayReply out 2) ''0'')
                     (sort (ScanLoop now pattern count (table idx d) [])))"

text \<open>\<open>draw\<close> is the next output of the generator.\<close>

definition CmdRandomKey ::
  "nat \<Rightarrow> int \<Rightarrow> nat \<Rightarrow> Database \<Rightarrow> ServerStats \<Rightarrow> string \<Rightarrow> Database \<times> ServerStats \<times> string" where
  "CmdRandomKey draw now idx d stats out =
     (let t = table idx d
      in if t = [] then (d, stats, AppendNullBulkReply out)
         else let (k, e) = t ! (draw mod length t)
              in if KeyIsLiveExpired now e
                 then (fst (Delete idx k d), stats\<lparr>expired_keys := expired_keys stats + 1\<rparr>,
                       AppendNullBulkReply out)
                 else (d, stats, AppendBulkReply out k))"

definition CmdType :: "int \<Rightarrow> nat \<Rightarrow> Args \<Rightarrow> Database \<Rightarrow> string \<Rightarrow> Database \<times> string" where
  "CmdType now idx argv d out =
     (let (d1, e) = Lookup now idx (argv ! 1) d
      in (d1, case e of
                None \<Rightarrow> AppendSimpleReply out ''none''
              | Some e \<Rightarrow> AppendSimpleReply out (ValueTypeName (TypeOf (ent_value e)))))"

text \<open>
  \<open>std::move\<close> leaves the value of the old entry empty before \<open>Delete\<close> measures it: a moved
  string, hash, list or set of the standard library has no elements, and the dictionary of a
  moved sorted set neither.
\<close>

primrec moved_from :: "Value \<Rightarrow> Value" where
  "moved_from (RawString s) = RawString []"
| "moved_from (HashValue h) = HashValue []"
| "moved_from (ListValue l) = ListValue []"
| "moved_from (SetValue s) = SetValue []"
| "moved_from (ZSetValue sl dict) = ZSetValue sl []"

definition CmdRename :: "int \<Rightarrow> nat \<Rightarrow> Args \<Rightarrow> Database \<Rightarrow> string \<Rightarrow> Database \<times> string" where
  "CmdRename now idx argv d out =
     (let oldk = argv ! 1; newk = argv ! 2; (d1, e) = Lookup now idx oldk d
      in case e of
           None \<Rightarrow> (d1, AppendErrorReply out ''ERR no such key'')
         | Some e \<Rightarrow>
             if oldk = newk then (d1, AppendSimpleReply out ''OK'')
             else let d2 = assign_value idx oldk (moved_from (ent_value e)) d1;
                      d3 = fst (Delete idx oldk d2)
                  in (Set idx newk (ent_value e) (expires_at_ms e) d3, AppendSimpleReply out ''OK''))"

section \<open>Expiry times\<close>

definition CmdExpire ::
  "int \<Rightarrow> nat \<Rightarrow> Args \<Rightarrow> Database \<Rightarrow> string \<Rightarrow> bool \<Rightarrow> bool \<Rightarrow> (Database \<times> string) result" where
  "CmdExpire now idx argv d out at' ms =
     (case ParseIntStrict (argv ! 2) of
        None \<Rightarrow> Inr (d, ErrNotInt out)
      | Some v \<Rightarrow>
          let (d1, e) = Lookup now idx (argv ! 1) d
          in if e = None then Inr (d1, AppendIntReply out 0)
             else bind_result (if ms then Inr v else ll_check (v * 1000))
               (\<lambda>t. bind_result (if at' then Inr t else ll_check (now + t))
                 (\<lambda>expires. Inr (assign_expiry idx (argv ! 1) expires d1, AppendIntReply out 1))))"

definition CmdTtl :: "bool \<Rightarrow> int \<Rightarrow> nat \<Rightarrow> Args \<Rightarrow> Database \<Rightarrow> string \<Rightarrow> (Database \<times> string) result" where
  "CmdTtl seconds now idx argv d out =
     (let (d1, e) = Lookup now idx (argv ! 1) d
      in case e of
           None \<Rightarrow> Inr (d1, AppendIntReply out (- 2))
         | Some e \<Rightarrow>
             if expires_at_ms e = 0 then Inr (d1, AppendIntReply out (- 1))
             else bind_result (ll_check (expires_at_ms e - now))
               (\<lambda>rem. if rem \<le> 0 then Inr (d1, AppendIntReply out (- 2))
                      else bind_result (if seconds then ll_check (rem + 999) else Inr rem)
                        (\<lambda>r. Inr (d1, AppendIntReply out (if seconds then r div 1000 else r)))))"

definition CmdPersist :: "int \<Rightarrow> nat \<Rightarrow> Args \<Rightarrow> Database \<Rightarrow> string \<Rightarrow> Database \<times> string" where
  "CmdPersist now idx argv d out =
     (let (d1, e) = Lookup now idx (argv ! 1) d
      in case e of
           None \<Rightarrow> (d1, AppendIntReply out 0)
         | Some e \<Rightarrow> if expires_at_ms e = 0 then (d1, AppendIntReply out 0)
                     else (assign_expiry idx (argv ! 1) 0 d1, AppendIntReply out 1))"

section \<open>The contract\<close>

named_theorems key_ok \<open>contracts of the key commands\<close>

lemma DelLoop_ok:
  "evolves now i K d d0 \<Longrightarrow> set ks \<subseteq> K \<Longrightarrow> evolves now i K d (fst (DelLoop i ks d0 n))"
proof (induction ks arbitrary: d0 n)
  case (Cons k ks)
  then have "evolves now i K d (fst (Delete i k d0))" by (simp add: evolves_Delete)
  with Cons show ?case by (simp add: case_prod_beta)
qed simp

lemma CmdDel_ok [key_ok]:
  assumes "evolves now i K d d" and "set (drop 1 argv) \<subseteq> K"
  shows "handler_ok now i K d out (CmdDel i argv d out)"
  using DelLoop_ok [OF assms, of 0] by (simp add: CmdDel_def handler_ok_def case_prod_beta)

lemma ExistsLoop_ok: "evolves now i K d d0 \<Longrightarrow> evolves now i K d (fst (ExistsLoop now i ks d0 n))"
proof (induction ks arbitrary: d0 n)
  case (Cons k ks)
  from Cons.IH [OF evolves_Lookup [OF Cons.prems]] show ?case by (simp add: case_prod_beta)
qed simp

lemma CmdExists_ok [key_ok]:
  assumes "evolves now i K d d"
  shows "handler_ok now i K d out (CmdExists now i argv d out)"
  using ExistsLoop_ok [OF assms, of "drop 1 argv" 0] by (simp add: CmdExists_def handler_ok_def case_prod_beta)

lemma KeysLoop_eq:
  "KeysLoop now pat t (keys, gone) =
     (keys @ map fst (filter (\<lambda>kv. \<not> stale now (snd kv) \<and> GlobMatch pat (fst kv)) t),
      gone @ map fst (filter (\<lambda>kv. stale now (snd kv)) t))"
proof (induction t arbitrary: keys gone)
  case (Cons kv t)
  then show ?case by (cases kv) (auto simp: KeyIsLiveExpired_def stale_def)
qed simp

text \<open>Deleting keys whose entries are stale.\<close>

lemma table_Delete:
  "i < length (dbs d) \<Longrightarrow> table i (fst (Delete i k d)) = AList.delete k (table i d)"
  by (simp add: Delete_dbs table_def)

lemma foldl_stale_ok:
  assumes "evolves now i K d d0" and "distinct ks"
    and "\<forall>k\<in>set ks. \<exists>e. map_of (table i d0) k = Some e \<and> stale now e"
  shows "evolves now i K d (foldl (\<lambda>d k. fst (Delete i k d)) d0 ks)"
  using assms
proof (induction ks arbitrary: d0)
  case (Cons k ks)
  then obtain e where e: "map_of (table i d0) k = Some e" "stale now e" by auto
  have i: "i < length (dbs d0)" using Cons.prems(1) by (simp add: evolves_def db_good_def db_shape_def)
  have "evolves now i K d (fst (Delete i k d0))" by (rule evolves_Delete_stale [OF Cons.prems(1) e])
  moreover have "\<forall>k'\<in>set ks. \<exists>e. map_of (table i (fst (Delete i k d0))) k' = Some e \<and> stale now e"
    using Cons.prems(2,3) by (auto simp: table_Delete [OF i] delete_conv')
  ultimately show ?case using Cons.IH Cons.prems(2) by simp
qed simp

lemma foldl_count_eq:
  "foldl (\<lambda>(d, st) k. (fst (Delete i k d), st\<lparr>expired_keys := Suc (expired_keys st)\<rparr>)) (d, st) ks =
     (foldl (\<lambda>d k. fst (Delete i k d)) d ks, st\<lparr>expired_keys := expired_keys st + length ks\<rparr>)"
  by (induction ks arbitrary: d st) simp_all

lemma CmdKeys_ok:
  assumes "evolves now i K d d" and "CmdKeys now i argv d st out = (d', st', out')"
  shows "handler_ok now i K d out (d', out')"
proof -
  let ?gone = "map fst (filter (\<lambda>kv. stale now (snd kv)) (table i d))"
  have t: "distinct (map fst (table i d))"
    using assms(1) db_good_table [of d i] by (simp add: evolves_def table_ok_def)
  then have g: "distinct ?gone" by (rule distinct_map_filter)
  have "\<forall>k\<in>set ?gone. \<exists>e. map_of (table i d) k = Some e \<and> stale now e"
    using t by (force simp: map_of_eq_Some_iff)
  from foldl_stale_ok [OF assms(1) g this] show ?thesis
    using assms(2) by (auto simp: CmdKeys_def KeysLoop_eq foldl_count_eq Let_def intro!: handler_okI)
qed

lemma CmdScan_answers: "answers out (CmdScan now i argv d out)"
proof -
  have "answers out (AppendBulkArray (AppendBulkReply (AppendArrayReply out 2) ''0'') ks)" for ks
    by (rule answers_array [of _ _ "[RBulk ''0'', RArray (map RBulk ks)]"])
      (simp_all add: AppendBulkArray_eq AppendBulkReply_out [of "AppendArrayReply _ _"]
        encode_bulk_array del: encode_reply.simps(6))
  then show ?thesis
    by (auto simp: CmdScan_def split: option.split sum.split prod.split scan_error.split)
qed

lemma CmdScan_ok [key_ok]:
  "evolves now i K d d \<Longrightarrow> handler_ok now i K d out (d, CmdScan now i argv d out)"
  by (simp add: handler_ok_def CmdScan_answers)

lemma CmdRandomKey_ok:
  assumes "evolves now i K d d" and "CmdRandomKey draw now i d st out = (d', st', out')"
  shows "handler_ok now i K d out (d', out')"
proof (cases "table i d = []")
  case True
  with assms show ?thesis by (auto simp: CmdRandomKey_def Let_def handler_ok_def)
next
  case False
  obtain k e where ke: "table i d ! (draw mod length (table i d)) = (k, e)" by fastforce
  have "(k, e) \<in> set (table i d)" using False ke nth_mem [of "draw mod length (table i d)" "table i d"] by simp
  moreover have "distinct (map fst (table i d))"
    using assms(1) db_good_table [of d i] by (simp add: evolves_def table_ok_def)
  ultimately have "map_of (table i d) k = Some e" by (simp add: map_of_eq_Some_iff)
  with evolves_Delete_stale [OF assms(1)] assms False ke show ?thesis
    by (auto simp: CmdRandomKey_def Let_def handler_ok_def KeyIsLiveExpired_def stale_def split: if_splits)
qed

lemma one_line_type [simp]: "one_line (ValueTypeName t)"
  by (cases t) simp_all

lemma CmdType_ok [key_ok]:
  assumes "evolves now i K d d"
  shows "handler_ok now i K d out (CmdType now i argv d out)"
  using assms by (auto simp: CmdType_def intro!: handler_rules)

text \<open>The value that \<open>RENAME\<close> leaves behind is deleted at once.\<close>

lemma Delete_assign: "dbs (fst (Delete i k (assign_value i k v d))) = dbs (fst (Delete i k d))"
  by (cases "i < length (dbs d)")
    (simp_all add: Delete_dbs assign_value_def update_entry_dbs table_def delete_update_same list_update_beyond
      split: option.split)

lemma CmdRename_ok [key_ok]:
  assumes "evolves now i K d d" and "argv ! 1 \<in> K" and "argv ! 2 \<in> K"
  shows "handler_ok now i K d out (CmdRename now i argv d out)"
proof -
  have "evolves now i K d (fst (Delete i k (assign_value i k v d1)))" if "evolves now i K d d1" "k \<in> K" for d1 k v
    using evolves_Delete [OF that] evolves_cong [OF Delete_assign] by blast
  with assms show ?thesis
    by (auto simp: CmdRename_def Let_def intro!: handler_Lookup handler_okI evolves_Set)
qed

lemma CmdExpire_ok [key_ok]:
  assumes "evolves now i K d d" and "argv ! 1 \<in> K"
  shows "result_ok now i K d out (CmdExpire now i argv d out at' ms)"
  using assms by (auto simp: CmdExpire_def Let_def intro!: handler_rules split: option.split)

lemma CmdTtl_ok [key_ok]:
  assumes "evolves now i K d d"
  shows "result_ok now i K d out (CmdTtl seconds now i argv d out)"
  using assms by (auto simp: CmdTtl_def Let_def intro!: handler_rules split: option.split)

lemma CmdPersist_ok [key_ok]:
  assumes "evolves now i K d d" and "argv ! 1 \<in> K"
  shows "handler_ok now i K d out (CmdPersist now i argv d out)"
  using assms by (auto simp: CmdPersist_def intro!: handler_rules)

end
