(* ===== verification/CmdString.thy ===== *)
theory CmdString
  imports Contract
begin

text \<open>
  The string commands of \<open>src/commands.cpp\<close>: \<open>CmdSet\<close>, \<open>CmdIncrBy\<close> and the branches of
  \<open>Dispatch\<close> from \<open>GET\<close> to \<open>MSETNX\<close>.
\<close>

section \<open>SET\<close>

record set_options =
  ex_s :: int
  px_ms :: int
  opt_nx :: bool
  opt_xx :: bool
  keepttl :: bool
  want_get :: bool

text \<open>The option loop; \<open>None\<close> is the syntax error.\<close>

fun SetOptions :: "Args \<Rightarrow> set_options \<Rightarrow> set_options option" where
  "SetOptions [] p = Some p"
| "SetOptions (a # rest) p =
     (let u = ToUpper a
      in if u = ''NX'' then SetOptions rest (p\<lparr>opt_nx := True\<rparr>)
         else if u = ''XX'' then SetOptions rest (p\<lparr>opt_xx := True\<rparr>)
         else if u = ''KEEPTTL'' then SetOptions rest (p\<lparr>keepttl := True\<rparr>)
         else if u = ''GET'' then SetOptions rest (p\<lparr>want_get := True\<rparr>)
         else if u = ''EX'' \<and> rest \<noteq> [] then
           (case ParseIntStrict (hd rest) of
              None \<Rightarrow> None
            | Some v \<Rightarrow> if v \<le> 0 then None else SetOptions (tl rest) (p\<lparr>ex_s := v\<rparr>))
         else if u = ''PX'' \<and> rest \<noteq> [] then
           (case ParseIntStrict (hd rest) of
              None \<Rightarrow> None
            | Some v \<Rightarrow> if v \<le> 0 then None else SetOptions (tl rest) (p\<lparr>px_ms := v\<rparr>))
         else None)"

definition no_set_options :: set_options where
  "no_set_options = \<lparr>ex_s = - 1, px_ms = - 1, opt_nx = False, opt_xx = False,
     keepttl = False, want_get = False\<rparr>"

definition SetExpiry :: "int \<Rightarrow> set_options \<Rightarrow> Entry option \<Rightarrow> int result" where
  "SetExpiry now p e =
     bind_result
       (if ex_s p > 0 then bind_result (ll_check (ex_s p * 1000)) (\<lambda>t. ll_check (now + t))
        else Inr (case e of None \<Rightarrow> 0 | Some e \<Rightarrow> if keepttl p then expires_at_ms e else 0))
       (\<lambda>expires. if px_ms p > 0 then ll_check (now + px_ms p) else Inr expires)"

definition CmdSet ::
  "int \<Rightarrow> nat \<Rightarrow> Args \<Rightarrow> Database \<Rightarrow> string \<Rightarrow> (Database \<times> string) result" where
  "CmdSet now idx argv d out =
     (let key = argv ! 1; val = argv ! 2
      in case SetOptions (drop 3 argv) no_set_options of
           None \<Rightarrow> Inr (d, ErrSyntax out)
         | Some p \<Rightarrow>
             if opt_nx p \<and> opt_xx p then Inr (d, ErrSyntax out)
             else let (d1, e) = Lookup now idx key d;
                      wrong = want_get p \<and> e \<noteq> None \<and> get_string (ent_value (the e)) = None;
                      out1 = (if want_get p
                              then case e of
                                     None \<Rightarrow> AppendNullBulkReply out
                                   | Some e \<Rightarrow> (case get_string (ent_value e) of
                                                  Some s \<Rightarrow> AppendBulkReply out s
                                                | None \<Rightarrow> ErrWrongType out)
                              else out)
                  in if wrong then Inr (d1, out1)
                     else if e \<noteq> None \<and> opt_nx p \<or> e = None \<and> opt_xx p
                     then Inr (d1, if want_get p then out1 else AppendNullBulkReply out1)
                     else bind_result (SetExpiry now p e)
                            (\<lambda>expires. Inr (Set idx key (RawString val) expires d1,
                               if want_get p then out1 else AppendSimpleReply out1 ''OK'')))"

section \<open>Counters\<close>

definition add_overflow :: "int \<Rightarrow> int \<Rightarrow> int option" where
  "add_overflow a b = (if in_ll (a + b) then Some (a + b) else None)"

text \<open>The two halves of \<open>CmdIncrBy\<close>, from the current string on; an empty string counts as zero.\<close>

definition current_float :: "float_format \<Rightarrow> string \<Rightarrow> fl option" where
  "current_float ld s = (if s = [] then Some (Fin False 0) else ParseLongDoubleStrict ld s)"

definition current_int :: "string \<Rightarrow> int option" where
  "current_int s = (if s = [] then Some 0 else ParseIntStrict s)"

definition IncrFloat ::
  "float_format \<Rightarrow> nat \<Rightarrow> string \<Rightarrow> string \<Rightarrow> string \<Rightarrow> Database \<Rightarrow> string \<Rightarrow> (Database \<times> string) result" where
  "IncrFloat ld idx key s arg d out =
     (case current_float ld s of
        None \<Rightarrow> Inr (d, ErrNotFloat out)
      | Some cur \<Rightarrow>
          (case ParseLongDoubleStrict ld arg of
             None \<Rightarrow> Inr (d, ErrNotFloat out)
           | Some delta \<Rightarrow>
               let res = fl_add ld cur delta
               in if fl_isnan res \<or> fl_isinf res then Inr (d, ErrIncrOverflow out)
                  else bind_result (FormatLongDouble ld res)
                         (\<lambda>t. Inr (assign_value idx key (RawString t) d, AppendBulkReply out t))))"

definition IncrInt :: "nat \<Rightarrow> string \<Rightarrow> string \<Rightarrow> int \<Rightarrow> Database \<Rightarrow> string \<Rightarrow> Database \<times> string" where
  "IncrInt idx key s by d out =
     (case current_int s of
        None \<Rightarrow> (d, ErrNotInt out)
      | Some cur \<Rightarrow>
          (case add_overflow cur by of
             None \<Rightarrow> (d, ErrNotInt out)
           | Some res \<Rightarrow> (assign_value idx key (RawString (int_str res)) d, AppendIntReply out res)))"

definition CmdIncrBy ::
  "float_format \<Rightarrow> int \<Rightarrow> nat \<Rightarrow> Args \<Rightarrow> Database \<Rightarrow> string \<Rightarrow> int \<Rightarrow> bool \<Rightarrow> (Database \<times> string) result" where
  "CmdIncrBy ld now idx argv d out by is_float =
     (let key = argv ! 1; (d1, rs) = GetOrCreateStringEntry now idx key d
      in case rs of
           None \<Rightarrow> Inr (d1, ErrWrongType out)
         | Some s \<Rightarrow> if is_float then IncrFloat ld idx key s (argv ! 2) d1 out
                     else Inr (IncrInt idx key s by d1 out))"

definition CmdIncrByArg ::
  "float_format \<Rightarrow> int \<Rightarrow> nat \<Rightarrow> Args \<Rightarrow> Database \<Rightarrow> string \<Rightarrow> (Database \<times> string) result" where
  "CmdIncrByArg ld now idx argv d out =
     (case ParseIntStrict (argv ! 2) of
        None \<Rightarrow> Inr (d, ErrNotInt out)
      | Some by \<Rightarrow> CmdIncrBy ld now idx argv d out by False)"

definition CmdDecrByArg ::
  "float_format \<Rightarrow> int \<Rightarrow> nat \<Rightarrow> Args \<Rightarrow> Database \<Rightarrow> string \<Rightarrow> (Database \<times> string) result" where
  "CmdDecrByArg ld now idx argv d out =
     (case ParseIntStrict (argv ! 2) of
        None \<Rightarrow> Inr (d, ErrNotInt out)
      | Some by \<Rightarrow> if in_ll (0 - by) then CmdIncrBy ld now idx argv d out (0 - by) False
                   else Inr (d, ErrNotInt out))"

section \<open>Plain reads and writes\<close>

definition CmdGet :: "int \<Rightarrow> nat \<Rightarrow> Args \<Rightarrow> Database \<Rightarrow> string \<Rightarrow> Database \<times> string" where
  "CmdGet now idx argv d out =
     (let (d1, st) = GetTyped get_string now idx (argv ! 1) d
      in (d1, case st of
                kWrongType \<Rightarrow> ErrWrongType out
              | kMissing \<Rightarrow> AppendNullBulkReply out
              | kFound s \<Rightarrow> AppendBulkReply out s))"

definition CmdSetNx :: "int \<Rightarrow> nat \<Rightarrow> Args \<Rightarrow> Database \<Rightarrow> string \<Rightarrow> Database \<times> string" where
  "CmdSetNx now idx argv d out =
     (let (d1, e) = Lookup now idx (argv ! 1) d
      in if e \<noteq> None then (d1, AppendIntReply out 0)
         else (Set idx (argv ! 1) (RawString (argv ! 2)) 0 d1, AppendIntReply out 1))"

definition CmdSetEx ::
  "bool \<Rightarrow> int \<Rightarrow> nat \<Rightarrow> Args \<Rightarrow> Database \<Rightarrow> string \<Rightarrow> (Database \<times> string) result" where
  "CmdSetEx seconds now idx argv d out =
     (case ParseIntStrict (argv ! 2) of
        None \<Rightarrow> Inr (d, ErrNotInt out)
      | Some v \<Rightarrow>
          if v \<le> 0 then Inr (d, ErrNotInt out)
          else bind_result (if seconds then ll_check (v * 1000) else Inr v)
                 (\<lambda>t. bind_result (ll_check (now + t))
                   (\<lambda>expires. Inr (Set idx (argv ! 1) (RawString (argv ! 3)) expires d,
                                   AppendSimpleReply out ''OK''))))"

definition CmdGetSet :: "int \<Rightarrow> nat \<Rightarrow> Args \<Rightarrow> Database \<Rightarrow> string \<Rightarrow> Database \<times> string" where
  "CmdGetSet now idx argv d out =
     (let (d1, st) = GetTyped get_string now idx (argv ! 1) d
      in case st of
           kWrongType \<Rightarrow> (d1, ErrWrongType out)
         | kMissing \<Rightarrow> (Set idx (argv ! 1) (RawString (argv ! 2)) 0 d1, AppendNullBulkReply out)
         | kFound old \<Rightarrow> (Set idx (argv ! 1) (RawString (argv ! 2)) 0 d1, AppendBulkReply out old))"

definition CmdGetDel :: "int \<Rightarrow> nat \<Rightarrow> Args \<Rightarrow> Database \<Rightarrow> string \<Rightarrow> Database \<times> string" where
  "CmdGetDel now idx argv d out =
     (let (d1, st) = GetTyped get_string now idx (argv ! 1) d
      in case st of
           kWrongType \<Rightarrow> (d1, ErrWrongType out)
         | kMissing \<Rightarrow> (d1, AppendNullBulkReply out)
         | kFound s \<Rightarrow> (fst (Delete idx (argv ! 1) d1), AppendBulkReply out s))"

definition CmdGetRange :: "int \<Rightarrow> nat \<Rightarrow> Args \<Rightarrow> Database \<Rightarrow> string \<Rightarrow> Database \<times> string" where
  "CmdGetRange now idx argv d out =
     (let (d1, st) = GetTyped get_string now idx (argv ! 1) d
      in if is_wrong st then (d1, ErrWrongType out)
         else let s = (case st of kFound s \<Rightarrow> s | _ \<Rightarrow> []); len = int (length s)
              in case (ParseIntStrict (argv ! 2), ParseIntStrict (argv ! 3)) of
                   (Some start, Some end') \<Rightarrow>
                     if len = 0 then (d1, AppendBulkReply out [])
                     else let start1 = (if start < 0 then start + len else start);
                              end1 = (if end' < 0 then end' + len else end');
                              start2 = (if start1 < 0 then 0 else start1);
                              end2 = (if end1 \<ge> len then len - 1 else end1)
                          in if start2 > end2 \<or> start2 \<ge> len \<or> end2 < 0
                             then (d1, AppendBulkReply out [])
                             else (d1, AppendBulkReply out
                                         (take (nat (end2 - start2 + 1)) (drop (nat start2) s)))
                 | _ \<Rightarrow> (d1, ErrNotInt out))"

definition overwrite :: "nat \<Rightarrow> string \<Rightarrow> string \<Rightarrow> string" where
  "overwrite offset v s =
     (let n = offset + length v;
          s1 = (if length s < n then s @ replicate (n - length s) (CHR 0x00) else s)
      in take offset s1 @ v @ drop n s1)"

definition CmdSetRange ::
  "int \<Rightarrow> nat \<Rightarrow> Args \<Rightarrow> Database \<Rightarrow> string \<Rightarrow> (Database \<times> string) result" where
  "CmdSetRange now idx argv d out =
     (case ParseIntStrict (argv ! 2) of
        None \<Rightarrow> Inr (d, AppendErrorReply out ''ERR offset is out of range'')
      | Some offset \<Rightarrow>
          if offset < 0 then Inr (d, AppendErrorReply out ''ERR offset is out of range'')
          else bind_result (ll_check (offset + int (length (argv ! 3))))
            (\<lambda>total.
               if total > 512 * 1024 * 1024
               then Inr (d, AppendErrorReply out
                      ''ERR string exceeds maximum allowed size (proto-max-bulk-len)'')
               else let (d1, rs) = GetOrCreateStringEntry now idx (argv ! 1) d
                    in case rs of
                         None \<Rightarrow> Inr (d1, ErrWrongType out)
                       | Some s \<Rightarrow>
                           let t = overwrite (nat offset) (argv ! 3) s
                           in Inr (assign_value idx (argv ! 1) (RawString t) d1,
                                   AppendIntReply out (int (length t)))))"

definition CmdStrLen :: "int \<Rightarrow> nat \<Rightarrow> Args \<Rightarrow> Database \<Rightarrow> string \<Rightarrow> Database \<times> string" where
  "CmdStrLen now idx argv d out =
     (let (d1, st) = GetTyped get_string now idx (argv ! 1) d
      in (d1, case st of
                kWrongType \<Rightarrow> ErrWrongType out
              | kFound s \<Rightarrow> AppendIntReply out (int (length s))
              | kMissing \<Rightarrow> AppendIntReply out 0))"

definition CmdAppend :: "int \<Rightarrow> nat \<Rightarrow> Args \<Rightarrow> Database \<Rightarrow> string \<Rightarrow> Database \<times> string" where
  "CmdAppend now idx argv d out =
     (let (d1, rs) = GetOrCreateStringEntry now idx (argv ! 1) d
      in case rs of
           None \<Rightarrow> (d1, ErrWrongType out)
         | Some s \<Rightarrow> (assign_value idx (argv ! 1) (RawString (s @ argv ! 2)) d1,
                      AppendIntReply out (int (length (s @ argv ! 2)))))"

section \<open>Several keys\<close>

fun MGetLoop :: "int \<Rightarrow> nat \<Rightarrow> Args \<Rightarrow> Database \<Rightarrow> string \<Rightarrow> Database \<times> string" where
  "MGetLoop now idx [] d out = (d, out)"
| "MGetLoop now idx (k # ks) d out =
     (let (d1, st) = GetTyped get_string now idx k d
      in MGetLoop now idx ks d1
           (case st of kFound s \<Rightarrow> AppendBulkReply out s | _ \<Rightarrow> AppendNullBulkReply out))"

definition CmdMGet :: "int \<Rightarrow> nat \<Rightarrow> Args \<Rightarrow> Database \<Rightarrow> string \<Rightarrow> Database \<times> string" where
  "CmdMGet now idx argv d out =
     MGetLoop now idx (drop 1 argv) d (AppendArrayReply out (int (length argv) - 1))"

fun AnyPresent :: "int \<Rightarrow> nat \<Rightarrow> Args \<Rightarrow> Database \<Rightarrow> Database \<times> bool" where
  "AnyPresent now idx (k # v # rest) d =
     (let (d1, e) = Lookup now idx k d
      in if e \<noteq> None then (d1, True) else AnyPresent now idx rest d1)"
| "AnyPresent now idx _ d = (d, False)"

fun MSetLoop :: "nat \<Rightarrow> Args \<Rightarrow> Database \<Rightarrow> Database" where
  "MSetLoop idx (k # v # rest) d = MSetLoop idx rest (Set idx k (RawString v) 0 d)"
| "MSetLoop idx _ d = d"

definition CmdMSet :: "int \<Rightarrow> nat \<Rightarrow> Args \<Rightarrow> Database \<Rightarrow> string \<Rightarrow> Database \<times> string" where
  "CmdMSet now idx argv d out =
     (let upper = ToUpper (argv ! 0); lower = ToLower (argv ! 0)
      in if (length argv - 1) mod 2 \<noteq> 0 then (d, ErrWrongArgs out lower)
         else let (d1, present) =
                    (if upper = ''MSETNX'' then AnyPresent now idx (drop 1 argv) d else (d, False))
              in if present then (d1, AppendIntReply out 0)
                 else (MSetLoop idx (drop 1 argv) d1,
                       if upper = ''MSET'' then AppendSimpleReply out ''OK'' else AppendIntReply out 1))"

section \<open>The contract\<close>

text \<open>Every string command keeps the database well-formed, changes nothing but the keys it names,
  and appends one reply.\<close>

named_theorems string_ok \<open>contracts of the string commands\<close>

lemma CmdSet_ok [string_ok]:
  assumes "evolves now i K d d" and "argv ! 1 \<in> K"
  shows "result_ok now i K d out (CmdSet now i argv d out)"
  using assms by (auto simp: CmdSet_def Let_def intro!: handler_rules split: option.split)

lemma IncrFloat_ok:
  "evolves now i K d d1 \<Longrightarrow> key \<in> K \<Longrightarrow> result_ok now i K d out (IncrFloat ld i key s arg d1 out)"
  by (auto simp: IncrFloat_def Let_def intro!: handler_rules split: option.split)

lemma IncrInt_ok:
  "evolves now i K d d1 \<Longrightarrow> key \<in> K \<Longrightarrow> handler_ok now i K d out (IncrInt i key s by d1 out)"
  by (auto simp: IncrInt_def intro!: handler_rules split: option.split)

lemma CmdIncrBy_ok [string_ok]:
  assumes "evolves now i K d d" and "argv ! 1 \<in> K"
  shows "result_ok now i K d out (CmdIncrBy ld now i argv d out by is_float)"
  using assms
  by (auto simp: CmdIncrBy_def GetOrCreateStringEntry_def Let_def IncrFloat_ok IncrInt_ok
      intro!: handler_rules)

lemma CmdIncrByArg_ok [string_ok]:
  assumes "evolves now i K d d" and "argv ! 1 \<in> K"
  shows "result_ok now i K d out (CmdIncrByArg ld now i argv d out)"
    and "result_ok now i K d out (CmdDecrByArg ld now i argv d out)"
  using assms
  by (auto simp: CmdIncrByArg_def CmdDecrByArg_def CmdIncrBy_ok intro!: handler_rules split: option.split)

lemma CmdGet_ok [string_ok]:
  assumes "evolves now i K d d"
  shows "handler_ok now i K d out (CmdGet now i argv d out)"
  using assms by (auto simp: CmdGet_def intro!: handler_rules)

lemma CmdSetNx_ok [string_ok]:
  assumes "evolves now i K d d" and "argv ! 1 \<in> K"
  shows "handler_ok now i K d out (CmdSetNx now i argv d out)"
  using assms by (auto simp: CmdSetNx_def intro!: handler_rules)

lemma CmdSetEx_ok [string_ok]:
  assumes "evolves now i K d d" and "argv ! 1 \<in> K"
  shows "result_ok now i K d out (CmdSetEx seconds now i argv d out)"
  using assms by (auto simp: CmdSetEx_def intro!: handler_rules split: option.split)

lemma CmdGetSet_ok [string_ok]:
  assumes "evolves now i K d d" and "argv ! 1 \<in> K"
  shows "handler_ok now i K d out (CmdGetSet now i argv d out)"
  using assms by (auto simp: CmdGetSet_def intro!: handler_rules)

lemma CmdGetDel_ok [string_ok]:
  assumes "evolves now i K d d" and "argv ! 1 \<in> K"
  shows "handler_ok now i K d out (CmdGetDel now i argv d out)"
  using assms by (auto simp: CmdGetDel_def intro!: handler_rules)

lemma CmdGetRange_ok [string_ok]:
  assumes "evolves now i K d d"
  shows "handler_ok now i K d out (CmdGetRange now i argv d out)"
  using assms by (auto simp: CmdGetRange_def Let_def intro!: handler_rules split: option.split)

lemma CmdSetRange_ok [string_ok]:
  assumes "evolves now i K d d" and "argv ! 1 \<in> K"
  shows "result_ok now i K d out (CmdSetRange now i argv d out)"
  using assms
  by (auto simp: CmdSetRange_def GetOrCreateStringEntry_def Let_def intro!: handler_rules split: option.split)

lemma CmdStrLen_ok [string_ok]:
  assumes "evolves now i K d d"
  shows "handler_ok now i K d out (CmdStrLen now i argv d out)"
  using assms by (auto simp: CmdStrLen_def intro!: handler_rules)

lemma CmdAppend_ok [string_ok]:
  assumes "evolves now i K d d" and "argv ! 1 \<in> K"
  shows "handler_ok now i K d out (CmdAppend now i argv d out)"
  using assms by (auto simp: CmdAppend_def GetOrCreateStringEntry_def intro!: handler_rules)

lemma MGetLoop_replies:
  assumes "evolves now i K d d0"
  shows "\<exists>d' rs. MGetLoop now i ks d0 out = (d', out @ concat (map encode_reply rs)) \<and>
    length rs = length ks \<and> (\<forall>r\<in>set rs. reply_ok r) \<and> evolves now i K d d'"
  using assms
proof (induction ks arbitrary: d0 out)
  case Nil
  then show ?case by (intro exI [of _ d0] exI [of _ "[]"]) simp
next
  case (Cons k ks)
  obtain d1 st where st: "GetTyped get_string now i k d0 = (d1, st)" by fastforce
  have d1: "evolves now i K d d1" using evolves_GetTyped [OF Cons.prems, of get_string k] st by simp
  let ?r = "case st of kFound s \<Rightarrow> RBulk s | _ \<Rightarrow> RNil"
  have o: "(case st of kFound s \<Rightarrow> AppendBulkReply out s | _ \<Rightarrow> AppendNullBulkReply out) = out @ encode_reply ?r"
    by (cases st) (simp_all add: append_defs)
  from Cons.IH [OF d1, of "out @ encode_reply ?r"] obtain d' rs where
    "MGetLoop now i ks d1 (out @ encode_reply ?r) = (d', (out @ encode_reply ?r) @ concat (map encode_reply rs))"
    "length rs = length ks" "\<forall>r\<in>set rs. reply_ok r" "evolves now i K d d'"
    by (elim exE conjE) (rule that)
  then show ?case
    using st o by (intro exI [of _ d'] exI [of _ "?r # rs"]) (auto split: LookupResult.split)
qed

lemma CmdMGet_ok [string_ok]:
  assumes "evolves now i K d d" and "argv \<noteq> []"
  shows "handler_ok now i K d out (CmdMGet now i argv d out)"
proof -
  let ?h = "AppendArrayReply out (int (length argv) - 1)"
  obtain d' rs where r: "MGetLoop now i (drop 1 argv) d ?h = (d', ?h @ concat (map encode_reply rs))"
    "length rs = length (drop 1 argv)" "\<forall>r\<in>set rs. reply_ok r" "evolves now i K d d'"
    using MGetLoop_replies [OF assms(1), of "drop 1 argv" ?h] by (elim exE conjE) (rule that)
  have "int (length argv) - 1 = int (length rs)" using assms(2) r(2) by (cases argv) simp_all
  with r(3) have "answers out (?h @ concat (map encode_reply rs))" by (intro answers_array [of _ _ rs]) simp_all
  with r show ?thesis by (simp add: CmdMGet_def handler_ok_def)
qed

lemma AnyPresent_ok: "evolves now i K d d0 \<Longrightarrow> evolves now i K d (fst (AnyPresent now i ks d0))"
proof (induction now i ks d0 rule: AnyPresent.induct)
  case (1 now i k v rest d0)
  then show ?case
    using evolves_Lookup [OF "1.prems", of k] by (cases "Lookup now i k d0") auto
qed simp_all

lemma MSetLoop_ok: "evolves now i K d d0 \<Longrightarrow> set ks \<subseteq> K \<Longrightarrow> evolves now i K d (MSetLoop i ks d0)"
  by (induction i ks d0 rule: MSetLoop.induct) (simp_all add: evolves_Set)

lemma CmdMSet_ok [string_ok]:
  assumes "evolves now i K d d" and "set (drop 1 argv) \<subseteq> K" and "one_line (argv ! 0)"
  shows "handler_ok now i K d out (CmdMSet now i argv d out)"
proof -
  obtain d1 p where d1: "(if ToUpper (argv ! 0) = ''MSETNX'' then AnyPresent now i (drop 1 argv) d
      else (d, False)) = (d1, p)" by fastforce
  then have "evolves now i K d d1"
    using assms(1) AnyPresent_ok [OF assms(1), of "drop 1 argv"] by (auto split: if_splits)
  with d1 assms MSetLoop_ok [of now i K d d1 "drop 1 argv"] show ?thesis
    by (auto simp: CmdMSet_def Let_def intro!: handler_okI)
qed

end
