(* ===== verification/CmdHash.thy ===== *)
theory CmdHash
  imports CmdString
begin

text \<open>
  The hash commands of \<open>src/commands.cpp\<close>: the branches of \<open>Dispatch\<close> from \<open>HSET\<close> to
  \<open>HINCRBYFLOAT\<close>. \<open>HGET\<close>, \<open>HMGET\<close>, \<open>HDEL\<close> and \<open>HSTRLEN\<close> use the pointer that the typed lookup
  leaves null when the key is missing.
\<close>

section \<open>Writes\<close>

fun HSetLoop :: "Args \<Rightarrow> (string \<times> string) list \<Rightarrow> int \<Rightarrow> (string \<times> string) list \<times> int" where
  "HSetLoop (f # v # rest) h added =
     HSetLoop rest (AList.update f v h) (if map_of h f = None then added + 1 else added)"
| "HSetLoop _ h added = (h, added)"

definition CmdHSet :: "int \<Rightarrow> nat \<Rightarrow> Args \<Rightarrow> Database \<Rightarrow> string \<Rightarrow> Database \<times> string" where
  "CmdHSet now idx argv d out =
     (let upper = ToUpper (argv ! 0); lower = ToLower (argv ! 0)
      in if (length argv - 2) mod 2 \<noteq> 0 then (d, ErrWrongArgs out lower)
         else let (d1, h) = HashOrCreate now idx (argv ! 1) d
              in case h of
                   None \<Rightarrow> (d1, ErrWrongType out)
                 | Some h \<Rightarrow>
                     let (h1, added) = HSetLoop (drop 2 argv) h 0
                     in (assign_value idx (argv ! 1) (HashValue h1) d1,
                         if upper = ''HMSET'' then AppendSimpleReply out ''OK''
                         else AppendIntReply out added))"

fun HDelLoop :: "Args \<Rightarrow> (string \<times> string) list \<Rightarrow> int \<Rightarrow> (string \<times> string) list \<times> int" where
  "HDelLoop [] h n = (h, n)"
| "HDelLoop (f # fs) h n =
     HDelLoop fs (AList.delete f h) (n + (if map_of h f = None then 0 else 1))"

definition CmdHDel ::
  "int \<Rightarrow> nat \<Rightarrow> Args \<Rightarrow> Database \<Rightarrow> string \<Rightarrow> (Database \<times> string) result" where
  "CmdHDel now idx argv d out =
     (let (d1, st) = GetTyped get_hash now idx (argv ! 1) d
      in case st of
           kWrongType \<Rightarrow> Inr (d1, ErrWrongType out)
         | kMissing \<Rightarrow> if length argv > 2 then Inl NullDeref else Inr (d1, AppendIntReply out 0)
         | kFound h \<Rightarrow>
             let (h1, n) = HDelLoop (drop 2 argv) h 0
             in Inr (assign_value idx (argv ! 1) (HashValue h1) d1, AppendIntReply out n))"

definition CmdHSetNx :: "int \<Rightarrow> nat \<Rightarrow> Args \<Rightarrow> Database \<Rightarrow> string \<Rightarrow> Database \<times> string" where
  "CmdHSetNx now idx argv d out =
     (let (d1, h) = HashOrCreate now idx (argv ! 1) d
      in case h of
           None \<Rightarrow> (d1, ErrWrongType out)
         | Some h \<Rightarrow>
             if map_of h (argv ! 2) \<noteq> None then (d1, AppendIntReply out 0)
             else (assign_value idx (argv ! 1) (HashValue (AList.update (argv ! 2) (argv ! 3) h)) d1,
                   AppendIntReply out 1))"

definition CmdHIncrBy :: "int \<Rightarrow> nat \<Rightarrow> Args \<Rightarrow> Database \<Rightarrow> string \<Rightarrow> Database \<times> string" where
  "CmdHIncrBy now idx argv d out =
     (case ParseIntStrict (argv ! 3) of
        None \<Rightarrow> (d, ErrNotInt out)
      | Some by \<Rightarrow>
          let (d1, h) = HashOrCreate now idx (argv ! 1) d;
              store = (\<lambda>h v. (assign_value idx (argv ! 1)
                                (HashValue (AList.update (argv ! 2) (int_str v) h)) d1,
                              AppendIntReply out v))
          in case h of
               None \<Rightarrow> (d1, ErrWrongType out)
             | Some h \<Rightarrow>
                 (case map_of h (argv ! 2) of
                    None \<Rightarrow> store h by
                  | Some s \<Rightarrow>
                      (case ParseIntStrict s of
                         None \<Rightarrow> (d1, ErrHashNotInt out)
                       | Some cur \<Rightarrow>
                           (case add_overflow cur by of
                              None \<Rightarrow> (d1, ErrNotInt out)
                            | Some res \<Rightarrow> store h res))))"

definition CmdHIncrByFloat ::
  "float_format \<Rightarrow> int \<Rightarrow> nat \<Rightarrow> Args \<Rightarrow> Database \<Rightarrow> string \<Rightarrow> (Database \<times> string) result" where
  "CmdHIncrByFloat ld now idx argv d out =
     (case ParseLongDoubleStrict ld (argv ! 3) of
        None \<Rightarrow> Inr (d, ErrNotFloat out)
      | Some by \<Rightarrow>
          let (d1, h) = HashOrCreate now idx (argv ! 1) d
          in case h of
               None \<Rightarrow> Inr (d1, ErrWrongType out)
             | Some h \<Rightarrow>
                 (case (case map_of h (argv ! 2) of
                          None \<Rightarrow> Some (Fin False 0)
                        | Some s \<Rightarrow> ParseLongDoubleStrict ld s) of
                    None \<Rightarrow> Inr (d1, ErrHashNotFloat out)
                  | Some cur \<Rightarrow>
                      let res = fl_add ld cur by
                      in if fl_isnan res \<or> fl_isinf res then Inr (d1, ErrIncrOverflow out)
                         else bind_result (FormatLongDouble ld res)
                                (\<lambda>s. Inr (assign_value idx (argv ! 1)
                                            (HashValue (AList.update (argv ! 2) s h)) d1,
                                          AppendBulkReply out s))))"

section \<open>Reads\<close>

definition CmdHGet ::
  "int \<Rightarrow> nat \<Rightarrow> Args \<Rightarrow> Database \<Rightarrow> string \<Rightarrow> (Database \<times> string) result" where
  "CmdHGet now idx argv d out =
     (let (d1, st) = GetTyped get_hash now idx (argv ! 1) d
      in case st of
           kWrongType \<Rightarrow> Inr (d1, ErrWrongType out)
         | kMissing \<Rightarrow> Inl NullDeref
         | kFound h \<Rightarrow>
             (case map_of h (argv ! 2) of
                None \<Rightarrow> Inr (d1, AppendNullBulkReply out)
              | Some v \<Rightarrow> Inr (d1, AppendBulkReply out v)))"

definition HMGetReply :: "(string \<times> string) list \<Rightarrow> string \<Rightarrow> string \<Rightarrow> string" where
  "HMGetReply h out f =
     (case map_of h f of None \<Rightarrow> AppendNullBulkReply out | Some v \<Rightarrow> AppendBulkReply out v)"

definition CmdHMGet ::
  "int \<Rightarrow> nat \<Rightarrow> Args \<Rightarrow> Database \<Rightarrow> string \<Rightarrow> (Database \<times> string) result" where
  "CmdHMGet now idx argv d out =
     (let (d1, st) = GetTyped get_hash now idx (argv ! 1) d;
          out1 = AppendArrayReply out (int (length argv) - 2)
      in case st of
           kWrongType \<Rightarrow> Inr (d1, ErrWrongType out)
         | kMissing \<Rightarrow> if length argv > 2 then Inl NullDeref else Inr (d1, out1)
         | kFound h \<Rightarrow> Inr (d1, foldl (HMGetReply h) out1 (drop 2 argv)))"

definition CmdHGetAll :: "int \<Rightarrow> nat \<Rightarrow> Args \<Rightarrow> Database \<Rightarrow> string \<Rightarrow> Database \<times> string" where
  "CmdHGetAll now idx argv d out =
     (let upper = ToUpper (argv ! 0); (d1, st) = GetTyped get_hash now idx (argv ! 1) d
      in (d1, case st of
                kWrongType \<Rightarrow> ErrWrongType out
              | kMissing \<Rightarrow> AppendEmptyArrayReply out
              | kFound h \<Rightarrow>
                  let keys = sort (map fst h); vals = sort (map snd h)
                  in if upper = ''HGETALL''
                     then foldl (\<lambda>out k. AppendBulkReply (AppendBulkReply out k) (the (map_of h k)))
                            (AppendArrayReply out (int (length keys) * 2)) keys
                     else if upper = ''HKEYS'' then AppendBulkArray out keys
                     else AppendBulkArray out vals))"

definition CmdHExists :: "int \<Rightarrow> nat \<Rightarrow> Args \<Rightarrow> Database \<Rightarrow> string \<Rightarrow> Database \<times> string" where
  "CmdHExists now idx argv d out =
     (let (d1, st) = GetTyped get_hash now idx (argv ! 1) d
      in (d1, case st of
                kWrongType \<Rightarrow> ErrWrongType out
              | kMissing \<Rightarrow> AppendIntReply out 0
              | kFound h \<Rightarrow> AppendIntReply out (if map_of h (argv ! 2) \<noteq> None then 1 else 0)))"

definition CmdHLen :: "int \<Rightarrow> nat \<Rightarrow> Args \<Rightarrow> Database \<Rightarrow> string \<Rightarrow> Database \<times> string" where
  "CmdHLen now idx argv d out =
     (let (d1, st) = GetTyped get_hash now idx (argv ! 1) d
      in (d1, case st of
                kWrongType \<Rightarrow> ErrWrongType out
              | kMissing \<Rightarrow> AppendIntReply out 0
              | kFound h \<Rightarrow> AppendIntReply out (int (length h))))"

definition CmdHStrLen ::
  "int \<Rightarrow> nat \<Rightarrow> Args \<Rightarrow> Database \<Rightarrow> string \<Rightarrow> (Database \<times> string) result" where
  "CmdHStrLen now idx argv d out =
     (let (d1, st) = GetTyped get_hash now idx (argv ! 1) d
      in case st of
           kWrongType \<Rightarrow> Inr (d1, ErrWrongType out)
         | kMissing \<Rightarrow> Inl NullDeref
         | kFound h \<Rightarrow>
             Inr (d1, AppendIntReply out
                   (case map_of h (argv ! 2) of None \<Rightarrow> 0 | Some v \<Rightarrow> int (length v))))"

section \<open>The contract\<close>

named_theorems hash_ok \<open>contracts of the hash commands\<close>

lemma HSetLoop_distinct: "distinct (map fst h) \<Longrightarrow> distinct (map fst (fst (HSetLoop args h n)))"
  by (induction args h n rule: HSetLoop.induct) simp_all

lemma HDelLoop_distinct: "distinct (map fst h) \<Longrightarrow> distinct (map fst (fst (HDelLoop args h n)))"
  by (induction args h n rule: HDelLoop.induct) simp_all

lemma CmdHSet_ok [hash_ok]:
  assumes "evolves now i K d d" and "argv ! 1 \<in> K" and "one_line (argv ! 0)"
  shows "handler_ok now i K d out (CmdHSet now i argv d out)"
  using assms HSetLoop_distinct [of _ "drop 2 argv" 0]
  by (auto simp: CmdHSet_def HashOrCreate_def Let_def case_prod_beta [of _ "HSetLoop _ _ _"]
      intro!: handler_rules)

lemma CmdHDel_ok [hash_ok]:
  assumes "evolves now i K d d" and "argv ! 1 \<in> K"
  shows "result_ok now i K d out (CmdHDel now i argv d out)"
  using assms HDelLoop_distinct [of _ "drop 2 argv" 0]
  by (auto simp: CmdHDel_def Let_def case_prod_beta [of _ "HDelLoop _ _ _"] intro!: handler_rules)

lemma CmdHSetNx_ok [hash_ok]:
  assumes "evolves now i K d d" and "argv ! 1 \<in> K"
  shows "handler_ok now i K d out (CmdHSetNx now i argv d out)"
  using assms by (auto simp: CmdHSetNx_def HashOrCreate_def intro!: handler_rules)

lemma CmdHIncrBy_ok [hash_ok]:
  assumes "evolves now i K d d" and "argv ! 1 \<in> K"
  shows "handler_ok now i K d out (CmdHIncrBy now i argv d out)"
  using assms
  by (auto simp: CmdHIncrBy_def HashOrCreate_def Let_def intro!: handler_rules split: option.split)

lemma CmdHIncrByFloat_ok [hash_ok]:
  assumes "evolves now i K d d" and "argv ! 1 \<in> K"
  shows "result_ok now i K d out (CmdHIncrByFloat ld now i argv d out)"
  using assms
  by (auto simp: CmdHIncrByFloat_def HashOrCreate_def Let_def intro!: handler_rules split: option.split)

lemma CmdHGet_ok [hash_ok]:
  assumes "evolves now i K d d"
  shows "result_ok now i K d out (CmdHGet now i argv d out)"
  using assms by (auto simp: CmdHGet_def intro!: handler_rules split: option.split)

lemma CmdHMGet_ok [hash_ok]:
  assumes "evolves now i K d d" and "2 \<le> length argv"
  shows "result_ok now i K d out (CmdHMGet now i argv d out)"
proof -
  have "answers out (foldl (HMGetReply h) (AppendArrayReply out (int (length argv) - 2)) (drop 2 argv))" for h
    by (rule foldl_answers [where g = "\<lambda>f. case map_of h f of None \<Rightarrow> RNil | Some v \<Rightarrow> RBulk v"])
      (use assms(2) in \<open>auto simp: HMGetReply_def append_defs of_nat_diff split: option.split\<close>)
  moreover have "answers out (AppendArrayReply out (int (length argv) - 2))" if "\<not> 2 < length argv"
    using that assms(2) by (intro answers_array [of _ _ "[]"]) simp_all
  ultimately show ?thesis
    using assms by (auto simp: CmdHMGet_def Let_def intro!: handler_rules)
qed

lemma CmdHGetAll_ok [hash_ok]:
  assumes "evolves now i K d d"
  shows "handler_ok now i K d out (CmdHGetAll now i argv d out)"
proof -
  have "answers out (foldl (\<lambda>out k. AppendBulkReply (AppendBulkReply out k) (the (map_of h k)))
      (AppendArrayReply out (int (length h) * 2)) (sort (map fst h)))" for h :: "(string \<times> string) list"
    by (rule foldl_answers2 [where g = RBulk and h = "\<lambda>k. RBulk (the (map_of h k))"])
      (simp_all add: AppendBulkReply_def)
  with assms show ?thesis
    by (auto simp: CmdHGetAll_def Let_def intro!: handler_rules)
qed

lemma CmdHReads_ok [hash_ok]:
  assumes "evolves now i K d d"
  shows "handler_ok now i K d out (CmdHExists now i argv d out)"
    and "handler_ok now i K d out (CmdHLen now i argv d out)"
    and "result_ok now i K d out (CmdHStrLen now i argv d out)"
  using assms by (auto simp: CmdHExists_def CmdHLen_def CmdHStrLen_def intro!: handler_rules)

end
