(* ===== verification/CmdList.thy ===== *)
theory CmdList
  imports Contract
begin

text \<open>
  The list commands of \<open>src/commands.cpp\<close>: \<open>CmdPush\<close>, \<open>CmdPop\<close>, \<open>ListIndexRange\<close>, \<open>CmdLMove\<close>
  and the branches of \<open>Dispatch\<close> from \<open>LLEN\<close> to \<open>LMOVE\<close>.
\<close>

section \<open>Pushes and pops\<close>

definition push :: "bool \<Rightarrow> string list \<Rightarrow> string \<Rightarrow> string list" where
  "push left l v = (if left then v # l else l @ [v])"

text \<open>The element at one end and the list without it; for lists that are not empty.\<close>

definition pop :: "bool \<Rightarrow> string list \<Rightarrow> string \<times> string list" where
  "pop left l = (if left then (hd l, tl l) else (last l, butlast l))"

definition CmdPush :: "int \<Rightarrow> nat \<Rightarrow> Args \<Rightarrow> Database \<Rightarrow> string \<Rightarrow> bool \<Rightarrow> Database \<times> string" where
  "CmdPush now idx argv d out left =
     (let (d1, l) = GetOrCreate get_list (ListValue []) now idx (argv ! 1) d
      in case l of
           None \<Rightarrow> (d1, ErrWrongType out)
         | Some l \<Rightarrow>
             let l1 = foldl (push left) l (drop 2 argv)
             in (assign_value idx (argv ! 1) (ListValue l1) d1, AppendIntReply out (int (length l1))))"

fun PopLoop :: "bool \<Rightarrow> nat \<Rightarrow> string list \<Rightarrow> string list \<Rightarrow> string list \<times> string list" where
  "PopLoop left 0 l items = (l, items)"
| "PopLoop left (Suc n) l items =
     (let (v, l1) = pop left l in PopLoop left n l1 (items @ [v]))"

text \<open>\<open>PopCount\<close> is the optional count: \<open>None\<close> for the error, -1 when it is absent.\<close>

definition PopCount :: "Args \<Rightarrow> int option" where
  "PopCount argv =
     (if length argv = 3 then
        (case ParseIntStrict (argv ! 2) of
           None \<Rightarrow> None
         | Some c \<Rightarrow> if c < 0 then None else Some c)
      else Some (- 1))"

definition CmdPop :: "int \<Rightarrow> nat \<Rightarrow> Args \<Rightarrow> Database \<Rightarrow> string \<Rightarrow> bool \<Rightarrow> Database \<times> string" where
  "CmdPop now idx argv d out left =
     (case PopCount argv of
        None \<Rightarrow> (d, ErrNotInt out)
      | Some count \<Rightarrow>
          let (d1, st) = GetTyped get_list now idx (argv ! 1) d
          in case st of
               kWrongType \<Rightarrow> (d1, ErrWrongType out)
             | kMissing \<Rightarrow> (d1, AppendNullBulkReply out)
             | kFound l \<Rightarrow>
                 if l = [] then (d1, AppendNullBulkReply out)
                 else if count < 0
                 then let (v, l1) = pop left l
                      in (assign_value idx (argv ! 1) (ListValue l1) d1, AppendBulkReply out v)
                 else let n = min count (int (length l));
                          (l1, items) = PopLoop left (nat n) l []
                      in (assign_value idx (argv ! 1) (ListValue l1) d1,
                          if n = 0 then AppendEmptyArrayReply out else AppendBulkArray out items))"

section \<open>Index ranges\<close>

text \<open>The window with the updated bounds; \<open>None\<close> when it is empty.\<close>

definition ListIndexRange :: "int \<Rightarrow> int \<Rightarrow> int \<Rightarrow> (int \<times> int) option" where
  "ListIndexRange start stop llen =
     (let start1 = (if start < 0 then start + llen else start);
          stop1 = (if stop < 0 then stop + llen else stop);
          start2 = (if start1 < 0 then 0 else start1);
          stop2 = (if stop1 \<ge> llen then llen - 1 else stop1)
      in if stop2 < start2 then None else Some (start2, stop2))"

fun LRangeLoop :: "int \<Rightarrow> int \<Rightarrow> int \<Rightarrow> string list \<Rightarrow> string list \<Rightarrow> string list" where
  "LRangeLoop start stop i [] items = items"
| "LRangeLoop start stop i (v # vs) items =
     (if i > stop then items
      else LRangeLoop start stop (i + 1) vs (if i \<ge> start then items @ [v] else items))"

definition CmdLRange ::
  "int \<Rightarrow> nat \<Rightarrow> Args \<Rightarrow> Database \<Rightarrow> string \<Rightarrow> (Database \<times> string) result" where
  "CmdLRange now idx argv d out =
     (let (d1, st) = GetTyped get_list now idx (argv ! 1) d
      in if is_wrong st then Inr (d1, ErrWrongType out)
         else case (ParseIntStrict (argv ! 2), ParseIntStrict (argv ! 3)) of
                (Some start, Some stop) \<Rightarrow>
                  (case ListIndexRange start stop
                          (case st of kFound l \<Rightarrow> int (length l) | _ \<Rightarrow> 0) of
                     None \<Rightarrow> Inr (d1, AppendEmptyArrayReply out)
                   | Some (lo, hi) \<Rightarrow>
                       (case st of
                          kFound l \<Rightarrow> Inr (d1, AppendBulkArray out (LRangeLoop lo hi 0 l []))
                        | _ \<Rightarrow> Inl NullDeref))
              | _ \<Rightarrow> Inr (d1, ErrNotInt out))"

fun LTrimLoop :: "int \<Rightarrow> int \<Rightarrow> int \<Rightarrow> string list \<Rightarrow> string list" where
  "LTrimLoop start stop li [] = []"
| "LTrimLoop start stop li (v # vs) =
     (if li < start \<or> li > stop then LTrimLoop start stop (li + 1) vs
      else v # LTrimLoop start stop (li + 1) vs)"

definition CmdLTrim :: "int \<Rightarrow> nat \<Rightarrow> Args \<Rightarrow> Database \<Rightarrow> string \<Rightarrow> Database \<times> string" where
  "CmdLTrim now idx argv d out =
     (let (d1, st) = GetTyped get_list now idx (argv ! 1) d
      in if is_wrong st then (d1, ErrWrongType out)
         else case (ParseIntStrict (argv ! 2), ParseIntStrict (argv ! 3)) of
                (Some start, Some stop) \<Rightarrow>
                  (case st of
                     kFound l \<Rightarrow>
                       if l = [] then (d1, AppendSimpleReply out ''OK'')
                       else (case ListIndexRange start stop (int (length l)) of
                               None \<Rightarrow> (fst (Delete idx (argv ! 1) d1), AppendSimpleReply out ''OK'')
                             | Some (lo, hi) \<Rightarrow>
                                 let l1 = LTrimLoop lo hi 0 l;
                                     d2 = assign_value idx (argv ! 1) (ListValue l1) d1
                                 in (if l1 = [] then fst (Delete idx (argv ! 1) d2) else d2,
                                     AppendSimpleReply out ''OK''))
                   | _ \<Rightarrow> (d1, AppendSimpleReply out ''OK''))
              | _ \<Rightarrow> (d1, ErrNotInt out))"

section \<open>Single elements\<close>

definition CmdLLen :: "int \<Rightarrow> nat \<Rightarrow> Args \<Rightarrow> Database \<Rightarrow> string \<Rightarrow> Database \<times> string" where
  "CmdLLen now idx argv d out =
     (let (d1, st) = GetTyped get_list now idx (argv ! 1) d
      in (d1, case st of
                kWrongType \<Rightarrow> ErrWrongType out
              | kMissing \<Rightarrow> AppendIntReply out 0
              | kFound l \<Rightarrow> AppendIntReply out (int (length l))))"

definition CmdLIndex :: "int \<Rightarrow> nat \<Rightarrow> Args \<Rightarrow> Database \<Rightarrow> string \<Rightarrow> Database \<times> string" where
  "CmdLIndex now idx argv d out =
     (let (d1, st) = GetTyped get_list now idx (argv ! 1) d
      in if is_wrong st then (d1, ErrWrongType out)
         else case ParseIntStrict (argv ! 2) of
                None \<Rightarrow> (d1, ErrNotInt out)
              | Some i \<Rightarrow>
                  (case st of
                     kFound l \<Rightarrow>
                       let llen = int (length l); i1 = (if i < 0 then i + llen else i)
                       in if i1 < 0 \<or> i1 \<ge> llen then (d1, AppendNullBulkReply out)
                          else (d1, AppendBulkReply out (l ! nat i1))
                   | _ \<Rightarrow> (d1, AppendNullBulkReply out)))"

definition CmdLSet :: "int \<Rightarrow> nat \<Rightarrow> Args \<Rightarrow> Database \<Rightarrow> string \<Rightarrow> Database \<times> string" where
  "CmdLSet now idx argv d out =
     (let (d1, st) = GetTyped get_list now idx (argv ! 1) d
      in if is_wrong st then (d1, ErrWrongType out)
         else case ParseIntStrict (argv ! 2) of
                None \<Rightarrow> (d1, ErrNotInt out)
              | Some i \<Rightarrow>
                  (case st of
                     kFound l \<Rightarrow>
                       if l = [] then (d1, AppendErrorReply out ''ERR no such key'')
                       else let llen = int (length l); i1 = (if i < 0 then i + llen else i)
                            in if i1 < 0 \<or> i1 \<ge> llen
                               then (d1, AppendErrorReply out ''ERR index out of range'')
                               else (assign_value idx (argv ! 1) (ListValue (l[nat i1 := argv ! 3])) d1,
                                     AppendSimpleReply out ''OK'')
                   | _ \<Rightarrow> (d1, AppendErrorReply out ''ERR no such key'')))"

section \<open>LREM and LINSERT\<close>

fun LRemLoop :: "int \<Rightarrow> string \<Rightarrow> string list \<Rightarrow> int \<Rightarrow> string list \<times> int" where
  "LRemLoop count x [] removed = ([], removed)"
| "LRemLoop count x (v # vs) removed =
     (if count = 0 \<or> removed < count then
        if v = x then LRemLoop count x vs (removed + 1)
        else let (l, n) = LRemLoop count x vs removed in (v # l, n)
      else (v # vs, removed))"

definition erase_at :: "string list \<Rightarrow> nat \<Rightarrow> string list" where
  "erase_at l i = take i l @ drop (Suc i) l"

text \<open>
  A negative count: the positions of the element, then the last of them erased from the back;
  erasing at the back leaves the earlier iterators valid.
\<close>

definition LRemBack :: "int \<Rightarrow> string \<Rightarrow> string list \<Rightarrow> (string list \<times> int) result" where
  "LRemBack count x l =
     bind_result (ll_check (- count))
       (\<lambda>c. let hits = filter (\<lambda>i. l ! i = x) [0..<length l];
                want = min (int (length hits)) c
            in Inr (foldl erase_at l (rev (drop (length hits - nat want) hits)), want))"

definition CmdLRem ::
  "int \<Rightarrow> nat \<Rightarrow> Args \<Rightarrow> Database \<Rightarrow> string \<Rightarrow> (Database \<times> string) result" where
  "CmdLRem now idx argv d out =
     (let (d1, st) = GetTyped get_list now idx (argv ! 1) d
      in if is_wrong st then Inr (d1, ErrWrongType out)
         else case ParseIntStrict (argv ! 2) of
                None \<Rightarrow> Inr (d1, ErrNotInt out)
              | Some count \<Rightarrow>
                  (case st of
                     kFound l \<Rightarrow>
                       bind_result (if count \<ge> 0 then Inr (LRemLoop count (argv ! 3) l 0)
                                    else LRemBack count (argv ! 3) l)
                         (\<lambda>(l1, removed). Inr (assign_value idx (argv ! 1) (ListValue l1) d1,
                                               AppendIntReply out removed))
                   | _ \<Rightarrow> Inr (d1, AppendIntReply out 0)))"

fun LInsertLoop :: "bool \<Rightarrow> string \<Rightarrow> string \<Rightarrow> string list \<Rightarrow> string list option" where
  "LInsertLoop front pivot x [] = None"
| "LInsertLoop front pivot x (v # vs) =
     (if v = pivot then Some (if front then x # v # vs else v # x # vs)
      else map_option (\<lambda>l. v # l) (LInsertLoop front pivot x vs))"

definition CmdLInsert :: "int \<Rightarrow> nat \<Rightarrow> Args \<Rightarrow> Database \<Rightarrow> string \<Rightarrow> Database \<times> string" where
  "CmdLInsert now idx argv d out =
     (let front = (ToUpper (argv ! 2) = ''BEFORE'')
      in if \<not> front \<and> ToUpper (argv ! 2) \<noteq> ''AFTER'' then (d, ErrSyntax out)
         else let (d1, st) = GetTyped get_list now idx (argv ! 1) d
              in case st of
                   kWrongType \<Rightarrow> (d1, ErrWrongType out)
                 | kMissing \<Rightarrow> (d1, AppendIntReply out 0)
                 | kFound l \<Rightarrow>
                     (case LInsertLoop front (argv ! 3) (argv ! 4) l of
                        None \<Rightarrow> (d1, AppendIntReply out (- 1))
                      | Some l1 \<Rightarrow> (assign_value idx (argv ! 1) (ListValue l1) d1,
                                    AppendIntReply out (int (length l1)))))"

section \<open>LMOVE\<close>

text \<open>
  The source and destination pointers point into the table, so after the destination has been
  created the source is read through the same pointer. With equal keys both are one list.
\<close>

definition rotate_list :: "bool \<Rightarrow> bool \<Rightarrow> string list \<Rightarrow> string \<times> string list" where
  "rotate_list from_left to_left l =
     (if from_left \<and> to_left then (hd l, l)
      else if \<not> from_left \<and> \<not> to_left then (last l, l)
      else if from_left then (hd l, tl l @ [hd l])
      else (last l, last l # butlast l))"

definition CmdLMove :: "int \<Rightarrow> nat \<Rightarrow> Args \<Rightarrow> Database \<Rightarrow> string \<Rightarrow> Database \<times> string" where
  "CmdLMove now idx argv d out =
     (let src = argv ! 1; dst = argv ! 2;
          from = ToUpper (argv ! 3); to = ToUpper (argv ! 4);
          from_left = (from = ''LEFT''); to_left = (to = ''LEFT'')
      in if from \<noteq> ''LEFT'' \<and> from \<noteq> ''RIGHT'' then (d, ErrSyntax out)
         else if to \<noteq> ''LEFT'' \<and> to \<noteq> ''RIGHT'' then (d, ErrSyntax out)
         else let (d1, sst) = GetTyped get_list now idx src d
              in if is_wrong sst then (d1, ErrWrongType out)
                 else let (d2, dst_st) = GetTyped get_list now idx dst d1
                      in if is_wrong dst_st then (d2, ErrWrongType out)
                         else case sst of
                                kFound l \<Rightarrow>
                                  if l = [] then (d2, AppendNullBulkReply out)
                                  else let (d3, dl) = (case dst_st of
                                             kFound m \<Rightarrow> (d2, Some m)
                                           | _ \<Rightarrow> ListCreate now idx dst d2)
                                       in (case dl of
                                             None \<Rightarrow> (d3, ErrWrongType out)
                                           | Some m \<Rightarrow>
                                               if src = dst
                                               then let (v, l1) = rotate_list from_left to_left l
                                                    in (assign_value idx src (ListValue l1) d3,
                                                        AppendBulkReply out v)
                                               else let (v, l1) = pop from_left l;
                                                        d4 = assign_value idx src (ListValue l1) d3
                                                    in (assign_value idx dst
                                                          (ListValue (push to_left m v)) d4,
                                                        AppendBulkReply out v))
                              | _ \<Rightarrow> (d2, AppendNullBulkReply out))"

definition CmdRPopLPush :: "int \<Rightarrow> nat \<Rightarrow> Args \<Rightarrow> Database \<Rightarrow> string \<Rightarrow> Database \<times> string" where
  "CmdRPopLPush now idx argv d out =
     CmdLMove now idx [''LMOVE'', argv ! 1, argv ! 2, ''RIGHT'', ''LEFT''] d out"

section \<open>The contract\<close>

named_theorems list_ok \<open>contracts of the list commands\<close>

lemma CmdPush_ok [list_ok]:
  assumes "evolves now i K d d" and "argv ! 1 \<in> K"
  shows "handler_ok now i K d out (CmdPush now i argv d out left)"
  using assms by (auto simp: CmdPush_def Let_def intro!: handler_rules)

lemma CmdPop_ok [list_ok]:
  assumes "evolves now i K d d" and "argv ! 1 \<in> K"
  shows "handler_ok now i K d out (CmdPop now i argv d out left)"
  using assms
  by (auto simp: CmdPop_def Let_def case_prod_beta [of _ "pop _ _"] case_prod_beta [of _ "PopLoop _ _ _ _"]
      intro!: handler_rules split: option.split)

lemma CmdLRange_ok [list_ok]:
  assumes "evolves now i K d d"
  shows "result_ok now i K d out (CmdLRange now i argv d out)"
  using assms by (auto simp: CmdLRange_def Let_def intro!: handler_rules split: option.split)

lemma CmdLTrim_ok [list_ok]:
  assumes "evolves now i K d d" and "argv ! 1 \<in> K"
  shows "handler_ok now i K d out (CmdLTrim now i argv d out)"
  using assms by (auto simp: CmdLTrim_def Let_def intro!: handler_rules split: option.split)

lemma CmdLReads_ok [list_ok]:
  assumes "evolves now i K d d"
  shows "handler_ok now i K d out (CmdLLen now i argv d out)"
    and "handler_ok now i K d out (CmdLIndex now i argv d out)"
  using assms by (auto simp: CmdLLen_def CmdLIndex_def Let_def intro!: handler_rules split: option.split)

lemma CmdLSet_ok [list_ok]:
  assumes "evolves now i K d d" and "argv ! 1 \<in> K"
  shows "handler_ok now i K d out (CmdLSet now i argv d out)"
  using assms by (auto simp: CmdLSet_def Let_def intro!: handler_rules split: option.split)

lemma CmdLRem_ok [list_ok]:
  assumes "evolves now i K d d" and "argv ! 1 \<in> K"
  shows "result_ok now i K d out (CmdLRem now i argv d out)"
  using assms
  by (auto simp: CmdLRem_def Let_def intro!: handler_rules split: option.split
      simp: case_prod_beta [of "\<lambda>l n. Inr (assign_value _ _ (ListValue l) _, AppendIntReply _ n)"])

lemma CmdLInsert_ok [list_ok]:
  assumes "evolves now i K d d" and "argv ! 1 \<in> K"
  shows "handler_ok now i K d out (CmdLInsert now i argv d out)"
  using assms by (auto simp: CmdLInsert_def Let_def intro!: handler_rules split: option.split)

lemma CmdLMove_ok [list_ok]:
  assumes "evolves now i K d d" and "argv ! 1 \<in> K" and "argv ! 2 \<in> K"
  shows "handler_ok now i K d out (CmdLMove now i argv d out)"
  using assms
  by (auto simp: CmdLMove_def ListCreate_def Let_def case_prod_beta [of _ "pop _ _"]
      case_prod_beta [of _ "rotate_list _ _ _"] intro!: handler_rules split: option.split)

lemma CmdRPopLPush_ok [list_ok]:
  assumes "evolves now i K d d" and "argv ! 1 \<in> K" and "argv ! 2 \<in> K"
  shows "handler_ok now i K d out (CmdRPopLPush now i argv d out)"
  using assms unfolding CmdRPopLPush_def by (intro CmdLMove_ok) simp_all

end
