(* ===== verification/CmdSets.thy ===== *)
theory CmdSets
  imports Contract
begin

text \<open>
  The set commands of \<open>src/commands.cpp\<close>: \<open>EvalSetOp\<close>, \<open>CmdSetOp\<close>, \<open>CmdSetOpStore\<close> and the
  branches of \<open>Dispatch\<close> from \<open>SADD\<close> to \<open>SMOVE\<close>. The outputs of the random generators are the
  argument \<open>draws\<close>: the outputs the command reads, in order.
\<close>

section \<open>Members\<close>

fun SAddLoop :: "Args \<Rightarrow> string list \<Rightarrow> int \<Rightarrow> string list \<times> int" where
  "SAddLoop [] s added = (s, added)"
| "SAddLoop (m # ms) s added =
     SAddLoop ms (set_insert s m) (if m \<in> set s then added else added + 1)"

definition CmdSAdd :: "int \<Rightarrow> nat \<Rightarrow> Args \<Rightarrow> Database \<Rightarrow> string \<Rightarrow> Database \<times> string" where
  "CmdSAdd now idx argv d out =
     (let (d1, s) = SetCreate now idx (argv ! 1) d
      in case s of
           None \<Rightarrow> (d1, ErrWrongType out)
         | Some s \<Rightarrow>
             let (s1, added) = SAddLoop (drop 2 argv) s 0
             in (assign_value idx (argv ! 1) (SetValue s1) d1, AppendIntReply out added))"

fun SRemLoop :: "Args \<Rightarrow> string list \<Rightarrow> int \<Rightarrow> string list \<times> int" where
  "SRemLoop [] s n = (s, n)"
| "SRemLoop (m # ms) s n = SRemLoop ms (remove1 m s) (n + (if m \<in> set s then 1 else 0))"

definition CmdSRem ::
  "int \<Rightarrow> nat \<Rightarrow> Args \<Rightarrow> Database \<Rightarrow> string \<Rightarrow> (Database \<times> string) result" where
  "CmdSRem now idx argv d out =
     (let (d1, st) = GetTyped get_set now idx (argv ! 1) d
      in case st of
           kWrongType \<Rightarrow> Inr (d1, ErrWrongType out)
         | kMissing \<Rightarrow> if length argv > 2 then Inl NullDeref else Inr (d1, AppendIntReply out 0)
         | kFound s \<Rightarrow>
             let (s1, n) = SRemLoop (drop 2 argv) s 0
             in Inr (assign_value idx (argv ! 1) (SetValue s1) d1, AppendIntReply out n))"

definition SetMembersSorted :: "string list \<Rightarrow> string list" where
  "SetMembersSorted s = sort s"

definition CmdSMembers :: "int \<Rightarrow> nat \<Rightarrow> Args \<Rightarrow> Database \<Rightarrow> string \<Rightarrow> Database \<times> string" where
  "CmdSMembers now idx argv d out =
     (let (d1, st) = GetTyped get_set now idx (argv ! 1) d
      in (d1, case st of
                kWrongType \<Rightarrow> ErrWrongType out
              | kMissing \<Rightarrow> AppendBulkArray out []
              | kFound s \<Rightarrow> AppendBulkArray out (SetMembersSorted s)))"

definition CmdSIsMember :: "int \<Rightarrow> nat \<Rightarrow> Args \<Rightarrow> Database \<Rightarrow> string \<Rightarrow> Database \<times> string" where
  "CmdSIsMember now idx argv d out =
     (let (d1, st) = GetTyped get_set now idx (argv ! 1) d
      in (d1, case st of
                kWrongType \<Rightarrow> ErrWrongType out
              | kMissing \<Rightarrow> AppendIntReply out 0
              | kFound s \<Rightarrow> AppendIntReply out (if argv ! 2 \<in> set s then 1 else 0)))"

definition CmdSCard :: "int \<Rightarrow> nat \<Rightarrow> Args \<Rightarrow> Database \<Rightarrow> string \<Rightarrow> Database \<times> string" where
  "CmdSCard now idx argv d out =
     (let (d1, st) = GetTyped get_set now idx (argv ! 1) d
      in (d1, case st of
                kWrongType \<Rightarrow> ErrWrongType out
              | kMissing \<Rightarrow> AppendIntReply out 0
              | kFound s \<Rightarrow> AppendIntReply out (int (length s))))"

section \<open>Random members\<close>

definition random_member :: "nat \<Rightarrow> string list \<Rightarrow> string" where
  "random_member draw s = s ! (draw mod length s)"

fun SPopLoop :: "(nat \<Rightarrow> nat) \<Rightarrow> nat \<Rightarrow> nat \<Rightarrow> string list \<Rightarrow> string list \<Rightarrow> string list \<times> string list" where
  "SPopLoop draws i 0 s items = (s, items)"
| "SPopLoop draws i (Suc n) s items =
     (let m = random_member (draws i) s
      in SPopLoop draws (Suc i) n (remove1 m s) (items @ [m]))"

definition SPopCount :: "Args \<Rightarrow> int option" where
  "SPopCount argv =
     (if length argv = 3 then
        (case ParseIntStrict (argv ! 2) of
           None \<Rightarrow> None
         | Some c \<Rightarrow> if c < 0 then None else Some c)
      else Some (- 1))"

definition CmdSPop ::
  "(nat \<Rightarrow> nat) \<Rightarrow> int \<Rightarrow> nat \<Rightarrow> Args \<Rightarrow> Database \<Rightarrow> string \<Rightarrow> Database \<times> string" where
  "CmdSPop draws now idx argv d out =
     (let (d1, st) = GetTyped get_set now idx (argv ! 1) d
      in if is_wrong st then (d1, ErrWrongType out)
         else case SPopCount argv of
                None \<Rightarrow> (d1, ErrNotInt out)
              | Some count \<Rightarrow>
                  (case st of
                     kFound s \<Rightarrow>
                       if s = [] then (d1, AppendNullBulkReply out)
                       else if count < 0
                       then let m = random_member (draws 0) s
                            in (assign_value idx (argv ! 1) (SetValue (remove1 m s)) d1,
                                AppendBulkReply out m)
                       else if count = 0 then (d1, AppendEmptyArrayReply out)
                       else let n = min count (int (length s));
                                (s1, items) = SPopLoop draws 0 (nat n) s []
                            in (assign_value idx (argv ! 1) (SetValue s1) d1, AppendBulkArray out items)
                   | _ \<Rightarrow> (d1, AppendNullBulkReply out)))"

text \<open>
  \<open>std::shuffle\<close> as the exchange shuffle: the element at position \<open>i\<close> is swapped with one at
  a position up to \<open>i\<close>. Over all draws it yields every permutation, which is what the standard
  promises of the result.
\<close>

definition swap :: "nat \<Rightarrow> nat \<Rightarrow> 'a list \<Rightarrow> 'a list" where
  "swap i j xs = xs[i := xs ! j, j := xs ! i]"

definition shuffle :: "(nat \<Rightarrow> nat) \<Rightarrow> 'a list \<Rightarrow> 'a list" where
  "shuffle draws xs = foldl (\<lambda>ys i. swap i (draws i mod Suc i) ys) xs [1..<length xs]"

definition CmdSRandMember ::
  "(nat \<Rightarrow> nat) \<Rightarrow> int \<Rightarrow> nat \<Rightarrow> Args \<Rightarrow> Database \<Rightarrow> string \<Rightarrow> (Database \<times> string) result" where
  "CmdSRandMember draws now idx argv d out =
     (let (d1, st) = GetTyped get_set now idx (argv ! 1) d
      in if is_wrong st then Inr (d1, ErrWrongType out)
         else case (if length argv = 3 then ParseIntStrict (argv ! 2) else Some (- 1)) of
                None \<Rightarrow> Inr (d1, ErrNotInt out)
              | Some count \<Rightarrow>
                  let absent = (if count < 0 \<or> length argv = 2 then AppendNullBulkReply out
                                else AppendEmptyArrayReply out)
                  in (case st of
                        kFound s \<Rightarrow>
                          if s = [] then Inr (d1, absent)
                          else if length argv = 2
                          then Inr (d1, AppendBulkReply out (random_member (draws 0) s))
                          else if count \<ge> 0
                          then let n = min count (int (length s))
                               in Inr (d1, AppendBulkArray out (sort (take (nat n) (shuffle draws s))))
                          else bind_result (ll_check (- count))
                                 (\<lambda>n. Inr (d1, AppendBulkArray out
                                        (sort (map (\<lambda>i. random_member (draws i) s) [0..<nat n]))))
                      | _ \<Rightarrow> Inr (d1, absent)))"

section \<open>SMOVE\<close>

definition CmdSMove ::
  "int \<Rightarrow> nat \<Rightarrow> Args \<Rightarrow> Database \<Rightarrow> string \<Rightarrow> (Database \<times> string) result" where
  "CmdSMove now idx argv d out =
     (let (d1, sst) = GetTyped get_set now idx (argv ! 1) d
      in if is_wrong sst then Inr (d1, ErrWrongType out)
         else let (d2, dst_st) = GetTyped get_set now idx (argv ! 2) d1
              in if is_wrong dst_st then Inr (d2, ErrWrongType out)
                 else case sst of
                        kFound s \<Rightarrow>
                          if argv ! 3 \<notin> set s then Inr (d2, AppendIntReply out 0)
                          else if argv ! 1 = argv ! 2 then Inr (d2, AppendIntReply out 1)
                          else let (d3, t) = (case dst_st of
                                     kFound t \<Rightarrow> (d2, Some t)
                                   | _ \<Rightarrow> SetCreate now idx (argv ! 2) d2);
                                   d4 = assign_value idx (argv ! 1) (SetValue (remove1 (argv ! 3) s)) d3
                               in (case t of
                                     None \<Rightarrow> Inl NullDeref
                                   | Some t \<Rightarrow>
                                       Inr (assign_value idx (argv ! 2)
                                              (SetValue (set_insert t (argv ! 3))) d4,
                                            AppendIntReply out 1))
                      | _ \<Rightarrow> Inr (d2, AppendIntReply out 0))"

section \<open>Set algebra\<close>

datatype SetOp = kUnion | kInter | kDiff

text \<open>What the collecting loop ends with: a wrong type, the early empty intersection, or the
  sets that were found, the first of them being the base.\<close>

datatype collected = WrongKind | EmptyInter | Sets "string list list"

fun CollectSets ::
  "int \<Rightarrow> nat \<Rightarrow> SetOp \<Rightarrow> Args \<Rightarrow> Database \<Rightarrow> string list list \<Rightarrow> Database \<times> collected" where
  "CollectSets now idx op [] d found = (d, Sets found)"
| "CollectSets now idx op (k # ks) d found =
     (let (d1, st) = GetTyped get_set now idx k d
      in case st of
           kWrongType \<Rightarrow> (d1, WrongKind)
         | kMissing \<Rightarrow> if op = kInter then (d1, EmptyInter) else CollectSets now idx op ks d1 found
         | kFound s \<Rightarrow> CollectSets now idx op ks d1 (found @ [s]))"

definition SetOpResult :: "SetOp \<Rightarrow> string list list \<Rightarrow> string list" where
  "SetOpResult op found =
     (case found of
        [] \<Rightarrow> []
      | base # others \<Rightarrow>
          (case op of
             kUnion \<Rightarrow> foldl (foldl set_insert) [] (base # others)
           | kInter \<Rightarrow> foldl set_insert [] (filter (\<lambda>m. \<forall>t\<in>set others. m \<in> set t) base)
           | kDiff \<Rightarrow> foldl set_insert [] (filter (\<lambda>m. \<not> (\<exists>t\<in>set others. m \<in> set t)) base)))"

text \<open>The set, or \<open>None\<close> when \<open>ok\<close> is false and the error is in the reply.\<close>

definition EvalSetOp ::
  "int \<Rightarrow> nat \<Rightarrow> Args \<Rightarrow> nat \<Rightarrow> Database \<Rightarrow> string \<Rightarrow> SetOp \<Rightarrow> Database \<times> string \<times> string list option" where
  "EvalSetOp now idx argv skip' d out op =
     (let (d1, c) = CollectSets now idx op (drop skip' argv) d []
      in case c of
           WrongKind \<Rightarrow> (d1, ErrWrongType out, None)
         | EmptyInter \<Rightarrow> (d1, out, Some [])
         | Sets found \<Rightarrow> (d1, out, Some (SetOpResult op found)))"

definition CmdSetOp :: "int \<Rightarrow> nat \<Rightarrow> Args \<Rightarrow> Database \<Rightarrow> string \<Rightarrow> SetOp \<Rightarrow> Database \<times> string" where
  "CmdSetOp now idx argv d out op =
     (let (d1, out1, res) = EvalSetOp now idx argv 1 d out op
      in case res of
           None \<Rightarrow> (d1, out1)
         | Some s \<Rightarrow> (d1, AppendBulkArray out1 (SetMembersSorted s)))"

definition CmdSetOpStore ::
  "int \<Rightarrow> nat \<Rightarrow> Args \<Rightarrow> Database \<Rightarrow> string \<Rightarrow> SetOp \<Rightarrow> (Database \<times> string) result" where
  "CmdSetOpStore now idx argv d out op =
     (let (d1, out1, res) = EvalSetOp now idx argv 2 d out op
      in case res of
           None \<Rightarrow> Inr (d1, out1)
         | Some s \<Rightarrow>
             let (d2, e) = Lookup now idx (argv ! 1) (Set idx (argv ! 1) (SetValue s) 0 d1)
             in (case Option.bind e (\<lambda>e. get_set (ent_value e)) of
                   None \<Rightarrow> Inl NullDeref
                 | Some t \<Rightarrow> Inr (d2, AppendIntReply out1 (int (length t)))))"

section \<open>The contract\<close>

named_theorems set_ok \<open>contracts of the set commands\<close>

lemma distinct_set_insert [simp]: "distinct s \<Longrightarrow> distinct (set_insert s m)"
  by (simp add: set_insert_def)

lemma set_set_insert [simp]: "set (set_insert s m) = insert m (set s)"
  by (auto simp: set_insert_def)

lemma distinct_foldl_set_insert: "distinct s \<Longrightarrow> distinct (foldl set_insert s ms)"
  by (induction ms arbitrary: s) simp_all

lemma set_foldl_set_insert: "set (foldl set_insert s ms) = set s \<union> set ms"
  by (induction ms arbitrary: s) auto

lemma SAddLoop_distinct: "distinct s \<Longrightarrow> distinct (fst (SAddLoop ms s n))"
  by (induction ms s n rule: SAddLoop.induct) simp_all

lemma SRemLoop_distinct: "distinct s \<Longrightarrow> distinct (fst (SRemLoop ms s n))"
  by (induction ms s n rule: SRemLoop.induct) simp_all

lemma SPopLoop_distinct: "distinct s \<Longrightarrow> distinct (fst (SPopLoop draws j n s items))"
  by (induction draws j n s items rule: SPopLoop.induct) (simp_all add: Let_def)

lemma distinct_SetOpResult [simp]: "distinct (SetOpResult op found)"
proof -
  have "distinct s \<Longrightarrow> distinct (foldl (foldl set_insert) s ts)" for s and ts :: "string list list"
    by (induction ts arbitrary: s) (simp_all add: distinct_foldl_set_insert)
  then show ?thesis
    by (auto simp: SetOpResult_def distinct_foldl_set_insert split: list.split SetOp.split)
qed

lemma CmdSAdd_ok [set_ok]:
  assumes "evolves now i K d d" and "argv ! 1 \<in> K"
  shows "handler_ok now i K d out (CmdSAdd now i argv d out)"
  using assms
  by (auto simp: CmdSAdd_def SetCreate_def Let_def case_prod_beta [of _ "SAddLoop _ _ _"] SAddLoop_distinct
      intro!: handler_rules)

lemma CmdSRem_ok [set_ok]:
  assumes "evolves now i K d d" and "argv ! 1 \<in> K"
  shows "result_ok now i K d out (CmdSRem now i argv d out)"
  using assms
  by (auto simp: CmdSRem_def Let_def case_prod_beta [of _ "SRemLoop _ _ _"] SRemLoop_distinct
      intro!: handler_rules)

lemma CmdSReads_ok [set_ok]:
  assumes "evolves now i K d d"
  shows "handler_ok now i K d out (CmdSMembers now i argv d out)"
    and "handler_ok now i K d out (CmdSIsMember now i argv d out)"
    and "handler_ok now i K d out (CmdSCard now i argv d out)"
  using assms by (auto simp: CmdSMembers_def CmdSIsMember_def CmdSCard_def intro!: handler_rules)

lemma CmdSPop_ok [set_ok]:
  assumes "evolves now i K d d" and "argv ! 1 \<in> K"
  shows "handler_ok now i K d out (CmdSPop draws now i argv d out)"
  using assms
  by (auto simp: CmdSPop_def Let_def case_prod_beta [of _ "SPopLoop _ _ _ _ _"] SPopLoop_distinct
      intro!: handler_rules split: option.split)

lemma CmdSRandMember_ok [set_ok]:
  assumes "evolves now i K d d"
  shows "result_ok now i K d out (CmdSRandMember draws now i argv d out)"
  using assms by (auto simp: CmdSRandMember_def Let_def intro!: handler_rules split: option.split)

lemma CmdSMove_ok [set_ok]:
  assumes "evolves now i K d d" and "argv ! 1 \<in> K" and "argv ! 2 \<in> K"
  shows "result_ok now i K d out (CmdSMove now i argv d out)"
  using assms
  by (auto simp: CmdSMove_def SetCreate_def Let_def intro!: handler_rules split: option.split)

lemma CollectSets_ok:
  "evolves now i K d d0 \<Longrightarrow> evolves now i K d (fst (CollectSets now i op ks d0 found))"
proof (induction ks arbitrary: d0 found)
  case (Cons k ks)
  have "evolves now i K d (fst (GetTyped get_set now i k d0))" by (rule evolves_GetTyped [OF Cons.prems])
  with Cons.IH show ?case by (auto simp: case_prod_beta split: LookupResult.split)
qed simp

lemma EvalSetOp_ok:
  assumes "evolves now i K d d" and "EvalSetOp now i argv n d out op = (d1, out1, res)"
  shows "evolves now i K d d1"
    and "res = None \<Longrightarrow> answers out out1" and "res = Some s \<Longrightarrow> out1 = out \<and> distinct s"
  using assms CollectSets_ok [OF assms(1), of op "drop n argv" "[]"]
  by (auto simp: EvalSetOp_def Let_def case_prod_beta split: collected.splits)

lemma CmdSetOp_ok [set_ok]:
  assumes "evolves now i K d d"
  shows "handler_ok now i K d out (CmdSetOp now i argv d out op)"
proof -
  obtain d1 out1 res where e: "EvalSetOp now i argv 1 d out op = (d1, out1, res)" by (metis prod_cases3)
  from EvalSetOp_ok [OF assms e] e show ?thesis
    by (auto simp: CmdSetOp_def intro!: handler_okI split: option.split)
qed

lemma CmdSetOpStore_ok [set_ok]:
  assumes "evolves now i K d d" and "argv ! 1 \<in> K"
  shows "result_ok now i K d out (CmdSetOpStore now i argv d out op)"
proof -
  obtain d1 out1 res where e: "EvalSetOp now i argv 2 d out op = (d1, out1, res)" by (metis prod_cases3)
  from EvalSetOp_ok [OF assms(1) e] e assms(2) show ?thesis
    by (auto simp: CmdSetOpStore_def Let_def intro!: handler_rules split: option.split)
qed

end
