(* ===== verification/CmdZSet.thy ===== *)
theory CmdZSet
  imports Contract
begin

text \<open>
  The sorted-set commands of \<open>src/commands.cpp\<close>: score bounds, \<open>AppendScoredPairs\<close> and the
  branches of \<open>Dispatch\<close> from \<open>ZADD\<close> to \<open>ZREMRANGEBYSCORE\<close>. A sorted set is its skip list and
  its dictionary, both changed by every write. \<open>rnds c\<close> is the sequence of \<open>random()\<close> results
  that the \<open>c\<close>-th insertion of the command draws from.
\<close>

type_synonym zset = "skiplist \<times> (string \<times> double) list"

section \<open>Score bounds\<close>

record ScoreBound =
  bound_v :: double
  bound_exclusive :: bool

definition huge_val :: double where
  "huge_val = double_of (Inf False)"

definition minus_huge_val :: double where
  "minus_huge_val = double_of (Inf True)"

text \<open>\<open>None\<close> stands for a bound whose \<open>ok\<close> is false.\<close>

definition ParseScoreBound :: "string \<Rightarrow> ScoreBound option" where
  "ParseScoreBound s =
     (let excl = (s \<noteq> [] \<and> hd s = CHR ''(''); t = (if excl then tl s else s)
      in if t = ''-inf'' \<or> t = ''-infinity''
         then Some \<lparr>bound_v = minus_huge_val, bound_exclusive = excl\<rparr>
         else if t = ''+inf'' \<or> t = ''inf'' \<or> t = ''infinity''
         then Some \<lparr>bound_v = huge_val, bound_exclusive = excl\<rparr>
         else map_option (\<lambda>v. \<lparr>bound_v = v, bound_exclusive = excl\<rparr>) (ParseDoubleStrict t))"

definition ToRange :: "ScoreBound \<Rightarrow> ScoreBound \<Rightarrow> score_range" where
  "ToRange mn mx = \<lparr>range_min = bound_v mn, range_max = bound_v mx,
     min_exclusive = bound_exclusive mn, max_exclusive = bound_exclusive mx\<rparr>"

definition AppendScoredPairs :: "string \<Rightarrow> (double \<times> string) list \<Rightarrow> bool \<Rightarrow> string" where
  "AppendScoredPairs out v with_scores =
     (if v = [] then AppendEmptyArrayReply out
      else if \<not> with_scores
      then foldl (\<lambda>out p. AppendBulkReply out (snd p)) (AppendArrayReply out (int (length v))) v
      else foldl (\<lambda>out p. AppendBulkReply (AppendBulkReply out (snd p)) (FormatDouble (fst p)))
             (AppendArrayReply out (int (length v * 2))) v)"

section \<open>ZADD and ZINCRBY\<close>

text \<open>
  Giving a member a score: an existing one is erased from the list and inserted again, and
  the dictionary changed; a new one is added to both.
\<close>

definition zset_put :: "(nat \<Rightarrow> int) \<Rightarrow> string \<Rightarrow> double \<Rightarrow> zset \<Rightarrow> zset result" where
  "zset_put rnd member score = (\<lambda>(sl, dict).
     bind_result (case map_of dict member of
                    None \<Rightarrow> Inr sl
                  | Some old \<Rightarrow> bind_result (defined (Erase sl old member)) (\<lambda>(sl1, b). Inr sl1))
       (\<lambda>sl1. bind_result (defined (Insert sl1 rnd score member))
         (\<lambda>(sl2, b). Inr (sl2, AList.update member score dict))))"

record zadd_flags =
  zadd_nx :: bool
  zadd_xx :: bool
  zadd_ch :: bool
  zadd_incr :: bool

fun ZAddFlags :: "Args \<Rightarrow> zadd_flags \<Rightarrow> zadd_flags \<times> Args" where
  "ZAddFlags [] p = (p, [])"
| "ZAddFlags (a # rest) p =
     (let u = ToUpper a
      in if u = ''NX'' then ZAddFlags rest (p\<lparr>zadd_nx := True\<rparr>)
         else if u = ''XX'' then ZAddFlags rest (p\<lparr>zadd_xx := True\<rparr>)
         else if u = ''CH'' then ZAddFlags rest (p\<lparr>zadd_ch := True\<rparr>)
         else if u = ''INCR'' then ZAddFlags rest (p\<lparr>zadd_incr := True\<rparr>)
         else (p, a # rest))"

text \<open>How the loop over the pairs ends: with an error, with the nil or the score of \<open>INCR\<close>,
  or with the counts of added and of changed members.\<close>

datatype zadd_end = ZNotFloat | ZOverflow | ZNil | ZScore string | ZCounts int int

fun ZAddLoop ::
  "(nat \<Rightarrow> nat \<Rightarrow> int) \<Rightarrow> zadd_flags \<Rightarrow> nat \<Rightarrow> Args \<Rightarrow> zset \<Rightarrow> int \<Rightarrow> int \<Rightarrow> (zset \<times> zadd_end) result" where
  "ZAddLoop rnds p c (s # member # rest) z added changed =
     (case ParseDoubleStrict s of
        None \<Rightarrow> Inr (z, ZNotFloat)
      | Some score \<Rightarrow>
          if d_isnan score then Inr (z, ZNotFloat)
          else let it = map_of (snd z) member
               in if zadd_incr p then
                    if zadd_nx p \<and> it = None \<or> zadd_xx p \<and> it \<noteq> None then Inr (z, ZNil)
                    else let res = d_add (case it of None \<Rightarrow> 0 | Some v \<Rightarrow> v) score
                         in if d_isnan res \<or> d_isinf res then Inr (z, ZOverflow)
                            else bind_result (zset_put (rnds c) member res z)
                                   (\<lambda>z1. Inr (z1, ZScore (FormatDouble res)))
                  else if zadd_nx p \<and> it \<noteq> None then ZAddLoop rnds p c rest z added changed
                  else if zadd_xx p \<and> it = None then ZAddLoop rnds p c rest z added changed
                  else (case it of
                          Some v \<Rightarrow>
                            if d_eq v score then ZAddLoop rnds p c rest z added changed
                            else bind_result (zset_put (rnds c) member score z)
                                   (\<lambda>z1. ZAddLoop rnds p (Suc c) rest z1 added (changed + 1))
                        | None \<Rightarrow>
                            bind_result (zset_put (rnds c) member score z)
                              (\<lambda>z1. ZAddLoop rnds p (Suc c) rest z1 (added + 1) (changed + 1))))"
| "ZAddLoop rnds p c _ z added changed =
     Inr (z, if zadd_incr p then ZScore [] else ZCounts added changed)"

definition CmdZAdd ::
  "(nat \<Rightarrow> nat \<Rightarrow> int) \<Rightarrow> int \<Rightarrow> nat \<Rightarrow> Args \<Rightarrow> Database \<Rightarrow> string \<Rightarrow> (Database \<times> string) result" where
  "CmdZAdd rnds now idx argv d out =
     (let lower = ToLower (argv ! 0);
          (p, pairs) = ZAddFlags (drop 2 argv)
             \<lparr>zadd_nx = False, zadd_xx = False, zadd_ch = False, zadd_incr = False\<rparr>
      in if zadd_nx p \<and> zadd_xx p then Inr (d, ErrSyntax out)
         else if zadd_incr p \<and> length pairs \<noteq> 2 then Inr (d, ErrSyntax out)
         else if length pairs = 0 \<or> length pairs mod 2 \<noteq> 0 then Inr (d, ErrWrongArgs out lower)
         else let (d1, z) = ZSetCreate now idx (argv ! 1) d
              in case z of
                   None \<Rightarrow> Inr (d1, ErrWrongType out)
                 | Some z \<Rightarrow>
                     bind_result (ZAddLoop rnds p 0 pairs z 0 0)
                       (\<lambda>((sl, dict), fin).
                          Inr (assign_value idx (argv ! 1) (ZSetValue sl dict) d1,
                               case fin of
                                 ZNotFloat \<Rightarrow> ErrNotFloat out
                               | ZOverflow \<Rightarrow> ErrIncrOverflow out
                               | ZNil \<Rightarrow> AppendNullBulkReply out
                               | ZScore s \<Rightarrow> AppendBulkReply out s
                               | ZCounts added changed \<Rightarrow>
                                   AppendIntReply out (if zadd_ch p then changed else added))))"

definition CmdZIncrBy ::
  "(nat \<Rightarrow> nat \<Rightarrow> int) \<Rightarrow> int \<Rightarrow> nat \<Rightarrow> Args \<Rightarrow> Database \<Rightarrow> string \<Rightarrow> (Database \<times> string) result" where
  "CmdZIncrBy rnds now idx argv d out =
     (case ParseDoubleStrict (argv ! 2) of
        None \<Rightarrow> Inr (d, ErrNotFloat out)
      | Some by \<Rightarrow>
          if d_isnan by then Inr (d, ErrNotFloat out)
          else let (d1, z) = ZSetCreate now idx (argv ! 1) d
               in case z of
                    None \<Rightarrow> Inr (d1, ErrWrongType out)
                  | Some z \<Rightarrow>
                      let res = d_add (case map_of (snd z) (argv ! 3) of None \<Rightarrow> 0 | Some v \<Rightarrow> v) by
                      in if d_isnan res \<or> d_isinf res then Inr (d1, ErrIncrOverflow out)
                         else bind_result (zset_put (rnds 0) (argv ! 3) res z)
                                (\<lambda>(sl, dict). Inr (assign_value idx (argv ! 1) (ZSetValue sl dict) d1,
                                                   AppendBulkReply out (FormatDouble res))))"

section \<open>Reads\<close>

definition CmdZScore ::
  "int \<Rightarrow> nat \<Rightarrow> Args \<Rightarrow> Database \<Rightarrow> string \<Rightarrow> (Database \<times> string) result" where
  "CmdZScore now idx argv d out =
     (let (d1, st) = GetTyped get_zset now idx (argv ! 1) d
      in case st of
           kWrongType \<Rightarrow> Inr (d1, ErrWrongType out)
         | kMissing \<Rightarrow> Inl NullDeref
         | kFound z \<Rightarrow>
             (case map_of (snd z) (argv ! 2) of
                None \<Rightarrow> Inr (d1, AppendNullBulkReply out)
              | Some v \<Rightarrow> Inr (d1, AppendBulkReply out (FormatDouble v))))"

definition CmdZCard :: "int \<Rightarrow> nat \<Rightarrow> Args \<Rightarrow> Database \<Rightarrow> string \<Rightarrow> Database \<times> string" where
  "CmdZCard now idx argv d out =
     (let (d1, st) = GetTyped get_zset now idx (argv ! 1) d
      in (d1, case st of
                kWrongType \<Rightarrow> ErrWrongType out
              | kMissing \<Rightarrow> AppendIntReply out 0
              | kFound z \<Rightarrow> AppendIntReply out (int (length (snd z)))))"

fun ZRangeOptions :: "bool \<Rightarrow> Args \<Rightarrow> bool \<Rightarrow> bool \<Rightarrow> (bool \<times> bool) option" where
  "ZRangeOptions zrange [] with_scores rev' = Some (with_scores, rev')"
| "ZRangeOptions zrange (a # rest) with_scores rev' =
     (let u = ToUpper a
      in if u = ''WITHSCORES'' then ZRangeOptions zrange rest True rev'
         else if u = ''REV'' \<and> zrange then ZRangeOptions zrange rest with_scores True
         else None)"

text \<open>The arity of \<open>ZRANGE\<close> lets three arguments through, and the fourth is read.\<close>

definition CmdZRange ::
  "bool \<Rightarrow> int \<Rightarrow> nat \<Rightarrow> Args \<Rightarrow> Database \<Rightarrow> string \<Rightarrow> (Database \<times> string) result" where
  "CmdZRange zrange now idx argv d out =
     (let (d1, st) = GetTyped get_zset now idx (argv ! 1) d
      in if is_wrong st then Inr (d1, ErrWrongType out)
         else case ParseIntStrict (argv ! 2) of
                None \<Rightarrow> Inr (d1, ErrNotInt out)
              | Some start \<Rightarrow>
                  if length argv \<le> 3 then Inl OutOfBounds
                  else (case ParseIntStrict (argv ! 3) of
                          None \<Rightarrow> Inr (d1, ErrNotInt out)
                        | Some stop \<Rightarrow>
                            (case ZRangeOptions zrange (drop 4 argv) False (\<not> zrange) of
                               None \<Rightarrow> Inr (d1, ErrSyntax out)
                             | Some (with_scores, rev') \<Rightarrow>
                                 (case st of
                                    kFound z \<Rightarrow>
                                      bind_result (defined (RangeByRank (fst z) start stop rev'))
                                        (\<lambda>v. Inr (d1, AppendScoredPairs out v with_scores))
                                  | _ \<Rightarrow> Inr (d1, AppendEmptyArrayReply out)))))"

datatype limit_error = LimitNotInt | LimitSyntax

record range_options =
  ro_scores :: bool
  ro_offset :: int
  ro_count :: int

fun ByScoreOptions :: "Args \<Rightarrow> range_options \<Rightarrow> limit_error + range_options" where
  "ByScoreOptions [] p = Inr p"
| "ByScoreOptions (a # rest) p =
     (let u = ToUpper a
      in if u = ''WITHSCORES'' then ByScoreOptions rest (p\<lparr>ro_scores := True\<rparr>)
         else if u = ''LIMIT'' \<and> length rest \<ge> 2 then
           (case (ParseIntStrict (rest ! 0), ParseIntStrict (rest ! 1)) of
              (Some offset, Some count) \<Rightarrow>
                ByScoreOptions (drop 2 rest) (p\<lparr>ro_offset := offset, ro_count := count\<rparr>)
            | _ \<Rightarrow> Inl LimitNotInt)
         else Inl LimitSyntax)"

definition CmdZRangeByScore ::
  "bool \<Rightarrow> int \<Rightarrow> nat \<Rightarrow> Args \<Rightarrow> Database \<Rightarrow> string \<Rightarrow> (Database \<times> string) result" where
  "CmdZRangeByScore max_first now idx argv d out =
     (let (d1, st) = GetTyped get_zset now idx (argv ! 1) d
      in if is_wrong st then Inr (d1, ErrWrongType out)
         else case (ParseScoreBound (argv ! (if max_first then 3 else 2)),
                    ParseScoreBound (argv ! (if max_first then 2 else 3))) of
                (Some minb, Some maxb) \<Rightarrow>
                  (case ByScoreOptions (drop 4 argv) \<lparr>ro_scores = False, ro_offset = 0, ro_count = - 1\<rparr> of
                     Inl LimitNotInt \<Rightarrow> Inr (d1, ErrNotInt out)
                   | Inl LimitSyntax \<Rightarrow> Inr (d1, ErrSyntax out)
                   | Inr p \<Rightarrow>
                       (case st of
                          kFound z \<Rightarrow>
                            bind_result (defined (RangeByScore (fst z) (ToRange minb maxb) max_first
                                                    (ro_offset p) (ro_count p)))
                              (\<lambda>v. Inr (d1, AppendScoredPairs out v (ro_scores p)))
                        | _ \<Rightarrow> Inr (d1, AppendEmptyArrayReply out)))
              | _ \<Rightarrow> Inr (d1, AppendErrorReply out ''ERR min or max is not a float''))"

definition CmdZRank ::
  "bool \<Rightarrow> int \<Rightarrow> nat \<Rightarrow> Args \<Rightarrow> Database \<Rightarrow> string \<Rightarrow> (Database \<times> string) result" where
  "CmdZRank ascending now idx argv d out =
     (let (d1, st) = GetTyped get_zset now idx (argv ! 1) d
      in case st of
           kWrongType \<Rightarrow> Inr (d1, ErrWrongType out)
         | kMissing \<Rightarrow> Inr (d1, AppendNullBulkReply out)
         | kFound z \<Rightarrow>
             (case map_of (snd z) (argv ! 2) of
                None \<Rightarrow> Inr (d1, AppendNullBulkReply out)
              | Some v \<Rightarrow>
                  bind_result (defined (if ascending then Rank (fst z) v (argv ! 2)
                                        else RevRank (fst z) v (argv ! 2)))
                    (\<lambda>r. Inr (d1, if r = SIZE_MAX then AppendNullBulkReply out
                                  else AppendIntReply out (sint r)))))"

definition CmdZCount ::
  "int \<Rightarrow> nat \<Rightarrow> Args \<Rightarrow> Database \<Rightarrow> string \<Rightarrow> (Database \<times> string) result" where
  "CmdZCount now idx argv d out =
     (let (d1, st) = GetTyped get_zset now idx (argv ! 1) d
      in if is_wrong st then Inr (d1, ErrWrongType out)
         else case (ParseScoreBound (argv ! 2), ParseScoreBound (argv ! 3)) of
                (Some minb, Some maxb) \<Rightarrow>
                  (case st of
                     kFound z \<Rightarrow>
                       bind_result (defined (CountInRange (fst z) (ToRange minb maxb)))
                         (\<lambda>n. Inr (d1, AppendIntReply out (int n)))
                   | _ \<Rightarrow> Inr (d1, AppendIntReply out 0))
              | _ \<Rightarrow> Inr (d1, AppendErrorReply out ''ERR min or max is not a float''))"

section \<open>Removals\<close>

definition zset_erase :: "double \<Rightarrow> string \<Rightarrow> zset \<Rightarrow> zset result" where
  "zset_erase score member = (\<lambda>(sl, dict).
     bind_result (defined (Erase sl score member))
       (\<lambda>(sl1, b). Inr (sl1, AList.delete member dict)))"

fun ZRemLoop :: "Args \<Rightarrow> zset \<Rightarrow> int \<Rightarrow> (zset \<times> int) result" where
  "ZRemLoop [] z n = Inr (z, n)"
| "ZRemLoop (m # ms) z n =
     (case map_of (snd z) m of
        None \<Rightarrow> ZRemLoop ms z n
      | Some v \<Rightarrow> bind_result (zset_erase v m z) (\<lambda>z1. ZRemLoop ms z1 (n + 1)))"

definition CmdZRem ::
  "int \<Rightarrow> nat \<Rightarrow> Args \<Rightarrow> Database \<Rightarrow> string \<Rightarrow> (Database \<times> string) result" where
  "CmdZRem now idx argv d out =
     (let (d1, st) = GetTyped get_zset now idx (argv ! 1) d
      in case st of
           kWrongType \<Rightarrow> Inr (d1, ErrWrongType out)
         | kMissing \<Rightarrow> if length argv > 2 then Inl NullDeref else Inr (d1, AppendIntReply out 0)
         | kFound z \<Rightarrow>
             bind_result (ZRemLoop (drop 2 argv) z 0)
               (\<lambda>((sl, dict), n). Inr (assign_value idx (argv ! 1) (ZSetValue sl dict) d1,
                                       AppendIntReply out n)))"

fun ZPopLoop :: "bool \<Rightarrow> nat \<Rightarrow> zset \<Rightarrow> string list \<Rightarrow> (zset \<times> string list) result" where
  "ZPopLoop min_mode 0 z flat = Inr (z, flat)"
| "ZPopLoop min_mode (Suc n) z flat =
     bind_result (defined (if min_mode then PopMin (fst z) else PopMax (fst z)))
       (\<lambda>(sl, popped).
          case popped of
            None \<Rightarrow> Inr ((sl, snd z), flat)
          | Some (score, member) \<Rightarrow>
              ZPopLoop min_mode n (sl, AList.delete member (snd z))
                (flat @ [member, FormatDouble score]))"

definition ZPopCount :: "Args \<Rightarrow> int option" where
  "ZPopCount argv =
     (if length argv = 3 then
        (case ParseIntStrict (argv ! 2) of
           None \<Rightarrow> None
         | Some c \<Rightarrow> if c < 0 then None else Some c)
      else Some 1)"

definition CmdZPop ::
  "bool \<Rightarrow> int \<Rightarrow> nat \<Rightarrow> Args \<Rightarrow> Database \<Rightarrow> string \<Rightarrow> (Database \<times> string) result" where
  "CmdZPop min_mode now idx argv d out =
     (let (d1, st) = GetTyped get_zset now idx (argv ! 1) d
      in if is_wrong st then Inr (d1, ErrWrongType out)
         else case ZPopCount argv of
                None \<Rightarrow> Inr (d1, ErrNotInt out)
              | Some count \<Rightarrow>
                  (case st of
                     kFound z \<Rightarrow>
                       if count = 0 then Inr (d1, AppendEmptyArrayReply out)
                       else bind_result (ZPopLoop min_mode (nat count) z [])
                              (\<lambda>((sl, dict), flat).
                                 Inr (assign_value idx (argv ! 1) (ZSetValue sl dict) d1,
                                      AppendBulkArray out flat))
                   | _ \<Rightarrow> Inr (d1, AppendEmptyArrayReply out)))"

fun EraseAll :: "(double \<times> string) list \<Rightarrow> zset \<Rightarrow> zset result" where
  "EraseAll [] z = Inr z"
| "EraseAll ((score, member) # victims) z =
     bind_result (zset_erase score member z) (EraseAll victims)"

definition RemoveVictims ::
  "nat \<Rightarrow> string \<Rightarrow> zset \<Rightarrow> (double \<times> string) list option \<Rightarrow> Database \<Rightarrow> string \<Rightarrow> (Database \<times> string) result" where
  "RemoveVictims idx key z victims d out =
     bind_result (defined victims)
       (\<lambda>v. bind_result (EraseAll v z)
         (\<lambda>(sl, dict). Inr (assign_value idx key (ZSetValue sl dict) d,
                            AppendIntReply out (int (length v)))))"

definition CmdZRemRangeByRank ::
  "int \<Rightarrow> nat \<Rightarrow> Args \<Rightarrow> Database \<Rightarrow> string \<Rightarrow> (Database \<times> string) result" where
  "CmdZRemRangeByRank now idx argv d out =
     (let (d1, st) = GetTyped get_zset now idx (argv ! 1) d
      in if is_wrong st then Inr (d1, ErrWrongType out)
         else case (ParseIntStrict (argv ! 2), ParseIntStrict (argv ! 3)) of
                (Some start, Some stop) \<Rightarrow>
                  (case st of
                     kFound z \<Rightarrow> RemoveVictims idx (argv ! 1) z (RangeByRank (fst z) start stop False) d1 out
                   | _ \<Rightarrow> Inr (d1, AppendIntReply out 0))
              | _ \<Rightarrow> Inr (d1, ErrNotInt out))"

definition CmdZRemRangeByScore ::
  "int \<Rightarrow> nat \<Rightarrow> Args \<Rightarrow> Database \<Rightarrow> string \<Rightarrow> (Database \<times> string) result" where
  "CmdZRemRangeByScore now idx argv d out =
     (let (d1, st) = GetTyped get_zset now idx (argv ! 1) d
      in if is_wrong st then Inr (d1, ErrWrongType out)
         else case (ParseScoreBound (argv ! 2), ParseScoreBound (argv ! 3)) of
                (Some minb, Some maxb) \<Rightarrow>
                  (case st of
                     kFound z \<Rightarrow>
                       RemoveVictims idx (argv ! 1) z
                         (RangeByScore (fst z) (ToRange minb maxb) False 0 (- 1)) d1 out
                   | _ \<Rightarrow> Inr (d1, AppendIntReply out 0))
              | _ \<Rightarrow> Inr (d1, AppendErrorReply out ''ERR min or max is not a float''))"

section \<open>Consistency of list and dictionary\<close>

text \<open>
  In a consistent sorted set the skip-list operations are defined, so the writes return a
  value, and the value is consistent again.
\<close>

lemma zset_okE:
  assumes "zset_ok sl dict"
  obtains xs where "sl_rel sl xs" "set xs = (\<lambda>(m, sc). (sc, m)) ` set dict" "distinct (map fst dict)"
    "zsorted xs" "\<And>sc m. (sc, m) \<in> set xs \<longleftrightarrow> map_of dict m = Some sc"
    "\<And>sc m. map_of dict m = Some sc \<Longrightarrow> \<not> d_isnan sc"
proof -
  obtain xs where xs: "sl_rel sl xs" "set xs = (\<lambda>(m, sc). (sc, m)) ` set dict"
    and d: "distinct (map fst dict)"
    using assms by (auto simp: zset_ok_def)
  have s: "zsorted xs" by (rule sl_rel_sorted [OF xs(1)])
  have m: "(sc, m) \<in> set xs \<longleftrightarrow> map_of dict m = Some sc" for sc m
    using xs(2) d by (force simp: map_of_eq_Some_iff)
  with s have "\<not> d_isnan sc" if "map_of dict m = Some sc" for sc m
    using that by (fastforce simp: zsorted_def num_score_def)
  with that xs d s m show thesis by blast
qed

lemma zset_okI:
  assumes "sl_rel sl xs" and "distinct (map fst dict)"
    and "\<And>sc m. (sc, m) \<in> set xs \<longleftrightarrow> map_of dict m = Some sc"
  shows "zset_ok sl dict"
proof -
  have "set xs = (\<lambda>(m, sc). (sc, m)) ` set dict"
    using assms(2,3) by (force simp: map_of_eq_Some_iff)
  with assms show ?thesis by (auto simp: zset_ok_def)
qed

lemma zkey_eq_member: "zkey (a, m) = zkey (b, n) \<Longrightarrow> m = n"
  by (simp add: zkey_def)

lemma zset_erase_ok:
  assumes "zset_ok sl dict" and "map_of dict m = Some sc"
  shows "\<exists>sl'. zset_erase sc m (sl, dict) = Inr (sl', AList.delete m dict) \<and> zset_ok sl' (AList.delete m dict)"
proof -
  obtain xs where xs: "sl_rel sl xs" "distinct (map fst dict)"
    "\<And>sc m. (sc, m) \<in> set xs \<longleftrightarrow> map_of dict m = Some sc"
    "\<And>sc m. map_of dict m = Some sc \<Longrightarrow> \<not> d_isnan sc"
    using assms(1) by (rule zset_okE) (rule that)
  obtain sl' where sl': "Erase sl sc m = Some (sl', zkey (sc, m) \<in> zkey ` set xs)"
    "sl_rel sl' (zerase (sc, m) xs)"
    using Erase_correct [OF xs(1) xs(4) [OF assms(2)]] by metis
  have "(sc', m') \<in> set (zerase (sc, m) xs) \<longleftrightarrow> map_of (AList.delete m dict) m' = Some sc'" for sc' m'
    using xs(3) [of sc' m'] assms(2) zkey_eq_member [of sc' m' sc m]
    by (auto simp: zerase_def delete_conv' zkey_def)
  with sl'(2) xs(2) have "zset_ok sl' (AList.delete m dict)" by (intro zset_okI) simp_all
  with sl'(1) show ?thesis by (simp add: zset_erase_def defined_def)
qed

lemma zset_put_ok:
  assumes "zset_ok sl dict" and "\<not> d_isnan sc"
  shows "\<exists>sl'. zset_put rnd m sc (sl, dict) = Inr (sl', AList.update m sc dict) \<and>
    zset_ok sl' (AList.update m sc dict)"
proof -
  obtain xs where xs: "sl_rel sl xs" "distinct (map fst dict)"
    "\<And>sc m. (sc, m) \<in> set xs \<longleftrightarrow> map_of dict m = Some sc"
    using assms(1) by (rule zset_okE) (rule that)
  obtain sl1 ys where sl1: "(case map_of dict m of None \<Rightarrow> Inr sl
       | Some old \<Rightarrow> bind_result (defined (Erase sl old m)) (\<lambda>(sl1, b). Inr sl1)) = Inr sl1"
    "sl_rel sl1 ys" "\<And>sc' m'. (sc', m') \<in> set ys \<longleftrightarrow> map_of dict m' = Some sc' \<and> m' \<noteq> m"
  proof (cases "map_of dict m")
    case None
    with that [of sl xs] xs show thesis by force
  next
    case (Some old)
    obtain sl1 where e: "zset_erase old m (sl, dict) = Inr (sl1, AList.delete m dict)"
      "zset_ok sl1 (AList.delete m dict)"
      using zset_erase_ok [OF assms(1) Some] by blast
    from e(2) obtain ys where "sl_rel sl1 ys"
      "\<And>sc m'. (sc, m') \<in> set ys \<longleftrightarrow> map_of (AList.delete m dict) m' = Some sc"
      by (rule zset_okE) (rule that)
    moreover have "bind_result (defined (Erase sl old m)) (\<lambda>(sl1, b). Inr sl1) = Inr sl1"
      using e(1) by (auto simp: zset_erase_def bind_result_Inr_iff)
    ultimately show thesis using Some by (intro that [of sl1 ys]) (auto simp: delete_conv')
  qed
  obtain sl2 where sl2: "Insert sl1 rnd sc m = Some (sl2, zkey (sc, m) \<notin> zkey ` set ys)"
    "sl_rel sl2 (zinsert (sc, m) ys)"
    using Insert_correct [OF sl1(2) assms(2)] by metis
  have "(sc', m') \<in> set (zinsert (sc, m) ys) \<longleftrightarrow> map_of (AList.update m sc dict) m' = Some sc'" for sc' m'
    using sl1(3) [of sc' m'] zkey_eq_member [of sc' m' sc m]
    by (auto simp: set_zinsert [OF sl_rel_sorted [OF sl1(2)]] update_conv' zkey_def)
  with sl2(2) xs(2) have "zset_ok sl2 (AList.update m sc dict)" by (intro zset_okI) simp_all
  with sl1(1) sl2(1) show ?thesis by (simp add: zset_put_def defined_def)
qed

lemma zset_pop_ok:
  assumes "zset_ok sl dict"
  shows "\<exists>sl' p. defined (if min_mode then PopMin sl else PopMax sl) = Inr (sl', p) \<and>
    (case p of None \<Rightarrow> dict = [] \<and> zset_ok sl' dict
     | Some (sc, m) \<Rightarrow> map_of dict m = Some sc \<and> zset_ok sl' (AList.delete m dict))"
proof -
  obtain xs where xs: "sl_rel sl xs" "set xs = (\<lambda>(m, sc). (sc, m)) ` set dict" "distinct (map fst dict)"
    "zsorted xs" "\<And>sc m. (sc, m) \<in> set xs \<longleftrightarrow> map_of dict m = Some sc"
    using assms by (rule zset_okE) (rule that)
  let ?p = "if xs = [] then None else Some (if min_mode then hd xs else last xs)"
    and ?ys = "if min_mode then tl xs else butlast xs"
  obtain sl' where sl': "(if min_mode then PopMin sl else PopMax sl) = Some (sl', ?p)" "sl_rel sl' ?ys"
  proof (cases min_mode)
    case True
    obtain sl' where "PopMin sl = Some (sl', case xs of [] \<Rightarrow> None | x # _ \<Rightarrow> Some x)" "sl_rel sl' (tl xs)"
      using PopMin_correct [OF xs(1)] by blast
    with True that [of sl'] show thesis by (cases xs) simp_all
  next
    case False
    obtain sl' where "PopMax sl = Some (sl', if xs = [] then None else Some (last xs))" "sl_rel sl' (butlast xs)"
      using PopMax_correct [OF xs(1)] by blast
    with False that [of sl'] show thesis by simp
  qed
  show ?thesis
  proof (cases "xs = []")
    case True
    with xs(2) have "dict = []" by simp
    moreover have "zset_ok sl' []"
      using sl'(2) True by (intro zset_okI [of _ "[]"]) (simp_all split: if_splits)
    ultimately show ?thesis using sl' True by (simp add: defined_def)
  next
    case False
    obtain sc m where p: "(if min_mode then hd xs else last xs) = (sc, m)" by fastforce
    obtain A B where AB: "xs = A @ (sc, m) # B" "?ys = A @ B"
    proof (cases min_mode)
      case True
      with that [of "[]" "tl xs"] p False show thesis by (cases xs) simp_all
    next
      case False
      with that [of "butlast xs" "[]"] p \<open>xs \<noteq> []\<close> append_butlast_last_id [of xs] show thesis by simp
    qed
    have "distinct (map zkey xs)" using xs(4) by (simp add: zsorted_def strict_sorted_iff)
    then have "distinct xs" by (rule distinct_map [THEN iffD1, THEN conjunct1])
    with AB have ys: "set ?ys = set xs - {(sc, m)}" by auto
    have m: "map_of dict m = Some sc" using xs(5) [of sc m] AB(1) by simp
    have "(sc', m') \<in> set ?ys \<longleftrightarrow> map_of (AList.delete m dict) m' = Some sc'" for sc' m'
      unfolding ys using xs(5) [of sc' m'] m by (auto simp: delete_conv')
    with sl'(2) xs(3) have "zset_ok sl' (AList.delete m dict)" by (intro zset_okI) simp_all
    with sl' False p m show ?thesis by (simp add: defined_def)
  qed
qed

lemma EraseAll_ok:
  assumes "zset_ok sl dict" and "distinct (map snd victims)"
    and "\<forall>p\<in>set victims. map_of dict (snd p) = Some (fst p)"
  shows "\<exists>sl' dict'. EraseAll victims (sl, dict) = Inr (sl', dict') \<and> zset_ok sl' dict' \<and>
    map_of dict' = (\<lambda>m. if m \<in> snd ` set victims then None else map_of dict m)"
  using assms
proof (induction victims arbitrary: sl dict)
  case (Cons p victims)
  obtain sc m where p: "p = (sc, m)" by fastforce
  obtain sl1 where sl1: "zset_erase sc m (sl, dict) = Inr (sl1, AList.delete m dict)"
    "zset_ok sl1 (AList.delete m dict)"
    using zset_erase_ok [OF Cons.prems(1), of m sc] Cons.prems(3) p by auto
  have "\<forall>q\<in>set victims. map_of (AList.delete m dict) (snd q) = Some (fst q)"
    using Cons.prems(2,3) p by (auto simp: delete_conv')
  with Cons.IH [OF sl1(2)] Cons.prems(2) obtain sl' dict' where
    "EraseAll victims (sl1, AList.delete m dict) = Inr (sl', dict')" "zset_ok sl' dict'"
    "map_of dict' = (\<lambda>m'. if m' \<in> snd ` set victims then None else map_of (AList.delete m dict) m')" by auto
  with p sl1 show ?case by (auto simp: delete_conv' fun_eq_iff)
qed simp

section \<open>The contract\<close>

named_theorems zset_contract \<open>contracts of the sorted-set commands\<close>

abbreviation zok :: "zset \<Rightarrow> bool" where
  "zok z \<equiv> zset_ok (fst z) (snd z)"

lemma zset_put_zok:
  assumes "zok z" and "\<not> d_isnan sc"
  obtains z' where "zset_put rnd m sc z = Inr z'" "zok z'" "snd z' = AList.update m sc (snd z)"
  using zset_put_ok [OF assms, of rnd m] by (cases z) auto

lemma zset_erase_zok:
  assumes "zok z" and "map_of (snd z) m = Some sc"
  obtains z' where "zset_erase sc m z = Inr z'" "zok z'" "snd z' = AList.delete m (snd z)"
  using zset_erase_ok [OF assms] by (cases z) auto

text \<open>A defined run that ends in a consistent sorted set.\<close>

definition zrun_ok :: "(zset \<times> 'a) result \<Rightarrow> bool" where
  "zrun_ok r \<longleftrightarrow> (\<exists>z x. r = Inr (z, x) \<and> zok z)"

lemma zrun_ok_simps [simp]: "zrun_ok (Inr zx) \<longleftrightarrow> zok (fst zx)" "\<not> zrun_ok (Inl f)"
  by (cases zx; auto simp: zrun_ok_def)+

lemma zrun_okE:
  assumes "zrun_ok r" obtains z x where "r = Inr (z, x)" "zok z"
  using assms unfolding zrun_ok_def by (elim exE conjE) (rule that)

lemma ZAddLoop_zok: "zok z \<Longrightarrow> zrun_ok (ZAddLoop rnds p c args z added changed)"
proof (induction rnds p c args z added changed rule: ZAddLoop.induct)
  case (1 rnds p c s member rest z added changed)
  show ?case
  proof (cases "\<exists>score. ParseDoubleStrict s = Some score \<and> \<not> d_isnan score")
    case True
    then obtain score where sc: "ParseDoubleStrict s = Some score" "\<not> d_isnan score" by blast
    let ?it = "map_of (snd z) member"
    let ?res = "d_add (case ?it of None \<Rightarrow> 0 | Some v \<Rightarrow> v) score"
    obtain z1 where z1: "zset_put (rnds c) member score z = Inr z1" "zok z1"
      using zset_put_zok [OF "1.prems" sc(2), of "rnds c" member] by blast
    show ?thesis
    proof (cases "zadd_incr p \<and> \<not> d_isnan ?res")
      case True
      then obtain z2 where "zset_put (rnds c) member ?res z = Inr z2" "zok z2"
        using zset_put_zok [OF "1.prems", of ?res "rnds c" member] by blast
      with True sc "1.prems" show ?thesis by (simp add: Let_def)
    next
      case False
      with "1.IH" "1.prems" sc z1 show ?thesis by (cases ?it) (auto simp: Let_def)
    qed
  qed (use "1.prems" in \<open>auto split: option.split\<close>)
qed simp_all

lemma ZRemLoop_zok: "zok z \<Longrightarrow> zrun_ok (ZRemLoop ms z n)"
proof (induction ms z n rule: ZRemLoop.induct)
  case (2 m ms z n)
  show ?case
  proof (cases "map_of (snd z) m")
    case (Some v)
    obtain z1 where "zset_erase v m z = Inr z1" "zok z1" using zset_erase_zok [OF "2.prems" Some] by blast
    with 2 Some show ?thesis by simp
  qed (use 2 in simp)
qed simp

lemma ZPopLoop_zok: "zok z \<Longrightarrow> zrun_ok (ZPopLoop mm n z flat)"
proof (induction n arbitrary: z flat)
  case (Suc n)
  obtain sl' p where sl': "defined (if mm then PopMin (fst z) else PopMax (fst z)) = Inr (sl', p)"
    "case p of None \<Rightarrow> snd z = [] \<and> zset_ok sl' (snd z)
     | Some (sc, m) \<Rightarrow> map_of (snd z) m = Some sc \<and> zset_ok sl' (AList.delete m (snd z))"
    using zset_pop_ok [OF Suc.prems, of mm] by (elim exE conjE) (rule that)
  with Suc.IH show ?case by (auto split: option.splits)
qed simp

definition victims_ok :: "(string \<times> double) list \<Rightarrow> (double \<times> string) list \<Rightarrow> bool" where
  "victims_ok dict v \<longleftrightarrow> distinct (map snd v) \<and> (\<forall>p\<in>set v. map_of dict (snd p) = Some (fst p))"

lemma RemoveVictims_ok:
  assumes "evolves now i K d d1" and "key \<in> K" and "zok z"
    and "\<And>v. victims = Some v \<Longrightarrow> victims_ok (snd z) v"
  shows "result_ok now i K d out (RemoveVictims i key z victims d1 out)"
proof (cases victims)
  case (Some v)
  obtain sl' dict' where "EraseAll v (fst z, snd z) = Inr (sl', dict')" "zset_ok sl' dict'"
    using EraseAll_ok [OF assms(3), of v] assms(4) [OF Some] unfolding victims_ok_def by blast
  with assms(1,2) Some show ?thesis
    by (auto simp: RemoveVictims_def defined_def intro!: handler_rules)
qed (simp add: RemoveVictims_def defined_def)

text \<open>Range queries return pairs of the sorted set, each member once.\<close>

lemma subseq_set_subset: "subseq v xs \<Longrightarrow> set v \<subseteq> set xs"
  by (induction rule: list_emb.induct) auto

lemma subseq_distinct: "subseq v xs \<Longrightarrow> distinct xs \<Longrightarrow> distinct v"
  by (induction rule: list_emb.induct) (auto dest: subseq_set_subset)

lemma sub_pairs:
  assumes "zsorted xs" and "\<And>sc m. (sc, m) \<in> set xs \<longleftrightarrow> map_of dict m = Some sc" and "subseq v xs"
  shows "victims_ok dict v"
proof -
  have "distinct (map zkey xs)" using assms(1) by (simp add: zsorted_def strict_sorted_iff)
  then have "distinct xs" by (rule distinct_map [THEN iffD1, THEN conjunct1])
  moreover have "inj_on snd (set xs)"
    using assms(2) by (auto simp: inj_on_def)
  ultimately have "distinct (map snd xs)" by (simp add: distinct_map)
  moreover have "subseq (map snd v) (map snd xs)" by (rule subseq_map [OF assms(3)])
  ultimately have "distinct (map snd v)" by (rule subseq_distinct [rotated])
  moreover have "set v \<subseteq> set xs" by (rule subseq_set_subset [OF assms(3)])
  ultimately show ?thesis using assms(2) unfolding victims_ok_def by force
qed

lemma zslice_subseq: "subseq (zslice xs start stop) xs"
  using subseq_map [OF subseq_filter_left, of "\<lambda>i. xs ! i" _ "[0..<length xs]"]
  by (simp add: zslice_def map_nth)

lemma rank_victims:
  assumes "zset_ok sl dict" and "RangeByRank sl start stop False = Some v"
  shows "victims_ok dict v"
proof -
  obtain xs where xs: "sl_rel sl xs" "zsorted xs"
    "\<And>sc m. (sc, m) \<in> set xs \<longleftrightarrow> map_of dict m = Some sc"
    using assms(1) by (rule zset_okE) (rule that)
  from assms(2) have "v = zslice xs start stop" by (simp add: RangeByRank_correct [OF xs(1)])
  with sub_pairs [OF xs(2,3) zslice_subseq] show ?thesis by simp
qed

lemma score_victims:
  assumes "zset_ok sl dict" and "RangeByScore sl r False 0 (- 1) = Some v"
  shows "victims_ok dict v"
proof -
  obtain xs where xs: "sl_rel sl xs" "zsorted xs"
    "\<And>sc m. (sc, m) \<in> set xs \<longleftrightarrow> map_of dict m = Some sc"
    using assms(1) by (rule zset_okE) (rule that)
  from assms(2) have "v = filter (in_range r) xs"
    by (simp add: RangeByScore_forward [OF xs(1)] limit_by_def)
  with sub_pairs [OF xs(2,3) subseq_filter_left] show ?thesis by simp
qed

lemma AppendScoredPairs_answers [simp]: "answers out (AppendScoredPairs out v ws)"
proof -
  have "answers out (foldl (\<lambda>out p. AppendBulkReply out (snd p)) (AppendArrayReply out (int (length v))) v)"
    by (rule foldl_answers [where g = "\<lambda>p. RBulk (snd p)"]) (simp_all add: AppendBulkReply_def)
  moreover have "answers out (foldl (\<lambda>out p. AppendBulkReply (AppendBulkReply out (snd p)) (FormatDouble (fst p)))
      (AppendArrayReply out (int (length v * 2))) v)"
    by (rule foldl_answers2 [where g = "\<lambda>p. RBulk (snd p)" and h = "\<lambda>p. RBulk (FormatDouble (fst p))"])
      (simp_all add: AppendBulkReply_def)
  ultimately show ?thesis by (simp add: AppendScoredPairs_def)
qed

lemma zset_keeps:
  "zset_put rnd m sc (sl, dict) = Inr (sl', dict') \<Longrightarrow> zset_ok sl dict \<Longrightarrow> \<not> d_isnan sc \<Longrightarrow> zset_ok sl' dict'"
  "ZAddLoop rnds p c args (sl, dict) a ch = Inr ((sl', dict'), fin) \<Longrightarrow> zset_ok sl dict \<Longrightarrow> zset_ok sl' dict'"
  "ZRemLoop ms (sl, dict) n = Inr ((sl', dict'), k) \<Longrightarrow> zset_ok sl dict \<Longrightarrow> zset_ok sl' dict'"
  "ZPopLoop mm cnt (sl, dict) flat = Inr ((sl', dict'), flat') \<Longrightarrow> zset_ok sl dict \<Longrightarrow> zset_ok sl' dict'"
  using zset_put_ok [of sl dict sc rnd m] ZAddLoop_zok [of "(sl, dict)" rnds p c args a ch]
    ZRemLoop_zok [of "(sl, dict)" ms n] ZPopLoop_zok [of "(sl, dict)" mm cnt flat]
  by auto

lemma CmdZAdd_ok [zset_contract]:
  assumes "evolves now i K d d" and "argv ! 1 \<in> K" and "one_line (argv ! 0)"
  shows "result_ok now i K d out (CmdZAdd rnds now i argv d out)"
  using assms zset_okI [OF new_skiplist_rel, of "[]"]
  by (auto simp: CmdZAdd_def ZSetCreate_def Let_def case_prod_beta [of _ "ZAddFlags _ _"]
      intro!: handler_rules dest!: zset_keeps split: zadd_end.split)

lemma CmdZIncrBy_ok [zset_contract]:
  assumes "evolves now i K d d" and "argv ! 1 \<in> K"
  shows "result_ok now i K d out (CmdZIncrBy rnds now i argv d out)"
  using assms zset_okI [OF new_skiplist_rel, of "[]"]
  by (auto simp: CmdZIncrBy_def ZSetCreate_def Let_def intro!: handler_rules dest!: zset_keeps
      split: option.split)

lemma CmdZReads_ok [zset_contract]:
  assumes "evolves now i K d d"
  shows "result_ok now i K d out (CmdZScore now i argv d out)"
    and "handler_ok now i K d out (CmdZCard now i argv d out)"
    and "result_ok now i K d out (CmdZRank asc now i argv d out)"
    and "result_ok now i K d out (CmdZCount now i argv d out)"
  using assms
  by (auto simp: CmdZScore_def CmdZCard_def CmdZRank_def CmdZCount_def Let_def
      intro!: handler_rules split: option.split)

lemma CmdZRange_ok [zset_contract]:
  assumes "evolves now i K d d"
  shows "result_ok now i K d out (CmdZRange zrange now i argv d out)"
  using assms by (auto simp: CmdZRange_def Let_def intro!: handler_rules split: option.split)

lemma CmdZRangeByScore_ok [zset_contract]:
  assumes "evolves now i K d d"
  shows "result_ok now i K d out (CmdZRangeByScore mf now i argv d out)"
  using assms
  by (auto simp: CmdZRangeByScore_def Let_def intro!: handler_rules
      split: option.split sum.split limit_error.split)

lemma CmdZRem_ok [zset_contract]:
  assumes "evolves now i K d d" and "argv ! 1 \<in> K"
  shows "result_ok now i K d out (CmdZRem now i argv d out)"
  using assms
  by (auto simp: CmdZRem_def Let_def intro!: handler_rules dest!: zset_keeps)

lemma CmdZPop_ok [zset_contract]:
  assumes "evolves now i K d d" and "argv ! 1 \<in> K"
  shows "result_ok now i K d out (CmdZPop mm now i argv d out)"
  using assms
  by (auto simp: CmdZPop_def Let_def intro!: handler_rules dest!: zset_keeps split: option.split)

lemma CmdZRemRangeByRank_ok [zset_contract]:
  assumes "evolves now i K d d" and "argv ! 1 \<in> K"
  shows "result_ok now i K d out (CmdZRemRangeByRank now i argv d out)"
  using assms
  by (auto simp: CmdZRemRangeByRank_def Let_def intro!: handler_rules RemoveVictims_ok
      split: option.split) (rule rank_victims, assumption+)

lemma CmdZRemRangeByScore_ok [zset_contract]:
  assumes "evolves now i K d d" and "argv ! 1 \<in> K"
  shows "result_ok now i K d out (CmdZRemRangeByScore now i argv d out)"
  using assms
  by (auto simp: CmdZRemRangeByScore_def Let_def intro!: handler_rules RemoveVictims_ok
      split: option.split) (rule score_victims, assumption+)

end
