(* ===== verification/Dispatch.thy ===== *)
theory Dispatch
  imports CmdKeys CmdHash CmdList CmdSets CmdZSet "HOL-Library.Signed_Division"
begin

text \<open>
  The dispatcher of \<open>src/commands.cpp\<close>: the server commands, \<open>BuildInfo\<close>, the checks before a
  command runs, the choice of the handler and transactions. The state is everything
  \<open>Dispatch\<close> takes by reference, and the disk with the time of the last save, which \<open>SAVE\<close> and
  \<open>BGSAVE\<close> change through \<open>src/rdb.cpp\<close>. What a command reads from outside is an \<open>env\<close>: the
  clock, the outputs of the random generators, the faults of the file system.
\<close>

section \<open>State and environment\<close>

record world =
  w_db :: Database
  w_cs :: ClientState
  w_opts :: ServerOptions
  w_stats :: ServerStats
  w_disk :: disk
  w_children :: "(string \<times> string) list"
  w_out :: string

record env =
  now_us :: int
  draws :: "nat \<Rightarrow> nat"
  rnds :: "nat \<Rightarrow> nat \<Rightarrow> int"
  io :: io_faults
  errno_text :: string
  long_double :: float_format

definition NowMs :: "env \<Rightarrow> int" where
  "NowMs e = now_us e sdiv 1000"

definition now_s :: "env \<Rightarrow> int" where
  "now_s e = now_us e sdiv 1000000"

section \<open>INFO\<close>

definition info_kv :: "string \<Rightarrow> string \<Rightarrow> string" where
  "info_kv k v = k @ '':'' @ v @ CRLF"

definition info_want :: "string \<Rightarrow> string \<Rightarrow> bool" where
  "info_want section name \<longleftrightarrow>
     section = [] \<or> section = ''all'' \<or> section = ''default'' \<or> section = name"

definition keyspace_line :: "Database \<Rightarrow> nat \<Rightarrow> string" where
  "keyspace_line d i =
     (if Size i d = 0 then []
      else info_kv (''db'' @ nat_str i)
             (''keys='' @ int_str (Size i d) @ '',expires='' @
              int_str (int (length (filter (\<lambda>kv. expires_at_ms (snd kv) \<noteq> 0) (table i d)))) @
              '',avg_ttl=0''))"

definition BuildInfo ::
  "int \<Rightarrow> int \<Rightarrow> Database \<Rightarrow> ServerOptions \<Rightarrow> ServerStats \<Rightarrow> string \<Rightarrow> string" where
  "BuildInfo us last_save_time d opts stats section =
     (let uptime_s = (if start_time_us stats \<noteq> 0 then (us - start_time_us stats) sdiv 1000000 else 0)
      in (if info_want section ''Server'' then
            ''# Server'' @ CRLF @ info_kv ''redis_version'' ''7.4.0-tiny'' @
            info_kv ''redis_mode'' ''standalone'' @ info_kv ''os'' ''Darwin tiny-redis-runtime'' @
            info_kv ''run_id'' ''0000000000000000000000000000000000000000'' @
            info_kv ''tcp_port'' (int_str (port opts)) @
            info_kv ''uptime_in_seconds'' (int_str uptime_s)
          else []) @
         (if info_want section ''Clients'' then
            ''# Clients'' @ CRLF @ info_kv ''connected_clients'' (nat_str (connected_clients stats))
          else []) @
         (if info_want section ''Memory'' then
            ''# Memory'' @ CRLF @ info_kv ''used_memory'' (nat_str (used d)) @
            info_kv ''used_memory_human'' (nat_str (used d div 1024) @ ''K'') @
            info_kv ''maxmemory'' (nat_str (max_memory d)) @ info_kv ''maxmemory_policy'' ''noeviction''
          else []) @
         (if info_want section ''Persistence'' then
            ''# Persistence'' @ CRLF @ info_kv ''loading'' ''0'' @
            info_kv ''rdb_last_save_time'' (int_str last_save_time)
          else []) @
         (if info_want section ''Stats'' then
            ''# Stats'' @ CRLF @
            info_kv ''total_connections_received'' (nat_str (total_connections stats)) @
            info_kv ''total_commands_processed'' (nat_str (total_commands stats)) @
            info_kv ''expired_keys'' (nat_str (expired_keys stats))
          else []) @
         (if info_want section ''Replication'' then
            ''# Replication'' @ CRLF @ info_kv ''role'' ''master'' @ info_kv ''connected_slaves'' ''0''
          else []) @
         (if info_want section ''Keyspace'' then
            ''# Keyspace'' @ CRLF @ concat (map (keyspace_line d) [0..<kNumDatabases])
          else []))"

section \<open>Server commands\<close>

definition reply :: "(string \<Rightarrow> string) \<Rightarrow> world \<Rightarrow> world" where
  "reply f w = w\<lparr>w_out := f (w_out w)\<rparr>"

abbreviation simple :: "string \<Rightarrow> world \<Rightarrow> world" where
  "simple s \<equiv> reply (\<lambda>out. AppendSimpleReply out s)"

abbreviation error_reply :: "string \<Rightarrow> world \<Rightarrow> world" where
  "error_reply s \<equiv> reply (\<lambda>out. AppendErrorReply out s)"

abbreviation bulk :: "string \<Rightarrow> world \<Rightarrow> world" where
  "bulk s \<equiv> reply (\<lambda>out. AppendBulkReply out s)"

abbreviation int_reply :: "int \<Rightarrow> world \<Rightarrow> world" where
  "int_reply n \<equiv> reply (\<lambda>out. AppendIntReply out n)"

definition CmdPing :: "Args \<Rightarrow> world \<Rightarrow> world" where
  "CmdPing argv = (if length argv = 2 then bulk (argv ! 1) else simple ''PONG'')"

definition CmdSelect :: "Args \<Rightarrow> world \<Rightarrow> world" where
  "CmdSelect argv w =
     (case ParseIntStrict (argv ! 1) of
        None \<Rightarrow> error_reply ''ERR DB index is out of range'' w
      | Some i \<Rightarrow>
          if i < 0 \<or> i \<ge> num_databases (w_opts w)
          then error_reply ''ERR DB index is out of range'' w
          else simple ''OK'' (w\<lparr>w_cs := (w_cs w)\<lparr>db_index := nat i\<rparr>\<rparr>))"

definition CmdHello :: "Args \<Rightarrow> world \<Rightarrow> world" where
  "CmdHello argv =
     (if length argv \<ge> 2 \<and> ParseIntStrict (argv ! 1) \<noteq> Some 2
      then error_reply ''NOPROTO unsupported protocol version''
      else reply (\<lambda>out. foldl AppendBulkReply (AppendArrayReply out 14)
             [''server'', ''redis'', ''version'', ''7.4.0-tiny'', ''proto'', ''2'', ''id'',
              ''1'', ''mode'', ''standalone'', ''role'', ''master'', ''modules'', []]))"

definition CmdTime :: "env \<Rightarrow> world \<Rightarrow> world" where
  "CmdTime e =
     reply (\<lambda>out. AppendBulkReply (AppendBulkReply (AppendArrayReply out 2)
       (int_str (now_us e sdiv 1000000))) (int_str (now_us e smod 1000000)))"

definition dump_path :: "ServerOptions \<Rightarrow> string" where
  "dump_path opts = dir opts @ ''/'' @ dbfilename opts"

primrec save_error_text :: "string \<Rightarrow> string \<Rightarrow> save_error \<Rightarrow> string" where
  "save_error_text path errno CannotOpen = ''cannot open '' @ tmp_path path @ '': '' @ errno"
| "save_error_text path errno WriteFailed = ''write failed on '' @ tmp_path path"
| "save_error_text path errno RenameFailed = ''rename failed: '' @ errno"
| "save_error_text path errno ForkFailed = ''fork failed: '' @ errno"

definition CmdSave :: "env \<Rightarrow> world \<Rightarrow> world" where
  "CmdSave e w =
     (let path = dump_path (w_opts w);
          (dk, r) = SaveToFile (io e) (now_s e) path (w_db w) (w_disk w);
          w1 = w\<lparr>w_disk := dk\<rparr>
      in case r of
           Inr u \<Rightarrow> simple ''OK'' w1
         | Inl err \<Rightarrow> error_reply (save_error_text path (errno_text e) err) w1)"

definition CmdBgSave :: "env \<Rightarrow> world \<Rightarrow> world" where
  "CmdBgSave e w =
     (let path = dump_path (w_opts w);
          (dk, r) = BgSaveFork (io e) (now_s e) path (w_db w) (w_disk w);
          w1 = w\<lparr>w_disk := dk\<rparr>
      in case r of
           Inr job \<Rightarrow> simple ''Background saving started'' (w1\<lparr>w_children := w_children w1 @ [job]\<rparr>)
         | Inl err \<Rightarrow> error_reply (save_error_text path (errno_text e) err) w1)"

definition CmdInfo :: "env \<Rightarrow> Args \<Rightarrow> world \<Rightarrow> world" where
  "CmdInfo e argv w =
     (let sec = (if length argv = 2 then ToLower (argv ! 1) else [])
      in bulk (BuildInfo (now_us e) (last_save (w_disk w)) (w_db w) (w_opts w) (w_stats w) sec) w)"

definition CmdShutdown :: "Args \<Rightarrow> world \<Rightarrow> world" where
  "CmdShutdown argv w =
     (let nosave = (length argv = 2 \<and> ToUpper (argv ! 1) = ''NOSAVE'')
      in if length argv = 2 \<and> \<not> nosave \<and> ToUpper (argv ! 1) \<noteq> ''SAVE'' then reply ErrSyntax w
         else w\<lparr>w_stats := (w_stats w)\<lparr>shutdown_nosave := nosave, shutdown_requested := True\<rparr>\<rparr>)"

definition config_pair :: "world \<Rightarrow> string \<Rightarrow> string list option" where
  "config_pair w param =
     (if param = ''maxmemory'' then Some [''maxmemory'', nat_str (max_memory (w_db w))]
      else if param = ''port'' then Some [''port'', int_str (port (w_opts w))]
      else if param = ''databases'' then Some [''databases'', int_str (num_databases (w_opts w))]
      else if param = ''dir'' then Some [''dir'', dir (w_opts w)]
      else if param = ''dbfilename'' then Some [''dbfilename'', dbfilename (w_opts w)]
      else if param = ''save'' then Some [''save'', []]
      else if param = ''timeout'' then Some [''timeout'', ''0'']
      else None)"

text \<open>The arity of \<open>CONFIG\<close> is exactly three, and \<open>CONFIG SET maxmemory\<close> reads the fourth
  argument.\<close>

definition CmdConfig :: "Args \<Rightarrow> world \<Rightarrow> world result" where
  "CmdConfig argv w =
     (let sub = ToUpper (argv ! 1); param = ToLower (argv ! 2)
      in if sub = ''GET'' then
           (case config_pair w param of
              Some pairs \<Rightarrow> Inr (reply (\<lambda>out. AppendBulkArray out pairs) w)
            | None \<Rightarrow> Inr (error_reply (''ERR Unknown option or number of arguments for CONFIG GET -- ''
                          @ quote @ param @ quote) w))
         else if sub = ''SET'' then
           if param = ''maxmemory'' then
             if length argv \<le> 3 then Inl OutOfBounds
             else (case ParseIntStrict (argv ! 3) of
                     None \<Rightarrow> Inr (reply ErrNotInt w)
                   | Some cap \<Rightarrow>
                       if cap < 0 then Inr (reply ErrNotInt w)
                       else Inr (simple ''OK'' (w\<lparr>w_db := (w_db w)\<lparr>max_memory := nat cap\<rparr>\<rparr>)))
           else Inr (error_reply (''ERR Unsupported CONFIG parameter: '' @ param) w)
         else Inr (reply ErrSyntax w))"

text \<open>\<open>CLIENT SETNAME\<close> reads the third argument, which the arity does not demand.\<close>

definition CmdClient :: "Args \<Rightarrow> world \<Rightarrow> world result" where
  "CmdClient argv w =
     (let sub = ToUpper (argv ! 1); cs = w_cs w
      in if sub = ''ID'' then Inr (int_reply (int (client_id cs)) w)
         else if sub = ''GETNAME'' then
           Inr (if client_name cs = [] then reply AppendNullBulkReply w else bulk (client_name cs) w)
         else if sub = ''SETNAME'' then
           if length argv \<le> 2 then Inl OutOfBounds
           else Inr (simple ''OK'' (w\<lparr>w_cs := cs\<lparr>client_name := argv ! 2\<rparr>\<rparr>))
         else if sub = ''INFO'' then
           Inr (bulk (''id='' @ nat_str (client_id cs) @ '' addr=127.0.0.1:0 laddr=127.0.0.1:'' @
                      int_str (port (w_opts w)) @ '' name='' @ client_name cs @
                      '' db='' @ nat_str (db_index cs)) w)
         else if sub = ''LIST'' then
           Inr (bulk (''id='' @ nat_str (client_id cs) @ '' addr=127.0.0.1:0 fd=-1 name='' @
                      client_name cs @ '' db='' @ nat_str (db_index cs) @ '' cmd=client'') w)
         else Inr (error_reply (''ERR Unknown CLIENT subcommand or wrong number of arguments for ''
                     @ quote @ ToLower (argv ! 1) @ quote) w))"

definition CmdMemory :: "int \<Rightarrow> Args \<Rightarrow> world \<Rightarrow> world" where
  "CmdMemory now argv w =
     (if ToUpper (argv ! 1) = ''USAGE'' then
        let (d1, e) = Lookup now (db_index (w_cs w)) (argv ! 2) (w_db w); w1 = w\<lparr>w_db := d1\<rparr>
        in (case e of
              None \<Rightarrow> reply AppendNullBulkReply w1
            | Some e \<Rightarrow> int_reply (int (48 + length (argv ! 2) + ValueSize (ent_value e))) w1)
      else error_reply ''ERR syntax error'' w)"

definition ServerCommand :: "env \<Rightarrow> string \<Rightarrow> Args \<Rightarrow> world \<Rightarrow> world result option" where
  "ServerCommand e upper argv w =
     (if upper = ''PING'' then Some (Inr (CmdPing argv w))
      else if upper = ''ECHO'' then Some (Inr (bulk (argv ! 1) w))
      else if upper = ''SELECT'' then Some (Inr (CmdSelect argv w))
      else if upper = ''AUTH''
      then Some (Inr (error_reply ''ERR Client sent AUTH, but no password is set'' w))
      else if upper = ''QUIT''
      then Some (Inr (simple ''OK'' (w\<lparr>w_cs := (w_cs w)\<lparr>quit_requested := True\<rparr>\<rparr>)))
      else if upper = ''HELLO'' then Some (Inr (CmdHello argv w))
      else if upper = ''COMMAND'' then Some (Inr (reply AppendEmptyArrayReply w))
      else if upper = ''DBSIZE''
      then Some (Inr (int_reply (Size (db_index (w_cs w)) (w_db w)) w))
      else if upper = ''FLUSHDB''
      then Some (Inr (simple ''OK'' (w\<lparr>w_db := FlushDb (db_index (w_cs w)) (w_db w)\<rparr>)))
      else if upper = ''FLUSHALL'' then Some (Inr (simple ''OK'' (w\<lparr>w_db := FlushAll (w_db w)\<rparr>)))
      else if upper = ''TIME'' then Some (Inr (CmdTime e w))
      else if upper = ''ROLE''
      then Some (Inr (reply (\<lambda>out. AppendArrayReply (AppendIntReply
             (AppendBulkReply (AppendArrayReply out 3) ''master'') 0) 0) w))
      else if upper = ''WAIT'' then Some (Inr (int_reply 0 w))
      else if upper = ''LASTSAVE'' then Some (Inr (int_reply (last_save (w_disk w)) w))
      else if upper = ''SAVE'' then Some (Inr (CmdSave e w))
      else if upper = ''BGSAVE'' then Some (Inr (CmdBgSave e w))
      else if upper = ''BGREWRITEAOF''
      then Some (Inr (simple ''Background append only file rewriting started'' w))
      else if upper = ''INFO'' then Some (Inr (CmdInfo e argv w))
      else if upper = ''SHUTDOWN'' then Some (Inr (CmdShutdown argv w))
      else if upper = ''CONFIG'' then Some (CmdConfig argv w)
      else if upper = ''CLIENT'' then Some (CmdClient argv w)
      else if upper = ''MEMORY'' then Some (Inr (CmdMemory (NowMs e) argv w))
      else None)"

section \<open>Data commands\<close>

text \<open>The branches for values of each type, on the database and the reply.\<close>

definition StringCommand ::
  "env \<Rightarrow> string \<Rightarrow> nat \<Rightarrow> Args \<Rightarrow> Database \<Rightarrow> string \<Rightarrow> (Database \<times> string) result option" where
  "StringCommand e upper idx argv d out =
     (let now = NowMs e; ld = long_double e
      in if upper = ''GET'' then Some (Inr (CmdGet now idx argv d out))
         else if upper = ''SET'' then Some (CmdSet now idx argv d out)
         else if upper = ''SETNX'' then Some (Inr (CmdSetNx now idx argv d out))
         else if upper = ''SETEX'' \<or> upper = ''PSETEX''
         then Some (CmdSetEx (upper = ''SETEX'') now idx argv d out)
         else if upper = ''GETSET'' then Some (Inr (CmdGetSet now idx argv d out))
         else if upper = ''GETDEL'' then Some (Inr (CmdGetDel now idx argv d out))
         else if upper = ''GETRANGE'' then Some (Inr (CmdGetRange now idx argv d out))
         else if upper = ''SETRANGE'' then Some (CmdSetRange now idx argv d out)
         else if upper = ''STRLEN'' then Some (Inr (CmdStrLen now idx argv d out))
         else if upper = ''APPEND'' then Some (Inr (CmdAppend now idx argv d out))
         else if upper = ''INCR'' then Some (CmdIncrBy ld now idx argv d out 1 False)
         else if upper = ''DECR'' then Some (CmdIncrBy ld now idx argv d out (- 1) False)
         else if upper = ''INCRBY'' then Some (CmdIncrByArg ld now idx argv d out)
         else if upper = ''DECRBY'' then Some (CmdDecrByArg ld now idx argv d out)
         else if upper = ''INCRBYFLOAT'' then Some (CmdIncrBy ld now idx argv d out 0 True)
         else if upper = ''MGET'' then Some (Inr (CmdMGet now idx argv d out))
         else if upper = ''MSET'' \<or> upper = ''MSETNX'' then Some (Inr (CmdMSet now idx argv d out))
         else None)"

definition KeyCommand ::
  "env \<Rightarrow> string \<Rightarrow> nat \<Rightarrow> Args \<Rightarrow> Database \<Rightarrow> string \<Rightarrow> (Database \<times> string) result option" where
  "KeyCommand e upper idx argv d out =
     (let now = NowMs e
      in if upper = ''DEL'' \<or> upper = ''UNLINK'' then Some (Inr (CmdDel idx argv d out))
         else if upper = ''EXISTS'' then Some (Inr (CmdExists now idx argv d out))
         else if upper = ''SCAN'' then Some (Inr (d, CmdScan now idx argv d out))
         else if upper = ''TYPE'' then Some (Inr (CmdType now idx argv d out))
         else if upper = ''RENAME'' then Some (Inr (CmdRename now idx argv d out))
         else if upper = ''EXPIRE'' \<or> upper = ''PEXPIRE'' \<or> upper = ''EXPIREAT'' \<or> upper = ''PEXPIREAT''
         then Some (CmdExpire now idx argv d out (upper = ''EXPIREAT'' \<or> upper = ''PEXPIREAT'')
                      (upper = ''PEXPIRE'' \<or> upper = ''PEXPIREAT''))
         else if upper = ''TTL'' \<or> upper = ''PTTL'' then Some (CmdTtl (upper = ''TTL'') now idx argv d out)
         else if upper = ''PERSIST'' then Some (Inr (CmdPersist now idx argv d out))
         else None)"

definition HashCommand ::
  "env \<Rightarrow> string \<Rightarrow> nat \<Rightarrow> Args \<Rightarrow> Database \<Rightarrow> string \<Rightarrow> (Database \<times> string) result option" where
  "HashCommand e upper idx argv d out =
     (let now = NowMs e; ld = long_double e
      in if upper = ''HSET'' \<or> upper = ''HMSET'' then Some (Inr (CmdHSet now idx argv d out))
         else if upper = ''HGET'' then Some (CmdHGet now idx argv d out)
         else if upper = ''HMGET'' then Some (CmdHMGet now idx argv d out)
         else if upper = ''HGETALL'' \<or> upper = ''HKEYS'' \<or> upper = ''HVALS''
         then Some (Inr (CmdHGetAll now idx argv d out))
         else if upper = ''HDEL'' then Some (CmdHDel now idx argv d out)
         else if upper = ''HEXISTS'' then Some (Inr (CmdHExists now idx argv d out))
         else if upper = ''HLEN'' then Some (Inr (CmdHLen now idx argv d out))
         else if upper = ''HSETNX'' then Some (Inr (CmdHSetNx now idx argv d out))
         else if upper = ''HSTRLEN'' then Some (CmdHStrLen now idx argv d out)
         else if upper = ''HINCRBY'' then Some (Inr (CmdHIncrBy now idx argv d out))
         else if upper = ''HINCRBYFLOAT'' then Some (CmdHIncrByFloat ld now idx argv d out)
         else None)"

definition ListCommand ::
  "env \<Rightarrow> string \<Rightarrow> nat \<Rightarrow> Args \<Rightarrow> Database \<Rightarrow> string \<Rightarrow> (Database \<times> string) result option" where
  "ListCommand e upper idx argv d out =
     (let now = NowMs e
      in if upper = ''LPUSH'' \<or> upper = ''RPUSH''
         then Some (Inr (CmdPush now idx argv d out (upper = ''LPUSH'')))
         else if upper = ''LPOP'' \<or> upper = ''RPOP''
         then Some (Inr (CmdPop now idx argv d out (upper = ''LPOP'')))
         else if upper = ''LLEN'' then Some (Inr (CmdLLen now idx argv d out))
         else if upper = ''LRANGE'' then Some (CmdLRange now idx argv d out)
         else if upper = ''LINDEX'' then Some (Inr (CmdLIndex now idx argv d out))
         else if upper = ''LSET'' then Some (Inr (CmdLSet now idx argv d out))
         else if upper = ''LREM'' then Some (CmdLRem now idx argv d out)
         else if upper = ''LINSERT'' then Some (Inr (CmdLInsert now idx argv d out))
         else if upper = ''LTRIM'' then Some (Inr (CmdLTrim now idx argv d out))
         else if upper = ''RPOPLPUSH'' then Some (Inr (CmdRPopLPush now idx argv d out))
         else if upper = ''LMOVE'' then Some (Inr (CmdLMove now idx argv d out))
         else None)"

definition SetCommand ::
  "env \<Rightarrow> string \<Rightarrow> nat \<Rightarrow> Args \<Rightarrow> Database \<Rightarrow> string \<Rightarrow> (Database \<times> string) result option" where
  "SetCommand e upper idx argv d out =
     (let now = NowMs e
      in if upper = ''SADD'' then Some (Inr (CmdSAdd now idx argv d out))
         else if upper = ''SREM'' then Some (CmdSRem now idx argv d out)
         else if upper = ''SMEMBERS'' then Some (Inr (CmdSMembers now idx argv d out))
         else if upper = ''SISMEMBER'' then Some (Inr (CmdSIsMember now idx argv d out))
         else if upper = ''SCARD'' then Some (Inr (CmdSCard now idx argv d out))
         else if upper = ''SPOP'' then Some (Inr (CmdSPop (draws e) now idx argv d out))
         else if upper = ''SRANDMEMBER'' then Some (CmdSRandMember (draws e) now idx argv d out)
         else if upper = ''SMOVE'' then Some (CmdSMove now idx argv d out)
         else if upper = ''SINTER'' then Some (Inr (CmdSetOp now idx argv d out kInter))
         else if upper = ''SUNION'' then Some (Inr (CmdSetOp now idx argv d out kUnion))
         else if upper = ''SDIFF'' then Some (Inr (CmdSetOp now idx argv d out kDiff))
         else if upper = ''SINTERSTORE'' then Some (CmdSetOpStore now idx argv d out kInter)
         else if upper = ''SUNIONSTORE'' then Some (CmdSetOpStore now idx argv d out kUnion)
         else if upper = ''SDIFFSTORE'' then Some (CmdSetOpStore now idx argv d out kDiff)
         else None)"

definition ZSetCommand ::
  "env \<Rightarrow> string \<Rightarrow> nat \<Rightarrow> Args \<Rightarrow> Database \<Rightarrow> string \<Rightarrow> (Database \<times> string) result option" where
  "ZSetCommand e upper idx argv d out =
     (let now = NowMs e
      in if upper = ''ZADD'' then Some (CmdZAdd (rnds e) now idx argv d out)
         else if upper = ''ZSCORE'' then Some (CmdZScore now idx argv d out)
         else if upper = ''ZCARD'' then Some (Inr (CmdZCard now idx argv d out))
         else if upper = ''ZRANGE'' \<or> upper = ''ZREVRANGE''
         then Some (CmdZRange (upper = ''ZRANGE'') now idx argv d out)
         else if upper = ''ZRANGEBYSCORE'' \<or> upper = ''ZREVRANGEBYSCORE''
         then Some (CmdZRangeByScore (upper = ''ZREVRANGEBYSCORE'') now idx argv d out)
         else if upper = ''ZRANK'' \<or> upper = ''ZREVRANK''
         then Some (CmdZRank (upper = ''ZRANK'') now idx argv d out)
         else if upper = ''ZCOUNT'' then Some (CmdZCount now idx argv d out)
         else if upper = ''ZREM'' then Some (CmdZRem now idx argv d out)
         else if upper = ''ZINCRBY'' then Some (CmdZIncrBy (rnds e) now idx argv d out)
         else if upper = ''ZPOPMIN'' \<or> upper = ''ZPOPMAX''
         then Some (CmdZPop (upper = ''ZPOPMIN'') now idx argv d out)
         else if upper = ''ZREMRANGEBYRANK'' then Some (CmdZRemRangeByRank now idx argv d out)
         else if upper = ''ZREMRANGEBYSCORE'' then Some (CmdZRemRangeByScore now idx argv d out)
         else None)"

text \<open>The first group that knows the command; the groups are disjoint.\<close>

definition DataCommand ::
  "env \<Rightarrow> string \<Rightarrow> nat \<Rightarrow> Args \<Rightarrow> Database \<Rightarrow> string \<Rightarrow> (Database \<times> string) result option" where
  "DataCommand e upper idx argv d out =
     (case StringCommand e upper idx argv d out of Some r \<Rightarrow> Some r | None \<Rightarrow>
     (case KeyCommand e upper idx argv d out of Some r \<Rightarrow> Some r | None \<Rightarrow>
     (case HashCommand e upper idx argv d out of Some r \<Rightarrow> Some r | None \<Rightarrow>
     (case ListCommand e upper idx argv d out of Some r \<Rightarrow> Some r | None \<Rightarrow>
     (case SetCommand e upper idx argv d out of Some r \<Rightarrow> Some r | None \<Rightarrow>
      ZSetCommand e upper idx argv d out)))))"

text \<open>\<open>KEYS\<close> and \<open>RANDOMKEY\<close> also count expired keys.\<close>

definition RunCommand :: "env \<Rightarrow> string \<Rightarrow> Args \<Rightarrow> world \<Rightarrow> world result option" where
  "RunCommand e upper argv w =
     (case ServerCommand e upper argv w of
        Some r \<Rightarrow> Some r
      | None \<Rightarrow>
          (let idx = db_index (w_cs w); now = NowMs e
           in if upper = ''KEYS'' \<or> upper = ''RANDOMKEY'' then
                let (d, st, out) =
                      (if upper = ''KEYS'' then CmdKeys now idx argv (w_db w) (w_stats w) (w_out w)
                       else CmdRandomKey (draws e 0) now idx (w_db w) (w_stats w) (w_out w))
                in Some (Inr (w\<lparr>w_db := d, w_stats := st, w_out := out\<rparr>))
              else map_option (\<lambda>r. bind_result r (\<lambda>(d, out). Inr (w\<lparr>w_db := d, w_out := out\<rparr>)))
                     (DataCommand e upper idx argv (w_db w) (w_out w))))"

section \<open>Dispatch\<close>

text \<open>
  \<open>EXEC\<close> calls \<open>Dispatch\<close> for every queued command, so the recursion of the code is bounded by
  a depth here; a depth of two is enough in every state the dispatcher builds. \<open>envs\<close> gives an
  environment to each call: the one at path \<open>[]\<close> to the call itself, the one at \<open>i # p\<close> to
  the calls for the queued command \<open>i\<close>.
\<close>

definition MultiCommand :: "string \<Rightarrow> bool" where
  "MultiCommand upper \<longleftrightarrow>
     upper = ''MULTI'' \<or> upper = ''EXEC'' \<or> upper = ''DISCARD'' \<or> upper = ''QUIT''"

definition Enqueue :: "string \<Rightarrow> Args \<Rightarrow> world \<Rightarrow> world" where
  "Enqueue upper argv w =
     (let cs = w_cs w
      in if \<not> CommandExists upper
         then reply (\<lambda>out. ErrUnknownCommand out argv) (w\<lparr>w_cs := cs\<lparr>multi_error := True\<rparr>\<rparr>)
         else if \<not> ArityOk upper (length argv)
         then reply (\<lambda>out. ErrWrongArgs out (ToLower (argv ! 0))) (w\<lparr>w_cs := cs\<lparr>multi_error := True\<rparr>\<rparr>)
         else simple ''QUEUED'' (w\<lparr>w_cs := cs\<lparr>multi_queue := multi_queue cs @ [argv]\<rparr>\<rparr>))"

definition MemoryGate :: "string \<Rightarrow> world \<Rightarrow> bool" where
  "MemoryGate upper w \<longleftrightarrow>
     maxmemory (w_opts w) > 0 \<and> IsWriteCommand upper \<and> used (w_db w) > maxmemory (w_opts w) \<and>
     upper \<noteq> ''FLUSHDB'' \<and> upper \<noteq> ''FLUSHALL''"

definition CmdMulti :: "world \<Rightarrow> world" where
  "CmdMulti w =
     (if in_multi (w_cs w) then error_reply ''ERR MULTI calls can not be nested'' w
      else simple ''OK'' (w\<lparr>w_cs := (w_cs w)\<lparr>in_multi := True, multi_error := False, multi_queue := []\<rparr>\<rparr>))"

definition CmdDiscard :: "world \<Rightarrow> world" where
  "CmdDiscard w =
     (if \<not> in_multi (w_cs w) then error_reply ''ERR DISCARD without MULTI'' w
      else simple ''OK'' (w\<lparr>w_cs := (w_cs w)\<lparr>in_multi := False, multi_error := False, multi_queue := []\<rparr>\<rparr>))"

fun ExecLoop ::
  "((nat list \<Rightarrow> env) \<Rightarrow> Args \<Rightarrow> world \<Rightarrow> world result) \<Rightarrow> (nat list \<Rightarrow> env) \<Rightarrow> nat \<Rightarrow>
   Args list \<Rightarrow> world \<Rightarrow> world result" where
  "ExecLoop run envs i [] w = Inr w"
| "ExecLoop run envs i (argv # queue) w =
     bind_result (run (\<lambda>p. envs (i # p)) argv w) (ExecLoop run envs (Suc i) queue)"

definition CmdExec ::
  "((nat list \<Rightarrow> env) \<Rightarrow> Args \<Rightarrow> world \<Rightarrow> world result) \<Rightarrow> (nat list \<Rightarrow> env) \<Rightarrow> world \<Rightarrow> world result" where
  "CmdExec run envs w =
     (let cs = w_cs w
      in if \<not> in_multi cs then Inr (error_reply ''ERR EXEC without MULTI'' w)
         else if multi_error cs
         then Inr (error_reply ''EXECABORT Transaction discarded because of previous errors.''
                (w\<lparr>w_cs := cs\<lparr>in_multi := False, multi_queue := []\<rparr>\<rparr>))
         else let queue = multi_queue cs
              in ExecLoop run envs 0 queue
                   (reply (\<lambda>out. AppendArrayReply out (int (length queue)))
                     (w\<lparr>w_cs := cs\<lparr>in_multi := False, multi_queue := []\<rparr>\<rparr>)))"

text \<open>One call, with the recursive call as an argument.\<close>

definition DispatchStep ::
  "((nat list \<Rightarrow> env) \<Rightarrow> Args \<Rightarrow> world \<Rightarrow> world result) \<Rightarrow>
   (nat list \<Rightarrow> env) \<Rightarrow> Args \<Rightarrow> world \<Rightarrow> world result" where
  "DispatchStep run envs argv w =
     (if argv = [] then Inr w
      else let upper = ToUpper (argv ! 0)
           in if in_multi (w_cs w) \<and> \<not> MultiCommand upper then Inr (Enqueue upper argv w)
              else if \<not> CommandExists upper then Inr (reply (\<lambda>out. ErrUnknownCommand out argv) w)
              else if \<not> ArityOk upper (length argv)
              then Inr (reply (\<lambda>out. ErrWrongArgs out (ToLower (argv ! 0))) w)
              else if MemoryGate upper w
              then Inr (error_reply (''OOM command not allowed when used memory > '' @ quote @
                          ''maxmemory'' @ quote @ ''.'') w)
              else case RunCommand (envs []) upper argv w of
                     Some r \<Rightarrow> r
                   | None \<Rightarrow>
                       if upper = ''MULTI'' then Inr (CmdMulti w)
                       else if upper = ''EXEC'' then CmdExec run envs w
                       else if upper = ''DISCARD'' then Inr (CmdDiscard w)
                       else Inr (reply (\<lambda>out. ErrUnknownCommand out argv) w))"

primrec Dispatch ::
  "nat \<Rightarrow> (nat list \<Rightarrow> env) \<Rightarrow> Args \<Rightarrow> world \<Rightarrow> world result" where
  "Dispatch 0 = (\<lambda>envs argv w. Inl Diverges)"
| "Dispatch (Suc n) = DispatchStep (Dispatch n)"

end
