(* ===== verification/Server.thy ===== *)
theory Server
  imports Dispatch
begin

text \<open>
  The event loop: \<open>src/server.cpp\<close> with \<open>include/server.h\<close>. The state is the record of the class
  \<open>Server\<close>, with the disk and the running children of \<open>BGSAVE\<close>, and the bytes written to every
  socket so far. What the kernel answers is an argument: each handler takes the list of the
  answers to its calls of \<open>accept\<close>, \<open>read\<close> or \<open>write\<close>; past the end of the list the call would
  block (\<open>EAGAIN\<close>).

  A connection object is known by the id of its client, which is never used twice. A reference
  to a connection that was closed is dangling, and using it is the fault \<open>UseAfterFree\<close>.
\<close>

section \<open>Connections and the server\<close>

record Connection =
  conn_fd :: int
  conn_out :: string
  conn_parser :: request_parser
  conn_state :: ClientState
  want_write :: bool

record Server =
  srv_opts :: ServerOptions
  srv_stats :: ServerStats
  srv_db :: Database
  srv_quit :: bool
  next_client_id :: nat
  srv_conns :: "(int \<times> Connection) list"
  srv_disk :: disk
  srv_children :: "(string \<times> string) list"
  sent :: "nat \<Rightarrow> string"

definition new_server :: "ServerOptions \<Rightarrow> disk \<Rightarrow> Server" where
  "new_server opts dk = \<lparr>srv_opts = opts, srv_stats = new_stats, srv_db = new_database, srv_quit = False,
     next_client_id = 1, srv_conns = [], srv_disk = dk, srv_children = [], sent = (\<lambda>_. [])\<rparr>"

abbreviation conn_id :: "Connection \<Rightarrow> nat" where
  "conn_id c \<equiv> client_id (conn_state c)"

text \<open>The object behind a reference, if it is still there.\<close>

definition deref :: "nat \<Rightarrow> Server \<Rightarrow> Connection option" where
  "deref c s = find (\<lambda>conn. conn_id conn = c) (map snd (srv_conns s))"

definition assign :: "Connection \<Rightarrow> Server \<Rightarrow> Server" where
  "assign conn s = s\<lparr>srv_conns := map (\<lambda>(fd, x). (fd, if conn_id x = conn_id conn then conn else x)) (srv_conns s)\<rparr>"

section \<open>Closing and accepting\<close>

definition RequestShutdown :: "bool \<Rightarrow> Server \<Rightarrow> Server" where
  "RequestShutdown save s =
     s\<lparr>srv_stats := (srv_stats s)\<lparr>shutdown_nosave := \<not> save, shutdown_requested := True\<rparr>, srv_quit := True\<rparr>"

definition EnableWrite :: "bool \<Rightarrow> Connection \<Rightarrow> Connection" where
  "EnableWrite enable c =
     (if enable \<and> \<not> want_write c then c\<lparr>want_write := True\<rparr>
      else if \<not> enable \<and> want_write c then c\<lparr>want_write := False\<rparr>
      else c)"

definition erase_conn :: "int \<Rightarrow> Server \<Rightarrow> Server" where
  "erase_conn fd s =
     s\<lparr>srv_conns := AList.delete fd (srv_conns s),
       srv_stats := (if connected_clients (srv_stats s) > 0
                  then (srv_stats s)\<lparr>connected_clients := connected_clients (srv_stats s) - 1\<rparr> else srv_stats s)\<rparr>"

definition CloseConn :: "nat \<Rightarrow> Server \<Rightarrow> Server result" where
  "CloseConn c s =
     (case deref c s of
        None \<Rightarrow> Inl UseAfterFree
      | Some conn \<Rightarrow>
          (case map_of (srv_conns s) (conn_fd conn) of
             None \<Rightarrow> Inr s
           | Some _ \<Rightarrow> Inr (erase_conn (conn_fd conn) s)))"

text \<open>The loop of \<open>CloseAll\<close>, at most as many turns as there are connections.\<close>

fun CloseLoop :: "nat \<Rightarrow> Server \<Rightarrow> Server result" where
  "CloseLoop 0 s = (if srv_conns s = [] then Inr s else Inl Diverges)"
| "CloseLoop (Suc n) s =
     (case srv_conns s of
        [] \<Rightarrow> Inr s
      | (fd, conn) # _ \<Rightarrow> bind_result (CloseConn (conn_id conn) s) (CloseLoop n))"

definition CloseAll :: "Server \<Rightarrow> Server result" where
  "CloseAll s = CloseLoop (length (srv_conns s)) s"

datatype accept_result = Accepted int | AcceptIntr | AcceptFail

definition new_connection :: "int \<Rightarrow> nat \<Rightarrow> Connection" where
  "new_connection fd i = \<lparr>conn_fd = fd, conn_out = [], conn_parser = fresh_parser,
     conn_state = new_client\<lparr>client_id := i\<rparr>, want_write = False\<rparr>"

definition accept_conn :: "int \<Rightarrow> Server \<Rightarrow> Server" where
  "accept_conn fd s =
     s\<lparr>srv_stats := (srv_stats s)\<lparr>total_connections := total_connections (srv_stats s) + 1,
                            connected_clients := connected_clients (srv_stats s) + 1\<rparr>,
       srv_conns := AList.update fd (new_connection fd (next_client_id s)) (srv_conns s),
       next_client_id := next_client_id s + 1\<rparr>"

fun OnAccept :: "accept_result list \<Rightarrow> Server \<Rightarrow> Server" where
  "OnAccept [] s = s"
| "OnAccept (Accepted fd # rest) s = OnAccept rest (accept_conn fd s)"
| "OnAccept (AcceptIntr # rest) s = OnAccept rest s"
| "OnAccept (AcceptFail # rest) s = s"

section \<open>Writing\<close>

datatype write_result = Wrote nat | WriteIntr | WriteFail

definition transmit :: "nat \<Rightarrow> Connection \<Rightarrow> Server \<Rightarrow> Server" where
  "transmit n conn s =
     (assign (conn\<lparr>conn_out := drop n (conn_out conn)\<rparr>) s)
       \<lparr>sent := (sent s)(conn_id conn := sent s (conn_id conn) @ take n (conn_out conn))\<rparr>"

fun OnWritable :: "write_result list \<Rightarrow> nat \<Rightarrow> Server \<Rightarrow> Server result" where
  "OnWritable ws c s =
     (case deref c s of
        None \<Rightarrow> Inl UseAfterFree
      | Some conn \<Rightarrow>
          if conn_out conn = [] then Inr (assign (EnableWrite False conn) s)
          else (case ws of
                  [] \<Rightarrow> Inr (assign (EnableWrite True conn) s)
                | Wrote n # ws' \<Rightarrow>
                    if n > 0 then OnWritable ws' c (transmit n conn s) else CloseConn c s
                | WriteIntr # ws' \<Rightarrow> OnWritable ws' c s
                | WriteFail # ws' \<Rightarrow> CloseConn c s))"

declare OnWritable.simps [simp del]

section \<open>Reading and running commands\<close>

text \<open>The arguments of \<open>Dispatch\<close>: what it takes by reference, of the server and one client.\<close>

definition to_world :: "Connection \<Rightarrow> Server \<Rightarrow> world" where
  "to_world conn s = \<lparr>w_db = srv_db s, w_cs = conn_state conn, w_opts = srv_opts s, w_stats = srv_stats s,
     w_disk = srv_disk s, w_children = srv_children s, w_out = conn_out conn\<rparr>"

definition of_world :: "Connection \<Rightarrow> world \<Rightarrow> Server \<Rightarrow> Server" where
  "of_world conn w s =
     assign (conn\<lparr>conn_state := w_cs w, conn_out := w_out w\<rparr>)
       (s\<lparr>srv_db := w_db w, srv_opts := w_opts w, srv_stats := w_stats w, srv_disk := w_disk w,
          srv_children := w_children w\<rparr>)"

definition RunOne :: "(nat list \<Rightarrow> env) \<Rightarrow> Args \<Rightarrow> nat \<Rightarrow> Server \<Rightarrow> Server result" where
  "RunOne envs argv c s =
     (case deref c s of
        None \<Rightarrow> Inl UseAfterFree
      | Some conn \<Rightarrow>
          let s1 = s\<lparr>srv_stats := (srv_stats s)\<lparr>total_commands := total_commands (srv_stats s) + 1\<rparr>\<rparr>
          in bind_result (Dispatch 2 envs argv (to_world conn s1)) (\<lambda>w. Inr (of_world conn w s1)))"

definition wants_quit :: "nat \<Rightarrow> Server \<Rightarrow> bool" where
  "wants_quit c s \<longleftrightarrow> (case deref c s of None \<Rightarrow> False | Some conn \<Rightarrow> quit_requested (conn_state conn))"

fun RunCommands :: "(nat \<Rightarrow> nat list \<Rightarrow> env) \<Rightarrow> nat \<Rightarrow> Args list \<Rightarrow> nat \<Rightarrow> Server \<Rightarrow> Server result" where
  "RunCommands envs i [] c s = Inr s"
| "RunCommands envs i (argv # cmds) c s =
     (if argv = [] then RunCommands envs (Suc i) cmds c s
      else bind_result (RunOne (envs i) argv c s)
             (\<lambda>s1. if wants_quit c s1 \<or> shutdown_requested (srv_stats s1) then Inr s1
                   else RunCommands envs (Suc i) cmds c s1))"

text \<open>\<open>OnWritable(c); CloseConn(c);\<close> after a protocol error.\<close>

definition FailConn :: "write_result list \<Rightarrow> nat \<Rightarrow> Server \<Rightarrow> Server result" where
  "FailConn ws c s =
     (case deref c s of
        None \<Rightarrow> Inl UseAfterFree
      | Some conn \<Rightarrow>
          bind_result (OnWritable ws c
                 (assign (conn\<lparr>conn_out := AppendErrorReply (conn_out conn) (parser_error (conn_parser conn))\<rparr>) s))
            (CloseConn c))"

text \<open>What \<open>OnReadable\<close> and \<open>ProcessBuffered\<close> do after the commands have run.\<close>

definition QuitConn :: "write_result list \<Rightarrow> nat \<Rightarrow> Server \<Rightarrow> Server result" where
  "QuitConn ws c s =
     bind_result (OnWritable ws c s)
       (\<lambda>s1. case deref c s1 of
               None \<Rightarrow> Inl UseAfterFree
             | Some conn \<Rightarrow> if want_write conn then Inr s1 else CloseConn c s1)"

definition FlushConn :: "write_result list \<Rightarrow> nat \<Rightarrow> Server \<Rightarrow> Server result" where
  "FlushConn ws c s =
     (case deref c s of
        None \<Rightarrow> Inl UseAfterFree
      | Some conn \<Rightarrow> if conn_out conn = [] then Inr s else OnWritable ws c s)"

definition ProcessBuffered ::
  "(nat \<Rightarrow> nat list \<Rightarrow> env) \<Rightarrow> write_result list \<Rightarrow> nat \<Rightarrow> Server \<Rightarrow> Server result" where
  "ProcessBuffered envs ws c s =
     (case deref c s of
        None \<Rightarrow> Inl UseAfterFree
      | Some conn \<Rightarrow>
          let (p, cmds) = ParseBuffered (conn_parser conn)
          in bind_result (RunCommands envs 0 cmds c (assign (conn\<lparr>conn_parser := p\<rparr>) s))
               (\<lambda>s1. if shutdown_requested (srv_stats s1) then Inr (s1\<lparr>srv_quit := True\<rparr>)
                     else if wants_quit c s1 then QuitConn ws c s1
                     else if has_error p then FailConn ws c s1
                     else FlushConn ws c s1))"

text \<open>The answers of \<open>read\<close>: bytes, of which none means that the peer has closed.\<close>

datatype read_result = ReadBytes string | ReadIntr | ReadFail

definition kReadSize :: nat where
  "kReadSize = 65536"

text \<open>The read loop ends with the commands parsed, or with a connection that was closed or
  that must be closed for a protocol error.\<close>

datatype read_end = Drained "Args list" | PeerClosed | ReadError | BadRequest

fun ReadLoop :: "read_result list \<Rightarrow> request_parser \<Rightarrow> Args list \<Rightarrow> request_parser \<times> read_end" where
  "ReadLoop [] p cmds = (p, Drained cmds)"
| "ReadLoop (ReadBytes data # rs) p cmds =
     (if data = [] then (p, PeerClosed)
      else let (p1, new) = Feed p data
           in if has_error p1 then (p1, BadRequest)
              else if length data < kReadSize then (p1, Drained (cmds @ new))
              else ReadLoop rs p1 (cmds @ new))"
| "ReadLoop (ReadIntr # rs) p cmds = ReadLoop rs p cmds"
| "ReadLoop (ReadFail # rs) p cmds = (p, ReadError)"

definition OnReadable ::
  "(nat \<Rightarrow> nat list \<Rightarrow> env) \<Rightarrow> read_result list \<Rightarrow> write_result list \<Rightarrow> nat \<Rightarrow> Server \<Rightarrow> Server result" where
  "OnReadable envs rs ws c s =
     (case deref c s of
        None \<Rightarrow> Inl UseAfterFree
      | Some conn \<Rightarrow>
          let (p, fin) = ReadLoop rs (conn_parser conn) []; s0 = assign (conn\<lparr>conn_parser := p\<rparr>) s
          in case fin of
               BadRequest \<Rightarrow> FailConn ws c s0
             | PeerClosed \<Rightarrow> CloseConn c s0
             | ReadError \<Rightarrow> CloseConn c s0
             | Drained cmds \<Rightarrow>
                 bind_result (RunCommands envs 0 cmds c s0)
                   (\<lambda>s1. if shutdown_requested (srv_stats s1) then Inr (s1\<lparr>srv_quit := True\<rparr>)
                         else if wants_quit c s1 then QuitConn ws c s1
                         else FlushConn ws c s1))"

section \<open>The event loop\<close>

definition PeriodicTasks :: "int \<Rightarrow> (nat \<Rightarrow> nat) \<Rightarrow> Server \<Rightarrow> Server" where
  "PeriodicTasks now rng s =
     (let (d, expired) = ActiveExpireCycle now rng (srv_db s)
      in s\<lparr>srv_db := d, srv_stats := (srv_stats s)\<lparr>expired_keys := expired_keys (srv_stats s) + expired\<rparr>\<rparr>)"

text \<open>An event with what the kernel will answer to its handler.\<close>

datatype event =
    SignalEvent
  | ListenEvent "accept_result list"
  | NullEvent
  | ReadEvent nat "nat \<Rightarrow> nat list \<Rightarrow> env" "read_result list" "write_result list"
  | WriteEvent nat "write_result list"

text \<open>\<open>conns_.find(c->fd)\<close> reads the connection before it is looked up.\<close>

definition lookup_conn :: "nat \<Rightarrow> (Server \<Rightarrow> Server result) \<Rightarrow> Server \<Rightarrow> Server result" where
  "lookup_conn c run s =
     (case deref c s of
        None \<Rightarrow> Inl UseAfterFree
      | Some conn \<Rightarrow> if map_of (srv_conns s) (conn_fd conn) = None then Inr s else run s)"

primrec HandleEvent :: "event \<Rightarrow> Server \<Rightarrow> Server result" where
  "HandleEvent SignalEvent s = Inr (RequestShutdown True s)"
| "HandleEvent (ListenEvent acs) s = Inr (OnAccept acs s)"
| "HandleEvent NullEvent s = Inr s"
| "HandleEvent (ReadEvent c envs rs ws) s = lookup_conn c (OnReadable envs rs ws c) s"
| "HandleEvent (WriteEvent c ws) s = lookup_conn c (OnWritable ws c) s"

fun HandleEvents :: "event list \<Rightarrow> Server \<Rightarrow> Server result" where
  "HandleEvents [] s = Inr s"
| "HandleEvents (ev # evs) s = bind_result (HandleEvent ev s) (HandleEvents evs)"

text \<open>A return of \<open>kevent\<close>: the events, with the clock and the generator of the periodic tasks,
  an interruption or a failure. Children of \<open>BGSAVE\<close> may end while the server waits.\<close>

datatype poll = Poll "event list" int "nat \<Rightarrow> nat" | PollIntr | PollFail | ChildExit nat io_faults

definition child_exit :: "nat \<Rightarrow> io_faults \<Rightarrow> Server \<Rightarrow> Server" where
  "child_exit i flt s =
     (if i < length (srv_children s)
      then s\<lparr>srv_disk := BgSaveChild flt (srv_children s ! i) (srv_disk s),
             srv_children := take i (srv_children s) @ drop (Suc i) (srv_children s)\<rparr>
      else s)"

text \<open>The loop of \<open>Run\<close>. The flag tells whether it has ended; otherwise it waits for the kernel.\<close>

fun RunLoop :: "poll list \<Rightarrow> Server \<Rightarrow> (Server \<times> bool) result" where
  "RunLoop ps s =
     (if srv_quit s then Inr (s, True)
      else case ps of
             [] \<Rightarrow> Inr (s, False)
           | PollIntr # ps' \<Rightarrow> RunLoop ps' s
           | PollFail # ps' \<Rightarrow> Inr (s, True)
           | ChildExit i flt # ps' \<Rightarrow> RunLoop ps' (child_exit i flt s)
           | Poll evs now rng # ps' \<Rightarrow>
               bind_result (HandleEvents evs s) (\<lambda>s1. RunLoop ps' (PeriodicTasks now rng s1)))"

declare RunLoop.simps [simp del]

text \<open>The shutdown after the loop.\<close>

definition Finish :: "io_faults \<Rightarrow> int \<Rightarrow> Server \<Rightarrow> Server result" where
  "Finish flt now s =
     CloseAll (if shutdown_nosave (srv_stats s) then s
               else s\<lparr>srv_disk := fst (SaveToFile flt now (dump_path (srv_opts s)) (srv_db s) (srv_disk s))\<rparr>)"

definition Run :: "poll list \<Rightarrow> io_faults \<Rightarrow> int \<Rightarrow> Server \<Rightarrow> (Server \<times> bool) result" where
  "Run ps flt now s =
     bind_result (RunLoop ps s)
       (\<lambda>(s1, ended). if ended then bind_result (Finish flt now s1) (\<lambda>s2. Inr (s2, True)) else Inr (s1, False))"

end
