(* ===== verification/DispatchSpec.thy ===== *)
theory DispatchSpec
  imports Dispatch
begin

text \<open>
  The dispatcher keeps the server well-formed and answers every command with one reply. The
  groups of data commands meet one contract, stated as a locale and proved for each group;
  the choice between groups meets it again.
\<close>

section \<open>Names and arities\<close>

lemma upper_char_eol [simp]:
  "upper_char c = CHR 0x0D \<longleftrightarrow> c = CHR 0x0D" "upper_char c = CHR 0x0A \<longleftrightarrow> c = CHR 0x0A"
  by (auto simp: upper_char_def dest: arg_cong [of _ _ "of_char :: char \<Rightarrow> nat"])

lemma one_line_ToUpper [simp]: "one_line (ToUpper s) \<longleftrightarrow> one_line s"
  by (induction s) (simp_all add: ToUpper_def)

lemma table_names: "list_all (\<lambda>row. one_line (fst row)) ArityTable"
  unfolding ArityTable_def by simp

lemma known_one_line: "ArityOk (ToUpper s) n \<Longrightarrow> one_line s"
  using table_names by (fastforce simp: ArityOk_def list_all_iff split: option.splits dest!: map_of_SomeD)

definition short_names :: "string list" where
  "short_names = [''PING'', ''QUIT'', ''HELLO'', ''COMMAND'', ''INFO'', ''DBSIZE'', ''FLUSHDB'',
     ''FLUSHALL'', ''SAVE'', ''BGSAVE'', ''LASTSAVE'', ''BGREWRITEAOF'', ''TIME'', ''ROLE'',
     ''SHUTDOWN'', ''RANDOMKEY'', ''MULTI'', ''EXEC'', ''DISCARD'']"

lemma table_min2: "list_all (\<lambda>(u, mn, mx). u \<in> set short_names \<or> 2 \<le> mn) ArityTable"
  unfolding ArityTable_def short_names_def by simp

definition two_key_names :: "string list" where
  "two_key_names = [''RENAME'', ''LMOVE'', ''RPOPLPUSH'', ''SMOVE'']"

lemma table_min3: "list_all (\<lambda>(u, mn, mx). u \<notin> set two_key_names \<or> 3 \<le> mn) ArityTable"
  unfolding ArityTable_def two_key_names_def by simp

lemma ArityOk_min2: "ArityOk u n \<Longrightarrow> u \<notin> set short_names \<Longrightarrow> 2 \<le> n"
  using table_min2 by (fastforce simp: ArityOk_def list_all_iff split: option.splits if_splits dest!: map_of_SomeD)

lemma ArityOk_min3: "ArityOk u n \<Longrightarrow> u \<in> set two_key_names \<Longrightarrow> 3 \<le> n"
  using table_min3 by (fastforce simp: ArityOk_def list_all_iff split: option.splits if_splits dest!: map_of_SomeD)

lemma table_min1: "list_all (\<lambda>(u, mn, mx). 1 \<le> mn) ArityTable"
  unfolding ArityTable_def by simp

lemma ArityOk_min1: "ArityOk u n \<Longrightarrow> 1 \<le> n"
  using table_min1 by (fastforce simp: ArityOk_def list_all_iff split: option.splits if_splits dest!: map_of_SomeD)

section \<open>The groups of data commands\<close>

text \<open>
  The keys a command may change, by the table of write commands of the code: none for a read,
  every argument for the commands on many keys, the first two for a move, the first otherwise.
\<close>

definition touched :: "string \<Rightarrow> Args \<Rightarrow> string set" where
  "touched upper argv =
     (if \<not> IsWriteCommand upper then {}
      else if upper \<in> {''MSET'', ''MSETNX'', ''DEL'', ''UNLINK''} then set (drop 1 argv)
      else if upper \<in> set two_key_names then {argv ! 1, argv ! 2}
      else {argv ! 1})"

text \<open>A chain of tests on the name of a command, taken apart test by test.\<close>

definition each :: "('a \<Rightarrow> bool) \<Rightarrow> 'a option \<Rightarrow> bool" where
  "each P x \<longleftrightarrow> (\<forall>r. x = Some r \<longrightarrow> P r)"

lemma each_if: "(c \<Longrightarrow> P r) \<Longrightarrow> each P rest \<Longrightarrow> each P (if c then Some r else rest)"
  by (simp add: each_def)

lemma each_None: "each P None"
  by (simp add: each_def)

lemma each_orelse: "each P x \<Longrightarrow> each P y \<Longrightarrow> each P (case x of Some r \<Rightarrow> Some r | None \<Rightarrow> y)"
  by (simp add: each_def split: option.split)

lemmas each_rules = each_if each_None

locale command_group =
  fixes run :: "env \<Rightarrow> string \<Rightarrow> nat \<Rightarrow> Args \<Rightarrow> Database \<Rightarrow> string \<Rightarrow> (Database \<times> string) result option"
  assumes contract:
    "db_good d \<Longrightarrow> i < kNumDatabases \<Longrightarrow> ArityOk upper (length argv) \<Longrightarrow> upper = ToUpper (argv ! 0) \<Longrightarrow>
     each (result_ok (NowMs e) i (touched upper argv) d out) (run e upper i argv d out)"

lemmas touched_simps = touched_def IsWriteCommand_def writes_def two_key_names_def

lemma command_groupI:
  assumes "\<And>d i upper argv e out. (\<And>now K. evolves now i K d d) \<Longrightarrow> one_line (argv ! 0) \<Longrightarrow> argv \<noteq> [] \<Longrightarrow>
    (upper \<notin> set short_names \<Longrightarrow> 2 \<le> length argv) \<Longrightarrow>
    each (result_ok (NowMs e) i (touched upper argv) d out) (run e upper i argv d out)"
  shows "command_group run"
proof
  fix d :: Database and i upper e out and argv :: Args
  assume a: "db_good d" "i < kNumDatabases" "ArityOk upper (length argv)" "upper = ToUpper (argv ! 0)"
  show "each (result_ok (NowMs e) i (touched upper argv) d out) (run e upper i argv d out)"
  proof (rule assms)
    show "evolves now i K d d" for now K using a(1,2) by (rule evolves_refl)
    show "one_line (argv ! 0)" using a(3,4) known_one_line by simp
    show "argv \<noteq> []" using ArityOk_min1 [OF a(3)] by auto
    show "upper \<notin> set short_names \<Longrightarrow> 2 \<le> length argv" by (rule ArityOk_min2 [OF a(3)])
  qed
qed

interpretation strings: command_group StringCommand
  by (rule command_groupI, unfold StringCommand_def Let_def, intro each_rules; (elim disjE)?;
      simp add: touched_simps string_ok)

interpretation keys: command_group KeyCommand
  by (rule command_groupI, unfold KeyCommand_def Let_def, intro each_rules; (elim disjE)?;
      simp add: touched_simps key_ok)

interpretation hashes: command_group HashCommand
  by (rule command_groupI, unfold HashCommand_def Let_def, intro each_rules; (elim disjE)?;
      simp add: touched_simps hash_ok short_names_def)

interpretation lists: command_group ListCommand
  by (rule command_groupI, unfold ListCommand_def Let_def, intro each_rules; (elim disjE)?;
      simp add: touched_simps list_ok)

interpretation sets: command_group SetCommand
  by (rule command_groupI, unfold SetCommand_def Let_def, intro each_rules; (elim disjE)?;
      simp add: touched_simps set_ok)

interpretation zsets: command_group ZSetCommand
  by (rule command_groupI, unfold ZSetCommand_def Let_def, intro each_rules; (elim disjE)?;
      simp add: touched_simps zset_contract)

text \<open>The choice between groups meets the contract of a group.\<close>

interpretation data: command_group DataCommand
  by (standard, unfold DataCommand_def, intro each_orelse strings.contract keys.contract hashes.contract
      lists.contract sets.contract zsets.contract)

section \<open>The server as a whole\<close>

text \<open>
  The state between two commands: a well-formed database, a selected database that exists, and
  a queue that is empty outside a transaction and otherwise holds known commands with
  admissible arities, none of which starts or ends a transaction.
\<close>

definition queue_ok :: "Args list \<Rightarrow> bool" where
  "queue_ok q \<longleftrightarrow> list_all (\<lambda>argv. ArityOk (ToUpper (argv ! 0)) (length argv) \<and>
     \<not> MultiCommand (ToUpper (argv ! 0))) q"

definition world_ok :: "world \<Rightarrow> bool" where
  "world_ok w \<longleftrightarrow> db_good (w_db w) \<and> db_index (w_cs w) < kNumDatabases \<and>
     num_databases (w_opts w) \<le> int kNumDatabases \<and> queue_ok (multi_queue (w_cs w)) \<and>
     (in_multi (w_cs w) \<or> multi_queue (w_cs w) = [])"

text \<open>Where the live view of database \<open>j\<close> at key \<open>k\<close> may change.\<close>

definition may_change :: "string \<Rightarrow> Args \<Rightarrow> nat \<Rightarrow> nat \<Rightarrow> string \<Rightarrow> bool" where
  "may_change upper argv i j k \<longleftrightarrow> upper = ''FLUSHALL'' \<or> upper = ''FLUSHDB'' \<and> j = i \<or>
     j = i \<and> k \<in> touched upper argv"

text \<open>What the reply to a command echoes of its arguments and of the configuration is a line.\<close>

definition lines_ok :: "env \<Rightarrow> Args \<Rightarrow> world \<Rightarrow> bool" where
  "lines_ok e argv w \<longleftrightarrow> (\<forall>a\<in>set argv. one_line a) \<and> one_line (errno_text e) \<and>
     one_line (dir (w_opts w)) \<and> one_line (dbfilename (w_opts w))"

definition runs :: "env \<Rightarrow> string \<Rightarrow> Args \<Rightarrow> world \<Rightarrow> world \<Rightarrow> bool" where
  "runs e upper argv w w' \<longleftrightarrow> db_good (w_db w') \<and> db_index (w_cs w') < kNumDatabases \<and>
     w_opts w' = w_opts w \<and> in_multi (w_cs w') = in_multi (w_cs w) \<and>
     multi_queue (w_cs w') = multi_queue (w_cs w) \<and>
     (\<forall>n j k. NowMs e \<le> n \<longrightarrow> may_change upper argv (db_index (w_cs w)) j k \<or>
        live n (w_db w') j k = live n (w_db w) j k) \<and>
     (lines_ok e argv w \<and> upper \<noteq> ''SHUTDOWN'' \<longrightarrow> answers (w_out w) (w_out w'))"

lemma reply_sel [simp]:
  "w_db (reply f w) = w_db w" "w_cs (reply f w) = w_cs w" "w_opts (reply f w) = w_opts w"
  "w_stats (reply f w) = w_stats w" "w_disk (reply f w) = w_disk w"
  "w_children (reply f w) = w_children w" "w_out (reply f w) = f (w_out w)"
  by (simp_all add: reply_def)

lemma runs_reply:
  "world_ok w \<Longrightarrow> (lines_ok e argv w \<Longrightarrow> upper \<noteq> ''SHUTDOWN'' \<Longrightarrow> answers (w_out w) (f (w_out w))) \<Longrightarrow>
   runs e upper argv w (reply f w)"
  by (simp add: runs_def world_ok_def)

lemma answers_list:
  "n = int (length xs) \<Longrightarrow> answers out (foldl AppendBulkReply (AppendArrayReply out n) xs)"
  by (rule foldl_answers [where g = RBulk]) (simp_all add: AppendBulkReply_def)

lemma runs_simple:
  assumes "world_ok w"
  shows "runs e upper argv w (CmdPing argv w)" and "runs e upper argv w (CmdHello argv w)"
    and "runs e upper argv w (CmdTime e w)" and "runs e upper argv w (CmdInfo e argv w)"
    and "runs e upper argv w (bulk s w)" and "runs e upper argv w (int_reply z w)"
    and "one_line s \<Longrightarrow> runs e upper argv w (error_reply s w)"
    and "one_line s \<Longrightarrow> runs e upper argv w (simple s w)"
    and "runs e upper argv w (reply AppendEmptyArrayReply w)"
    and "runs e upper argv w (reply (\<lambda>out. AppendArrayReply (AppendIntReply
             (AppendBulkReply (AppendArrayReply out 3) ''master'') 0) 0) w)"
proof -
  have "answers (w_out w) (AppendArrayReply (AppendIntReply
             (AppendBulkReply (AppendArrayReply (w_out w) 3) ''master'') 0) 0)"
    by (rule answers_array [of _ _ "[RBulk ''master'', RInt 0, RArray []]"]) (simp_all add: append_defs)
  then show "runs e upper argv w (reply (\<lambda>out. AppendArrayReply (AppendIntReply
             (AppendBulkReply (AppendArrayReply out 3) ''master'') 0) 0) w)"
    by (rule runs_reply [OF assms])
  have "answers (w_out w) (foldl AppendBulkReply (AppendArrayReply (w_out w) 2)
      [int_str (now_us e sdiv 1000000), int_str (now_us e smod 1000000)])"
    by (rule answers_list) simp
  then show "runs e upper argv w (CmdTime e w)"
    unfolding CmdTime_def by (intro runs_reply [OF assms]) simp
  show "runs e upper argv w (CmdHello argv w)"
    unfolding CmdHello_def by (auto intro!: runs_reply [OF assms] answers_list simp del: foldl.simps)
qed (auto simp: CmdPing_def CmdInfo_def Let_def intro!: runs_reply [OF assms])

text \<open>Commands that change the database as a whole, or only what is not part of it.\<close>

lemma runs_flush:
  assumes "world_ok w"
  shows "runs e ''FLUSHDB'' argv w (simple ''OK'' (w\<lparr>w_db := FlushDb (db_index (w_cs w)) (w_db w)\<rparr>))"
    and "runs e ''FLUSHALL'' argv w (simple ''OK'' (w\<lparr>w_db := FlushAll (w_db w)\<rparr>))"
proof -
  let ?i = "db_index (w_cs w)" and ?d = "w_db w"
  have g: "db_good ?d" "?i < kNumDatabases" using assms by (simp_all add: world_ok_def)
  have f: "db_good (FlushDb ?i ?d)"
    by (rule db_good_set_table [OF g(1) FlushDb_dbs]) (simp_all add: table_ok_def entries_ok_def)
  have a: "db_good (FlushAll ?d)"
    using g(1) by (simp add: db_good_def db_shape_def FlushAll_dbs list_all_iff table_ok_def entries_ok_def)
  show "runs e ''FLUSHDB'' argv w (simple ''OK'' (w\<lparr>w_db := FlushDb ?i ?d\<rparr>))"
    using f g FlushDb_live(1) [of ?d ?i] by (simp add: runs_def may_change_def)
  show "runs e ''FLUSHALL'' argv w (simple ''OK'' (w\<lparr>w_db := FlushAll ?d\<rparr>))"
    using a g by (simp add: runs_def may_change_def)
qed

lemma runs_same_db:
  assumes "world_ok w" and "dbs (w_db w') = dbs (w_db w)" and "db_index (w_cs w') < kNumDatabases"
    and "w_opts w' = w_opts w" and "in_multi (w_cs w') = in_multi (w_cs w)"
    and "multi_queue (w_cs w') = multi_queue (w_cs w)"
    and "lines_ok e argv w \<Longrightarrow> upper \<noteq> ''SHUTDOWN'' \<Longrightarrow> answers (w_out w) (w_out w')"
  shows "runs e upper argv w w'"
  using assms live_cong [OF assms(2)] by (simp add: runs_def world_ok_def db_good_def db_shape_def)

lemma runs_save:
  assumes "world_ok w"
  shows "runs e upper argv w (CmdSave e w)" and "runs e upper argv w (CmdBgSave e w)"
proof -
  have ol: "one_line (save_error_text (dump_path (w_opts w)) (errno_text e) err)" if "lines_ok e argv w" for err
    using that by (cases err) (simp_all add: tmp_path_def lines_ok_def dump_path_def)
  show "runs e upper argv w (CmdSave e w)"
    using assms unfolding CmdSave_def Let_def case_prod_beta
    by (intro runs_same_db) (auto simp: world_ok_def ol split: sum.split)
  show "runs e upper argv w (CmdBgSave e w)"
    using assms unfolding CmdBgSave_def Let_def case_prod_beta
    by (intro runs_same_db) (auto simp: world_ok_def ol split: sum.split)
qed

lemma runs_select: "world_ok w \<Longrightarrow> runs e upper argv w (CmdSelect argv w)"
  unfolding CmdSelect_def
  by (rule runs_same_db) (auto simp: world_ok_def split: option.split)

lemma runs_shutdown: "world_ok w \<Longrightarrow> runs e ''SHUTDOWN'' argv w (CmdShutdown argv w)"
  unfolding CmdShutdown_def Let_def by (rule runs_same_db) (auto simp: world_ok_def)

lemma runs_memory:
  assumes "world_ok w"
  shows "runs e upper argv w (CmdMemory (NowMs e) argv w)"
proof (cases "Lookup (NowMs e) (db_index (w_cs w)) (argv ! 2) (w_db w)")
  case (Pair d1 x)
  have "evolves (NowMs e) (db_index (w_cs w)) {} (w_db w) (w_db w)"
    using assms by (intro evolves_refl) (simp_all add: world_ok_def)
  from evolves_Lookup [OF this, of "argv ! 2"] have "evolves (NowMs e) (db_index (w_cs w)) {} (w_db w) d1"
    using Pair by simp
  with Pair assms show ?thesis
    by (cases x) (auto simp: CmdMemory_def runs_def world_ok_def evolves_def)
qed

lemma runs_config:
  assumes "world_ok w" and "ArityOk upper (length argv)" and "upper = ToUpper (argv ! 0)"
    and "upper = ''CONFIG''" and "CmdConfig argv w = Inr w'"
  shows "runs e upper argv w w'"
proof -
  have "2 < length argv" using assms(2,4) by (simp add: ArityOk_def ArityTable_def split: if_splits)
  then have ol: "one_line (ToLower (argv ! 2))" if "lines_ok e argv w" using that by (simp add: lines_ok_def)
  show ?thesis
    using assms(1,5) ol
    by (auto simp: CmdConfig_def Let_def world_ok_def intro!: runs_same_db split: if_splits option.splits)
qed

lemma runs_client:
  assumes "world_ok w" and "ArityOk upper (length argv)" and "upper = ''CLIENT''" and "CmdClient argv w = Inr w'"
  shows "runs e upper argv w w'"
proof -
  have "1 < length argv" using assms(2,3) by (simp add: ArityOk_def ArityTable_def split: if_splits)
  then have ol: "one_line (ToLower (argv ! 1))" if "lines_ok e argv w" using that by (simp add: lines_ok_def)
  show ?thesis
    using assms(1,4) ol
    by (auto simp: CmdClient_def Let_def world_ok_def intro!: runs_same_db split: if_splits)
qed

lemma ServerCommand_runs:
  assumes "world_ok w" and "ArityOk upper (length argv)" and "upper = ToUpper (argv ! 0)"
  shows "each (\<lambda>r. \<forall>w'. r = Inr w' \<longrightarrow> runs e upper argv w w') (ServerCommand e upper argv w)"
  unfolding ServerCommand_def
proof (intro each_rules; (simp add: assms(1) runs_simple runs_flush runs_save runs_select runs_shutdown runs_memory; fail)?)
  show "\<forall>w'. (Inr (simple ''OK'' (w\<lparr>w_cs := (w_cs w)\<lparr>quit_requested := True\<rparr>\<rparr>)) :: world result) = Inr w' \<longrightarrow>
      runs e upper argv w w'"
    using assms(1) by (auto simp: world_ok_def intro!: runs_same_db)
  show "upper = ''CONFIG'' \<Longrightarrow> \<forall>w'. CmdConfig argv w = Inr w' \<longrightarrow> runs e upper argv w w'"
    using assms by (blast intro: runs_config)
  show "upper = ''CLIENT'' \<Longrightarrow> \<forall>w'. CmdClient argv w = Inr w' \<longrightarrow> runs e upper argv w w'"
    using assms by (blast intro: runs_client)
qed

lemma handler_runs:
  assumes "world_ok w" and "handler_ok (NowMs e) (db_index (w_cs w)) (touched upper argv) (w_db w) (w_out w) (d, out)"
  shows "runs e upper argv w (w\<lparr>w_db := d, w_out := out\<rparr>)"
    and "runs e upper argv w (w\<lparr>w_db := d, w_stats := st, w_out := out\<rparr>)"
  using assms by (auto simp: handler_ok_def evolves_def runs_def world_ok_def may_change_def)

lemma RunCommand_runs:
  assumes w: "world_ok w" and a: "ArityOk upper (length argv)" and u: "upper = ToUpper (argv ! 0)"
    and r: "RunCommand e upper argv w = Some (Inr w')"
  shows "runs e upper argv w w'"
proof (cases "ServerCommand e upper argv w")
  case (Some r')
  with ServerCommand_runs [OF w a u, of e] r show ?thesis by (simp add: each_def RunCommand_def)
next
  case None
  have g: "db_good (w_db w)" "db_index (w_cs w) < kNumDatabases" using w by (simp_all add: world_ok_def)
  let ?i = "db_index (w_cs w)"
  show ?thesis
  proof (cases "upper = ''KEYS'' \<or> upper = ''RANDOMKEY''")
    case True
    have ev: "evolves (NowMs e) ?i (touched upper argv) (w_db w) (w_db w)" using g by (rule evolves_refl)
    obtain d st out where x: "(if upper = ''KEYS'' then CmdKeys (NowMs e) ?i argv (w_db w) (w_stats w) (w_out w)
        else CmdRandomKey (draws e 0) (NowMs e) ?i (w_db w) (w_stats w) (w_out w)) = (d, st, out)"
      by (cases "upper = ''KEYS''") (metis prod_cases3)+
    then have "handler_ok (NowMs e) ?i (touched upper argv) (w_db w) (w_out w) (d, out)"
      using CmdKeys_ok [OF ev] CmdRandomKey_ok [OF ev] by (cases "upper = ''KEYS''") simp_all
    from handler_runs(2) [OF w this, of st] x r None True show ?thesis by (simp add: RunCommand_def Let_def)
  next
    case False
    then obtain res where res: "DataCommand e upper ?i argv (w_db w) (w_out w) = Some res"
      "bind_result res (\<lambda>(d, out). Inr (w\<lparr>w_db := d, w_out := out\<rparr>)) = Inr w'"
      using r None by (auto simp: RunCommand_def Let_def)
    then obtain d out where d: "res = Inr (d, out)" "w' = w\<lparr>w_db := d, w_out := out\<rparr>"
      by (auto simp: bind_result_Inr_iff)
    have "result_ok (NowMs e) ?i (touched upper argv) (w_db w) (w_out w) res"
      using data.contract [OF g a u, of e "w_out w"] res(1) by (simp add: each_def)
    with d handler_runs(1) [OF w] show ?thesis by simp
  qed
qed

end
