(* ===== verification/Totality.thy ===== *)
theory Totality
  imports DispatchSpec
begin

text \<open>
  Which commands always have a defined run. On a well-formed database every command outside a
  short list of names returns a value; the theory ends with the faults of the listed ones.
\<close>

section \<open>Runs that end in a value\<close>

definition ends :: "'a result \<Rightarrow> bool" where
  "ends r \<longleftrightarrow> (\<exists>x. r = Inr x)"

named_theorems ends_rules \<open>decomposition of a run that ends in a value\<close>
named_theorems total \<open>handlers that always end in a value\<close>

lemma ends_simps [simp]: "ends (Inr x)" "\<not> ends (Inl f)"
  by (simp_all add: ends_def)

lemma ends_bind [ends_rules]:
  "ends r \<Longrightarrow> (\<And>x. r = Inr x \<Longrightarrow> ends (f x)) \<Longrightarrow> ends (bind_result r f)"
  by (auto simp: ends_def)

lemmas ends_lookups [ends_rules] =
  Lookup_rule [where P = ends] GetTyped_rule [where P = ends] GetOrCreate_rule [where P = ends]

lemma ends_defined [simp]: "ends (defined x) \<longleftrightarrow> x \<noteq> None"
  by (simp add: defined_def split: option.split)

section \<open>Strings, lists and sets\<close>

lemma CmdIncrBy_ends [total]:
  assumes "evolves now i UNIV d d"
  shows "ends (CmdIncrBy ld now i argv d out by False)"
  using assms by (auto simp: CmdIncrBy_def GetOrCreateStringEntry_def Let_def intro!: ends_rules)

lemma CmdIncrByArg_ends [total]:
  assumes "evolves now i UNIV d d"
  shows "ends (CmdIncrByArg ld now i argv d out)" and "ends (CmdDecrByArg ld now i argv d out)"
  using CmdIncrBy_ends [OF assms]
  by (auto simp: CmdIncrByArg_def CmdDecrByArg_def split: option.split)

lemma CmdLRange_ends [total]:
  assumes "evolves now i UNIV d d"
  shows "ends (CmdLRange now i argv d out)"
  using assms by (auto simp: CmdLRange_def ListIndexRange_def Let_def intro!: ends_rules split: option.split)

text \<open>Creating a missing key gives the fresh value.\<close>

lemma GetOrCreate_missing:
  assumes "evolves now i K d0 d" and "live now d i k = None"
  shows "snd (GetOrCreate g fresh now i k d) = g fresh"
proof (cases "Lookup now i k d")
  case (Pair d1 e)
  have d: "db_shape d" "i < kNumDatabases" using assms(1) by (simp_all add: evolves_def)
  have e: "e = None" and d1: "db_shape d1"
    using Lookup_live(1,3) [OF d, of now k] Pair assms(2) by simp_all
  have "snd (Lookup now i k (Set i k fresh 0 d1)) = Some \<lparr>ent_value = fresh, expires_at_ms = 0\<rparr>"
    using d(2) d1 by (simp add: Lookup_live(1) Set_live)
  with Pair e show ?thesis
    by (simp add: GetOrCreate_def LookupOrSet_def case_prod_beta split: option.split)
qed

lemma GetTyped_missing:
  assumes "evolves now i K d0 d" and "GetTyped g now i k d = (d1, kMissing)"
  shows "live now d1 i k = None"
proof -
  have d: "db_shape d" "i < kNumDatabases" using assms(1) by (simp_all add: evolves_def)
  obtain e where e: "Lookup now i k d = (d1, e)" "e = None"
    using assms(2) by (auto simp: GetTyped_def split: prod.splits option.splits)
  with Lookup_live(1) [OF d, of now k] Lookup_live(2) [OF d, of now now k] show ?thesis by (simp add: fun_eq_iff)
qed

lemma CmdSMove_ends [total]:
  assumes "evolves now i UNIV d d"
  shows "ends (CmdSMove now i argv d out)"
proof -
  obtain d1 s where s: "GetTyped get_set now i (argv ! 1) d = (d1, s)" by fastforce
  obtain d2 t where t: "GetTyped get_set now i (argv ! 2) d1 = (d2, t)" by fastforce
  have d1: "evolves now i UNIV d d1" using evolves_GetTyped [OF assms, of get_set "argv ! 1"] s by simp
  have d2: "evolves now i UNIV d d2" using evolves_GetTyped [OF d1, of get_set "argv ! 2"] t by simp
  have "snd (SetCreate now i (argv ! 2) d2) = Some []" if "t = kMissing"
    using GetOrCreate_missing [OF d2 GetTyped_missing [OF d1 t [unfolded that]], of get_set "SetValue []"]
    by (simp add: SetCreate_def)
  with s t show ?thesis
    by (cases s; cases t) (auto simp: CmdSMove_def Let_def case_prod_beta)
qed

lemma CmdSetOpStore_ends [total]:
  assumes "evolves now i UNIV d d"
  shows "ends (CmdSetOpStore now i argv d out op)"
proof -
  obtain d1 out1 res where r: "EvalSetOp now i argv 2 d out op = (d1, out1, res)" by (metis prod_cases3)
  have d1: "db_shape d1" "i < kNumDatabases"
    using EvalSetOp_ok [OF assms r] by (simp_all add: evolves_def)
  have "snd (Lookup now i k (Set i k v 0 d1)) = Some \<lparr>ent_value = v, expires_at_ms = 0\<rparr>" for k v
    using d1 by (simp add: Lookup_live(1) Set_live)
  with r show ?thesis by (simp add: CmdSetOpStore_def Let_def case_prod_beta split: option.split)
qed

section \<open>Sorted sets\<close>

lemma zset_reads_defined:
  assumes "zok z"
  shows "RangeByRank (fst z) start stop rv \<noteq> None"
    and "RangeByScore (fst z) r False offset count \<noteq> None" and "CountInRange (fst z) r \<noteq> None"
    and "map_of (snd z) m = Some v \<Longrightarrow> Rank (fst z) v m \<noteq> None"
    and "map_of (snd z) m = Some v \<Longrightarrow> RevRank (fst z) v m \<noteq> None"
proof -
  obtain xs where xs: "sl_rel (fst z) xs" "\<And>sc m. map_of (snd z) m = Some sc \<Longrightarrow> \<not> d_isnan sc"
    using assms by (rule zset_okE) (rule that)
  show "RangeByRank (fst z) start stop rv \<noteq> None" by (simp add: RangeByRank_correct [OF xs(1)])
  show "RangeByScore (fst z) r False offset count \<noteq> None"
    using RangeByScore_forward [OF xs(1), of count r offset] by (cases "count = 0") (simp_all add: RangeByScore_def)
  show "CountInRange (fst z) r \<noteq> None" by (simp add: CountInRange_correct [OF xs(1)])
  assume "map_of (snd z) m = Some v"
  then have "\<exists>y. Rank (fst z) v m = Some y" using Rank_correct [OF xs(1) xs(2)] by blast
  then show "Rank (fst z) v m \<noteq> None" "RevRank (fst z) v m \<noteq> None" by (auto simp: RevRank_def)
qed

lemma zrun_ends: "zrun_ok r \<Longrightarrow> ends r"
  by (auto simp: zrun_ok_def)

lemma zset_writes_end:
  assumes "zok z"
  shows "ends (ZAddLoop rs p c args z a ch)" and "ends (ZPopLoop mm n z flat)"
    and "\<not> d_isnan sc \<Longrightarrow> ends (zset_put rnd m sc z)"
proof -
  show "ends (ZAddLoop rs p c args z a ch)" "ends (ZPopLoop mm n z flat)"
    using ZAddLoop_zok [OF assms] ZPopLoop_zok [OF assms] by (simp_all add: zrun_ends)
  show "\<not> d_isnan sc \<Longrightarrow> ends (zset_put rnd m sc z)"
    using zset_put_ok [OF assms, of sc rnd m] by (auto simp: ends_def)
qed

lemma fresh_zset: "zset_ok new_skiplist []"
  by (rule zset_okI [OF new_skiplist_rel]) simp_all

lemma CmdZAdd_ends [total]:
  assumes "evolves now i UNIV d d"
  shows "ends (CmdZAdd rs now i argv d out)" and "ends (CmdZIncrBy rs now i argv d out)"
  using assms fresh_zset
  by (auto simp: CmdZAdd_def CmdZIncrBy_def ZSetCreate_def Let_def case_prod_beta [of _ "ZAddFlags _ _"] zset_writes_end
      intro!: ends_rules split: option.split)

lemma CmdZReads_ends [total]:
  assumes "evolves now i UNIV d d"
  shows "ends (CmdZRangeByScore False now i argv d out)" and "ends (CmdZRank asc now i argv d out)"
    and "ends (CmdZCount now i argv d out)" and "3 < length argv \<Longrightarrow> ends (CmdZRange zrange now i argv d out)"
  using assms zset_reads_defined [of "(sl, dict)" for sl dict]
  by (auto simp: CmdZRangeByScore_def CmdZRank_def CmdZCount_def CmdZRange_def Let_def
      intro!: ends_rules split: option.split sum.split limit_error.split)

lemma CmdZPop_ends [total]:
  assumes "evolves now i UNIV d d"
  shows "ends (CmdZPop mm now i argv d out)"
  using assms
  by (auto simp: CmdZPop_def Let_def zset_writes_end intro!: ends_rules split: option.split)

lemma RemoveVictims_ends:
  assumes "zok z" and "victims \<noteq> None" and "\<And>v. victims = Some v \<Longrightarrow> victims_ok (snd z) v"
  shows "ends (RemoveVictims i k z victims d out)"
proof -
  obtain v where v: "victims = Some v" using assms(2) by blast
  with EraseAll_ok [OF assms(1), of v] assms(3) [OF v] show ?thesis
    by (auto simp: RemoveVictims_def victims_ok_def defined_def)
qed

lemma CmdZRemRange_ends [total]:
  assumes "evolves now i UNIV d d"
  shows "ends (CmdZRemRangeByRank now i argv d out)" and "ends (CmdZRemRangeByScore now i argv d out)"
  using assms zset_reads_defined(1,2) [of "(sl, dict)" for sl dict]
  by (auto simp: CmdZRemRangeByRank_def CmdZRemRangeByScore_def Let_def
      intro!: ends_rules RemoveVictims_ends split: option.split)
    (rule rank_victims score_victims, assumption+)+

section \<open>The commands that may be undefined\<close>

text \<open>
  Null pointers (a missing hash, set or sorted set), signed overflow (times, offsets and
  counts), arguments past the end of the vector, the buffer of the long double printer, and a
  reverse score range with a negative offset.
\<close>

definition partial_names :: "string list" where
  "partial_names =
    [''HGET'', ''HMGET'', ''HDEL'', ''HSTRLEN'', ''SREM'', ''ZSCORE'', ''ZREM'',
     ''SET'', ''SETEX'', ''PSETEX'', ''EXPIRE'', ''PEXPIRE'', ''EXPIREAT'', ''PEXPIREAT'', ''TTL'', ''PTTL'',
     ''SETRANGE'', ''LREM'', ''SRANDMEMBER'', ''ZRANGE'', ''CONFIG'', ''CLIENT'',
     ''INCRBYFLOAT'', ''HINCRBYFLOAT'', ''ZREVRANGEBYSCORE'']"

text \<open>The groups again, now with their runs: a locale on top of the contract.\<close>

locale total_group = command_group +
  assumes ends_run:
    "(\<And>K. evolves (NowMs e) i K d d) \<Longrightarrow> upper \<notin> set partial_names \<Longrightarrow>
     (upper = ''ZREVRANGE'' \<Longrightarrow> 3 < length argv) \<Longrightarrow> each ends (run e upper i argv d out)"

interpretation strings_total: total_group StringCommand
  by (standard, unfold StringCommand_def Let_def, intro each_rules; (elim disjE)?;
      simp add: partial_names_def total)

interpretation keys_total: total_group KeyCommand
  by (standard, unfold KeyCommand_def Let_def, intro each_rules; (elim disjE)?;
      simp add: partial_names_def total)

interpretation hashes_total: total_group HashCommand
  by (standard, unfold HashCommand_def Let_def, intro each_rules; (elim disjE)?;
      simp add: partial_names_def total)

interpretation lists_total: total_group ListCommand
  by (standard, unfold ListCommand_def Let_def, intro each_rules; (elim disjE)?;
      simp add: partial_names_def total)

interpretation sets_total: total_group SetCommand
  by (standard, unfold SetCommand_def Let_def, intro each_rules; (elim disjE)?;
      simp add: partial_names_def total)

interpretation zsets_total: total_group ZSetCommand
  by (standard, unfold ZSetCommand_def Let_def, intro each_rules; (elim disjE)?;
      simp add: partial_names_def total)

interpretation data_total: total_group DataCommand
  by (standard, unfold DataCommand_def, intro each_orelse strings_total.ends_run keys_total.ends_run
      hashes_total.ends_run lists_total.ends_run sets_total.ends_run zsets_total.ends_run)

lemma ServerCommand_ends:
  assumes "upper \<notin> set partial_names"
  shows "each ends (ServerCommand e upper argv w)"
  using assms unfolding ServerCommand_def
  by (intro each_rules; simp add: partial_names_def)

lemma RunCommand_ends:
  assumes "world_ok w" and "ArityOk upper (length argv)" and "upper \<notin> set partial_names"
  shows "each ends (RunCommand e upper argv w)"
proof -
  have "evolves (NowMs e) (db_index (w_cs w)) K (w_db w) (w_db w)" for K
    using assms(1) by (intro evolves_refl) (simp_all add: world_ok_def)
  moreover have "upper = ''ZREVRANGE'' \<Longrightarrow> 3 < length argv"
    using assms(2) by (simp add: ArityOk_def ArityTable_def split: if_splits)
  ultimately have "each ends (DataCommand e upper (db_index (w_cs w)) argv (w_db w) (w_out w))"
    using assms(3) by (intro data_total.ends_run)
  then show ?thesis
    using ServerCommand_ends [OF assms(3), of e argv w]
    by (auto simp: RunCommand_def each_def ends_def Let_def case_prod_beta split: option.splits)
qed

end
