(* ===== verification/Transactions.thy ===== *)
theory Transactions
  imports Totality
begin

text \<open>
  One call of the dispatcher, and transactions: a call keeps the server well-formed, appends
  one reply and changes only what it names; the recursion through \<open>EXEC\<close> has depth two; a
  transaction is the sequential run of its commands.
\<close>

section \<open>A call outside \<open>EXEC\<close>\<close>

lemma runs_world_ok: "world_ok w \<Longrightarrow> runs e upper argv w w' \<Longrightarrow> world_ok w'"
  by (simp add: world_ok_def runs_def)

lemma ErrUnknownCommand_answers:
  assumes "argv \<noteq> []" and "\<forall>a\<in>set argv. one_line a"
  shows "answers out (ErrUnknownCommand out argv)"
proof -
  have "one_line (argv ! 0)" "1 < length argv \<Longrightarrow> one_line (argv ! 1)" using assms by simp_all
  then show ?thesis by (simp add: ErrUnknownCommand_def Let_def)
qed

lemma refused_runs:
  assumes "world_ok w" and "argv \<noteq> []"
  shows "runs e upper argv w (reply (\<lambda>out. ErrUnknownCommand out argv) w)"
    and "runs e upper argv w (reply (\<lambda>out. ErrWrongArgs out (ToLower (argv ! 0))) w)"
  using assms by (auto intro!: runs_reply ErrUnknownCommand_answers simp: lines_ok_def)

lemma step_runs:
  assumes w: "world_ok w" "\<not> in_multi (w_cs w)" and a: "argv \<noteq> []"
    and u: "upper = ToUpper (argv ! 0)" "upper \<notin> {''MULTI'', ''EXEC'', ''DISCARD''}"
    and s: "DispatchStep run envs argv w = Inr w'"
  shows "runs (envs []) upper argv w w'"
proof -
  have eq: "DispatchStep run envs argv w =
     (if \<not> CommandExists upper then Inr (reply (\<lambda>out. ErrUnknownCommand out argv) w)
      else if \<not> ArityOk upper (length argv) then Inr (reply (\<lambda>out. ErrWrongArgs out (ToLower (argv ! 0))) w)
      else if MemoryGate upper w
      then Inr (error_reply (''OOM command not allowed when used memory > '' @ quote @ ''maxmemory'' @ quote @ ''.'') w)
      else case RunCommand (envs []) upper argv w of
             Some r \<Rightarrow> r | None \<Rightarrow> Inr (reply (\<lambda>out. ErrUnknownCommand out argv) w))"
    using w(2) a u(2) unfolding u(1) by (simp add: DispatchStep_def Let_def)
  have ref: "runs (envs []) upper argv w (error_reply (''OOM command not allowed when used memory > '' @ quote @ ''maxmemory'' @ quote @ ''.'') w)"
    by (rule runs_simple(7) [OF w(1)]) simp
  show ?thesis
  proof (cases "CommandExists upper \<and> ArityOk upper (length argv) \<and> \<not> MemoryGate upper w")
    case True
    then show ?thesis
      using s RunCommand_runs [OF w(1) _ u(1)] refused_runs(1) [OF w(1) a] unfolding eq
      by (cases "RunCommand (envs []) upper argv w") auto
  next
    case False
    then show ?thesis
      using s ref refused_runs [OF w(1) a] unfolding eq by (auto split: if_splits)
  qed
qed

text \<open>Only \<open>EXEC\<close> calls the dispatcher again.\<close>

lemma step_indep: "ToUpper (argv ! 0) \<noteq> ''EXEC'' \<Longrightarrow> DispatchStep run envs argv w = DispatchStep run' envs argv w"
  by (simp add: DispatchStep_def Let_def)

lemma step_ends:
  assumes "world_ok w" and "ToUpper (argv ! 0) \<noteq> ''EXEC''" and "ToUpper (argv ! 0) \<notin> set partial_names"
  shows "ends (DispatchStep run envs argv w)"
  using RunCommand_ends [OF assms(1) _ assms(3), of argv "envs []"] assms(2)
  by (auto simp: DispatchStep_def Let_def each_def split: option.split)

text \<open>What one call may do, in and outside a transaction.\<close>

definition called :: "env \<Rightarrow> Args \<Rightarrow> world \<Rightarrow> world \<Rightarrow> bool" where
  "called e argv w w' \<longleftrightarrow> world_ok w' \<and> w_opts w' = w_opts w \<and>
     (\<forall>n j k. NowMs e \<le> n \<longrightarrow> may_change (ToUpper (argv ! 0)) argv (db_index (w_cs w)) j k \<or>
        live n (w_db w') j k = live n (w_db w) j k) \<and>
     (lines_ok e argv w \<and> ToUpper (argv ! 0) \<noteq> ''SHUTDOWN'' \<longrightarrow> answers (w_out w) (w_out w'))"

lemma runs_called: "world_ok w \<Longrightarrow> runs e (ToUpper (argv ! 0)) argv w w' \<Longrightarrow> called e argv w w'"
  using runs_world_ok by (simp add: called_def runs_def)

lemma Enqueue_called:
  assumes "world_ok w" and "in_multi (w_cs w)" and "argv \<noteq> []" and "\<not> MultiCommand (ToUpper (argv ! 0))"
  shows "called e argv w (Enqueue (ToUpper (argv ! 0)) argv w)"
  using assms ErrUnknownCommand_answers [OF assms(3)]
  by (simp add: called_def Enqueue_def Let_def world_ok_def queue_ok_def lines_ok_def)

lemma MultiDiscard_called:
  assumes "world_ok w"
  shows "called e argv w (CmdMulti w)" and "called e argv w (CmdDiscard w)"
  using assms by (auto simp: called_def CmdMulti_def CmdDiscard_def world_ok_def queue_ok_def)

lemma known_not_run:
  "RunCommand e ''MULTI'' argv w = None" "RunCommand e ''DISCARD'' argv w = None" "RunCommand e ''EXEC'' argv w = None"
  by (simp_all add: RunCommand_def ServerCommand_def DataCommand_def StringCommand_def KeyCommand_def
      HashCommand_def ListCommand_def SetCommand_def ZSetCommand_def Let_def)

lemma step_called:
  assumes w: "world_ok w" and a: "argv \<noteq> []" and u: "ToUpper (argv ! 0) \<noteq> ''EXEC''"
    and s: "DispatchStep run envs argv w = Inr w'"
  shows "called (envs []) argv w w'"
proof (cases "in_multi (w_cs w) \<and> \<not> MultiCommand (ToUpper (argv ! 0))")
  case True
  with s a have "w' = Enqueue (ToUpper (argv ! 0)) argv w" by (simp add: DispatchStep_def Let_def)
  with Enqueue_called [OF w] True a show ?thesis by simp
next
  case False
  let ?u = "ToUpper (argv ! 0)"
  have refused: "called (envs []) argv w (reply (\<lambda>out. ErrUnknownCommand out argv) w)"
    "called (envs []) argv w (reply (\<lambda>out. ErrWrongArgs out (ToLower (argv ! 0))) w)"
    "called (envs []) argv w (error_reply (''OOM command not allowed when used memory > '' @ quote @ ''maxmemory'' @ quote @ ''.'') w)"
    by (intro runs_called [OF w] refused_runs [OF w a] runs_simple(7) [OF w]; simp)+
  consider "?u = ''MULTI'' \<or> ?u = ''DISCARD''" | "\<not> in_multi (w_cs w)" "?u \<notin> {''MULTI'', ''EXEC'', ''DISCARD''}"
    | "in_multi (w_cs w)" "?u = ''QUIT''"
    using False u by (auto simp: MultiCommand_def)
  then show ?thesis
  proof cases
    case 1
    then show ?thesis
      using s a MultiDiscard_called [OF w] refused False
      by (auto simp: DispatchStep_def Let_def known_not_run split: if_splits)
  next
    case 2
    then show ?thesis using step_runs [OF w _ a refl _ s] by (intro runs_called [OF w]) simp_all
  next
    case 3
    have run: "runs (envs []) ?u argv w w1" if "RunCommand (envs []) ?u argv w = Some (Inr w1)"
      "ArityOk ?u (length argv)" for w1
      using RunCommand_runs [OF w that(2) refl that(1)] .
    have "RunCommand (envs []) ?u argv w \<noteq> None" using 3 by (simp add: RunCommand_def ServerCommand_def)
    then show ?thesis
      using s a refused False run runs_called [OF w] 3
      by (auto simp: DispatchStep_def Let_def split: if_splits)
  qed
qed

section \<open>\<open>EXEC\<close>\<close>

text \<open>No line break in what may be echoed, and no \<open>SHUTDOWN\<close>, which sends no reply.\<close>

definition polite :: "(nat list \<Rightarrow> env) \<Rightarrow> Args list \<Rightarrow> world \<Rightarrow> bool" where
  "polite envs q w \<longleftrightarrow> (\<forall>p. one_line (errno_text (envs p))) \<and>
     one_line (dir (w_opts w)) \<and> one_line (dbfilename (w_opts w)) \<and>
     list_all (\<lambda>argv. list_all one_line argv \<and> ToUpper (argv ! 0) \<noteq> ''SHUTDOWN'') q"

lemma polite_lines: "polite envs q w \<Longrightarrow> argv \<in> set q \<Longrightarrow> lines_ok (envs p) argv w \<and> ToUpper (argv ! 0) \<noteq> ''SHUTDOWN''"
  by (auto simp: polite_def lines_ok_def list_all_iff)

definition appends :: "nat \<Rightarrow> string \<Rightarrow> string \<Rightarrow> bool" where
  "appends n out out' \<longleftrightarrow> (\<exists>rs. length rs = n \<and> list_all reply_ok rs \<and> out' = out @ concat (map encode_reply rs))"

lemma appends_Suc: "answers out out1 \<Longrightarrow> appends n out1 out' \<Longrightarrow> appends (Suc n) out out'"
  unfolding answers_def appends_def
  by (elim exE conjE) (rule exI [of _ "_ # _"], auto)

lemma ExecLoop_runs:
  assumes "\<And>envs argv w w'. world_ok w \<Longrightarrow> \<not> in_multi (w_cs w) \<Longrightarrow> argv \<in> set q \<Longrightarrow>
      run envs argv w = Inr w' \<Longrightarrow> runs (envs []) (ToUpper (argv ! 0)) argv w w'"
    and "world_ok w" and "\<not> in_multi (w_cs w)" and "ExecLoop run envs i q w = Inr w'"
  shows "world_ok w' \<and> w_opts w' = w_opts w \<and> \<not> in_multi (w_cs w') \<and>
    (polite envs q w \<longrightarrow> appends (length q) (w_out w) (w_out w'))"
  using assms
proof (induction q arbitrary: i w)
  case Nil
  then show ?case by (simp add: appends_def)
next
  case (Cons argv q)
  from Cons.prems(4) obtain w1 where w1: "run (\<lambda>p. envs (i # p)) argv w = Inr w1"
    "ExecLoop run envs (Suc i) q w1 = Inr w'" by (auto simp: bind_result_Inr_iff)
  have r: "runs (envs [i]) (ToUpper (argv ! 0)) argv w w1"
    using Cons.prems(1) [OF Cons.prems(2,3) _ w1(1)] by simp
  then have w: "world_ok w1" "\<not> in_multi (w_cs w1)" "w_opts w1 = w_opts w"
    using runs_world_ok [OF Cons.prems(2)] Cons.prems(3) by (simp_all add: runs_def)
  have IH: "world_ok w' \<and> w_opts w' = w_opts w1 \<and> \<not> in_multi (w_cs w') \<and>
    (polite envs q w1 \<longrightarrow> appends (length q) (w_out w1) (w_out w'))"
    using w(1,2) w1(2) Cons.prems(1) by (intro Cons.IH) simp_all
  moreover have "appends (length (argv # q)) (w_out w) (w_out w')" if "polite envs (argv # q) w"
    using that IH w(3) r polite_lines [OF that, of argv] by (auto simp: polite_def runs_def intro: appends_Suc)
  ultimately show ?case using w(3) by simp
qed

lemma queue_step:
  assumes "queue_ok q" and "argv \<in> set q" and "world_ok w" and "\<not> in_multi (w_cs w)"
    and "Dispatch n envs argv w = Inr w'"
  shows "runs (envs []) (ToUpper (argv ! 0)) argv w w'"
proof (cases n)
  case (Suc m)
  have q: "ArityOk (ToUpper (argv ! 0)) (length argv)" "\<not> MultiCommand (ToUpper (argv ! 0))"
    using assms(1,2) by (auto simp: queue_ok_def list_all_iff)
  then have "argv \<noteq> []" using ArityOk_min1 by fastforce
  with q(2) assms(3-5) Suc show ?thesis
    by (intro step_runs [where run = "Dispatch m"]) (auto simp: MultiCommand_def)
qed (use assms(5) in simp)

lemma appends_answers:
  assumes "appends n (AppendArrayReply out (int n)) out'"
  shows "answers out out'"
  using assms unfolding appends_def
  by (elim exE conjE) (rule answers_array, auto simp: list_all_iff)

lemma exec_called:
  assumes w: "world_ok w" and x: "CmdExec (Dispatch n) envs w = Inr w'"
  shows "world_ok w' \<and> w_opts w' = w_opts w \<and>
    (polite envs (multi_queue (w_cs w)) w \<longrightarrow> answers (w_out w) (w_out w'))"
proof (cases "in_multi (w_cs w) \<and> \<not> multi_error (w_cs w)")
  case True
  let ?q = "multi_queue (w_cs w)"
  let ?w0 = "reply (\<lambda>out. AppendArrayReply out (int (length ?q)))
     (w\<lparr>w_cs := (w_cs w)\<lparr>in_multi := False, multi_queue := []\<rparr>\<rparr>)"
  have q: "queue_ok ?q" using w by (simp add: world_ok_def)
  have "world_ok w' \<and> w_opts w' = w_opts ?w0 \<and> \<not> in_multi (w_cs w') \<and>
    (polite envs ?q ?w0 \<longrightarrow> appends (length ?q) (w_out ?w0) (w_out w'))"
  proof (rule ExecLoop_runs [where run = "Dispatch n" and i = 0])
    show "ExecLoop (Dispatch n) envs 0 ?q ?w0 = Inr w'" using x True by (simp add: CmdExec_def Let_def)
    show "world_ok ?w0" using w by (simp add: world_ok_def queue_ok_def)
  qed (use queue_step [OF q] in simp_all)
  moreover have "polite envs ?q ?w0 = polite envs ?q w" by (simp add: polite_def)
  ultimately show ?thesis by (auto intro: appends_answers)
next
  case False
  with w x show ?thesis
    by (auto simp: CmdExec_def Let_def world_ok_def queue_ok_def split: if_splits)
qed

lemma Dispatch_called:
  assumes "world_ok w" and "argv \<noteq> []" and "Dispatch n envs argv w = Inr w'"
  shows "world_ok w' \<and> w_opts w' = w_opts w \<and>
    (ToUpper (argv ! 0) \<noteq> ''EXEC'' \<longrightarrow> called (envs []) argv w w') \<and>
    (polite envs (argv # multi_queue (w_cs w)) w \<longrightarrow> answers (w_out w) (w_out w'))"
proof (cases n)
  case (Suc m)
  then have s: "DispatchStep (Dispatch m) envs argv w = Inr w'" using assms(3) by simp
  show ?thesis
  proof (cases "ToUpper (argv ! 0) = ''EXEC''")
    case False
    from step_called [OF assms(1,2) False s] have c: "called (envs []) argv w w'" .
    with polite_lines [of envs "argv # multi_queue (w_cs w)" w argv "[]"] show ?thesis
      by (auto simp: called_def)
  next
    case True
    have "\<not> MemoryGate ''EXEC'' w" by (simp add: MemoryGate_def IsWriteCommand_def writes_def)
    then have eq: "DispatchStep (Dispatch m) envs argv w =
       (if \<not> CommandExists ''EXEC'' then Inr (reply (\<lambda>out. ErrUnknownCommand out argv) w)
        else if \<not> ArityOk ''EXEC'' (length argv) then Inr (reply (\<lambda>out. ErrWrongArgs out (ToLower (argv ! 0))) w)
        else CmdExec (Dispatch m) envs w)"
      using True assms(2) by (simp add: DispatchStep_def Let_def MultiCommand_def known_not_run)
    show ?thesis
    proof (cases "CommandExists ''EXEC'' \<and> ArityOk ''EXEC'' (length argv)")
      case a: True
      have "polite envs (argv # multi_queue (w_cs w)) w \<Longrightarrow> polite envs (multi_queue (w_cs w)) w"
        by (simp add: polite_def)
      with exec_called [OF assms(1)] a s True show ?thesis unfolding eq by auto
    next
      case False
      with s assms(1,2) True ErrUnknownCommand_answers [OF assms(2)] show ?thesis
        unfolding eq by (auto simp: world_ok_def polite_def list_all_iff split: if_splits)
    qed
  qed
qed (use assms(3) in simp)

section \<open>Properties of the dispatcher\<close>

lemma Dispatch_Nil: "Dispatch n envs [] w = Inr w' \<Longrightarrow> w' = w"
  by (cases n) (simp_all add: DispatchStep_def)

text \<open>C17: Whatever command a client sends, if its run is defined then it leaves a well-formed
  server: distinct keys in every table, sorted sets whose skip list and dictionary agree,
  hashes and sets without duplicates, an existing selected database, and a transaction queue
  that holds only executable commands and is empty outside a transaction. The options never
  change.\<close>

theorem dispatch_keeps_wellformed:
  assumes "world_ok w" and "Dispatch n envs argv w = Inr w'"
  shows "world_ok w' \<and> w_opts w' = w_opts w"
  using Dispatch_called [OF assms(1) _ assms(2)] Dispatch_Nil assms by (cases "argv = []") auto



subsection \<open>Depth of the recursion\<close>

declare Dispatch.simps(2) [simp del]

lemma ExecLoop_cong:
  "(\<And>envs argv w. argv \<in> set q \<Longrightarrow> run envs argv w = run' envs argv w) \<Longrightarrow>
   ExecLoop run envs i q w = ExecLoop run' envs i q w"
  by (induction q arbitrary: i w) (simp_all add: bind_result_def split: sum.split)

lemma Dispatch_queue:
  assumes "queue_ok q"
  shows "ExecLoop (Dispatch (Suc n)) envs i q w = ExecLoop (Dispatch (Suc 0)) envs i q w"
proof (rule ExecLoop_cong)
  fix argv w and envs :: "nat list \<Rightarrow> env"
  assume "argv \<in> set q"
  with assms have "ToUpper (argv ! 0) \<noteq> ''EXEC''" by (auto simp: queue_ok_def list_all_iff MultiCommand_def)
  then show "Dispatch (Suc n) envs argv w = Dispatch (Suc 0) envs argv w"
    using step_indep by (simp add: Dispatch.simps)
qed


definition total_call :: "Args \<Rightarrow> bool" where
  "total_call argv \<longleftrightarrow> ToUpper (argv ! 0) \<notin> set partial_names"

lemma Dispatch_ends:
  "world_ok w \<Longrightarrow> ToUpper (argv ! 0) \<noteq> ''EXEC'' \<Longrightarrow> total_call argv \<Longrightarrow> ends (Dispatch (Suc n) envs argv w)"
  using step_ends by (simp add: Dispatch.simps total_call_def)




subsection \<open>Transactions\<close>

text \<open>A client's commands one after the other; command \<open>i\<close> sees the environments at \<open>i # p\<close>.\<close>

definition session :: "(nat list \<Rightarrow> env) \<Rightarrow> Args list \<Rightarrow> world \<Rightarrow> world result" where
  "session envs cmds w = ExecLoop (Dispatch 2) envs 0 cmds w"

lemma ExecLoop_append:
  "ExecLoop run envs i (xs @ ys) w = bind_result (ExecLoop run envs i xs w) (ExecLoop run envs (i + length xs) ys)"
  by (induction xs arbitrary: i w) (auto simp: bind_result_def split: sum.split)

lemma multi_words:
  "ToUpper ''MULTI'' = ''MULTI''" "ToUpper ''EXEC'' = ''EXEC''"
  "CommandExists ''MULTI''" "CommandExists ''EXEC''" "ArityOk ''MULTI'' 1" "ArityOk ''EXEC'' 1"
  "\<not> MemoryGate ''MULTI'' w" "\<not> MemoryGate ''EXEC'' w" "MultiCommand ''MULTI''" "MultiCommand ''EXEC''"
  by (code_simp | simp add: MemoryGate_def IsWriteCommand_def writes_def)+

lemma Dispatch_multi: "Dispatch (Suc n) envs [''MULTI''] w = Inr (CmdMulti w)"
  using multi_words by (simp add: Dispatch.simps DispatchStep_def known_not_run)

lemma Dispatch_exec: "Dispatch (Suc n) envs [''EXEC''] w = CmdExec (Dispatch n) envs w"
  using multi_words by (simp add: Dispatch.simps DispatchStep_def known_not_run)

lemma Dispatch_enqueue:
  assumes "in_multi (w_cs w)" and "argv \<noteq> []" and "\<not> MultiCommand (ToUpper (argv ! 0))"
  shows "Dispatch (Suc n) envs argv w = Inr (Enqueue (ToUpper (argv ! 0)) argv w)"
  using assms by (simp add: Dispatch.simps DispatchStep_def Let_def)

definition queued :: "Args list \<Rightarrow> world \<Rightarrow> world" where
  "queued q w = w\<lparr>w_cs := (w_cs w)\<lparr>multi_queue := multi_queue (w_cs w) @ q\<rparr>,
     w_out := foldl (\<lambda>out argv. AppendSimpleReply out ''QUEUED'') (w_out w) q\<rparr>"

lemma enqueue_all:
  assumes "in_multi (w_cs w)" and "queue_ok q"
  shows "ExecLoop (Dispatch (Suc n)) envs i q w = Inr (queued q w)"
  using assms
proof (induction q arbitrary: i w)
  case Nil
  then show ?case by (simp add: queued_def)
next
  case (Cons argv q)
  have a: "ArityOk (ToUpper (argv ! 0)) (length argv)" "\<not> MultiCommand (ToUpper (argv ! 0))" "queue_ok q"
    using Cons.prems(2) by (simp_all add: queue_ok_def)
  have ne: "argv \<noteq> []" using ArityOk_min1 [OF a(1)] by auto
  have "CommandExists (ToUpper (argv ! 0))"
    using a(1) by (auto simp: CommandExists_def ArityOk_def split: option.splits)
  then have "Dispatch (Suc n) (\<lambda>p. envs (i # p)) argv w = Inr (queued [argv] w)"
    using Dispatch_enqueue [OF Cons.prems(1) ne a(2)] a(1) by (simp add: Enqueue_def Let_def queued_def reply_def)
  moreover have "ExecLoop (Dispatch (Suc n)) envs (Suc i) q (queued [argv] w) = Inr (queued q (queued [argv] w))"
    using Cons.prems(1) a(3) by (intro Cons.IH) (simp_all add: queued_def)
  ultimately show ?case by (simp add: queued_def)
qed

text \<open>C21: A transaction is the sequential run of its commands: sending \<open>MULTI\<close>, the commands and
  \<open>EXEC\<close> leaves the same server as sending the commands alone at the time of the \<open>EXEC\<close>, apart
  from the acknowledgements before the replies.\<close>

theorem transaction_is_sequential:
  assumes "world_ok w" and "\<not> in_multi (w_cs w)" and "queue_ok q"
  shows "session envs ([''MULTI''] # q @ [[''EXEC'']]) w =
    session (\<lambda>p. envs (Suc (length q) # p)) q
      (w\<lparr>w_cs := (w_cs w)\<lparr>multi_error := False\<rparr>,
         w_out := AppendArrayReply (foldl (\<lambda>out argv. AppendSimpleReply out ''QUEUED'')
            (AppendSimpleReply (w_out w) ''OK'') q) (int (length q))\<rparr>)"
proof -
  let ?w1 = "CmdMulti w"
  let ?e = "\<lambda>p. envs (Suc (length q) # p)"
  have "multi_queue (w_cs w) = []" using assms(1,2) by (simp add: world_ok_def)
  then have w1: "?w1 = simple ''OK'' (w\<lparr>w_cs := (w_cs w)\<lparr>in_multi := True, multi_error := False\<rparr>\<rparr>)"
    using assms(2) by (cases "w_cs w") (simp add: CmdMulti_def)
  have cs: "(w_cs w)\<lparr>multi_error := False, in_multi := False, multi_queue := []\<rparr> = (w_cs w)\<lparr>multi_error := False\<rparr>"
    using assms(2) \<open>multi_queue (w_cs w) = []\<close> by (cases "w_cs w") simp
  have "session envs ([''MULTI''] # q @ [[''EXEC'']]) w = CmdExec (Dispatch (Suc 0)) ?e (queued q ?w1)"
    using enqueue_all [of ?w1 q "Suc 0" envs "Suc 0"] assms(3) w1
    by (simp add: session_def numeral_2_eq_2 Dispatch_multi ExecLoop_append Dispatch_exec bind_result_def
        split: sum.split)
  also have "\<dots> = ExecLoop (Dispatch 2) ?e 0 q (w\<lparr>w_cs := (w_cs w)\<lparr>multi_error := False\<rparr>,
         w_out := AppendArrayReply (foldl (\<lambda>out argv. AppendSimpleReply out ''QUEUED'')
            (AppendSimpleReply (w_out w) ''OK'') q) (int (length q))\<rparr>)"
    using assms(2) \<open>multi_queue (w_cs w) = []\<close> unfolding w1
    by (simp add: cs CmdExec_def Let_def queued_def reply_def numeral_2_eq_2 Dispatch_queue [OF assms(3), of "Suc 0"])
  finally show ?thesis by (simp add: session_def)
qed

text \<open>A command that cannot be queued condemns the transaction.\<close>

definition queueable :: "Args \<Rightarrow> bool" where
  "queueable argv \<longleftrightarrow> argv \<noteq> [] \<and> \<not> MultiCommand (ToUpper (argv ! 0))"

definition same_data :: "world \<Rightarrow> world \<Rightarrow> bool" where
  "same_data w w' \<longleftrightarrow> w_db w' = w_db w \<and> w_disk w' = w_disk w \<and> w_children w' = w_children w \<and>
     w_opts w' = w_opts w \<and> w_stats w' = w_stats w \<and> db_index (w_cs w') = db_index (w_cs w)"

lemma enqueue_same:
  assumes "in_multi (w_cs w)" and "list_all queueable q"
  shows "\<exists>w'. ExecLoop (Dispatch (Suc n)) envs i q w = Inr w' \<and> same_data w w' \<and> in_multi (w_cs w') \<and>
    (multi_error (w_cs w') \<longleftrightarrow> multi_error (w_cs w) \<or>
       (\<exists>argv\<in>set q. \<not> ArityOk (ToUpper (argv ! 0)) (length argv)))"
  using assms
proof (induction q arbitrary: i w)
  case Nil
  then show ?case by (simp add: same_data_def)
next
  case (Cons argv q)
  let ?w1 = "Enqueue (ToUpper (argv ! 0)) argv w"
  have s: "Dispatch (Suc n) (\<lambda>p. envs (i # p)) argv w = Inr ?w1"
    using Cons.prems by (intro Dispatch_enqueue) (simp_all add: queueable_def)
  have w1: "in_multi (w_cs ?w1)" "same_data w ?w1"
    "multi_error (w_cs ?w1) \<longleftrightarrow> multi_error (w_cs w) \<or> \<not> ArityOk (ToUpper (argv ! 0)) (length argv)"
    using Cons.prems(1)
    by (auto simp: Enqueue_def Let_def same_data_def CommandExists_def ArityOk_def split: option.splits)
  have "same_data w w'" if "same_data ?w1 w'" for w' using w1(2) that by (simp add: same_data_def)
  with Cons.IH [OF w1(1), of "Suc i"] Cons.prems(2) s w1(3) show ?case by auto
qed

text \<open>C22: A transaction with a command that is unknown or has a wrong number of arguments is
  not run at all: \<open>EXEC\<close> answers \<open>EXECABORT\<close>, and the database, the disk and the statistics
  are as before the \<open>MULTI\<close>.\<close>

theorem transaction_aborts:
  assumes "\<not> in_multi (w_cs w)" and "list_all queueable q"
    and "\<exists>argv\<in>set q. \<not> ArityOk (ToUpper (argv ! 0)) (length argv)"
  shows "\<exists>w' out. session envs ([''MULTI''] # q @ [[''EXEC'']]) w = Inr w' \<and> same_data w w' \<and>
    \<not> in_multi (w_cs w') \<and> multi_queue (w_cs w') = [] \<and>
    w_out w' = AppendErrorReply out ''EXECABORT Transaction discarded because of previous errors.''"
proof -
  let ?w1 = "CmdMulti w"
  have "in_multi (w_cs ?w1)" using assms(1) by (simp add: CmdMulti_def)
  then obtain w2 where w2: "ExecLoop (Dispatch 2) envs (Suc 0) q ?w1 = Inr w2" "same_data ?w1 w2"
    "in_multi (w_cs w2)" "multi_error (w_cs w2)"
    using enqueue_same [OF _ assms(2), of ?w1 "Suc 0" envs "Suc 0"] assms(3)
    unfolding numeral_2_eq_2 by blast
  have "same_data w ?w1" using assms(1) by (simp add: same_data_def CmdMulti_def)
  with w2 show ?thesis
    by (auto simp: session_def ExecLoop_append Dispatch_multi [of "Suc 0", folded numeral_2_eq_2]
        Dispatch_exec [of "Suc 0", folded numeral_2_eq_2] CmdExec_def Let_def same_data_def)
qed

text \<open>Witnesses: a fresh server, a command or a transaction on it.\<close>

definition sample_env :: env where
  "sample_env = \<lparr>now_us = 1000000, draws = (\<lambda>_. 0), rnds = (\<lambda>_ _. 0),
     io = \<lparr>open_ok = True, write_ok = True, rename_ok = True, read_ok = True, fork_ok = True, partial_data = []\<rparr>,
     errno_text = [], long_double = x87_extended\<rparr>"

definition fresh_world :: world where
  "fresh_world = \<lparr>w_db = new_database, w_cs = new_client, w_opts = default_options, w_stats = new_stats,
     w_disk = \<lparr>files = (\<lambda>_. None), last_save = 0\<rparr>, w_children = [], w_out = []\<rparr>"

lemma fresh_world_ok: "world_ok fresh_world"
  by (simp add: world_ok_def fresh_world_def new_client_def default_options_def queue_ok_def kNumDatabases_def)

definition sample_args :: Args where
  "sample_args = [''incr'', ''hits'']"

abbreviation sample_envs :: "nat list \<Rightarrow> env" where
  "sample_envs \<equiv> \<lambda>_. sample_env"

lemma sample_upper: "ToUpper (sample_args ! 0) = ''INCR''"
  by code_simp

lemma sample_facts:
  "total_call sample_args" "sample_args \<noteq> []" "queue_ok [sample_args, sample_args]"
  "polite sample_envs [sample_args] fresh_world"
proof -
  show "total_call sample_args" by (simp add: total_call_def sample_upper partial_names_def)
  show "sample_args \<noteq> []" by (simp add: sample_args_def)
  have "ArityOk ''INCR'' (length sample_args)" by code_simp
  then show "queue_ok [sample_args, sample_args]" by (simp add: queue_ok_def sample_upper MultiCommand_def)
  have "list_all one_line sample_args" "one_line (dir default_options)" "one_line (dbfilename default_options)"
    by (simp_all add: sample_args_def default_options_def)
  then show "polite sample_envs [sample_args] fresh_world"
    by (simp add: polite_def sample_env_def fresh_world_def sample_upper)
qed

lemma sample_run: "\<exists>w'. Dispatch 2 sample_envs sample_args fresh_world = Inr w'"
  using Dispatch_ends [OF fresh_world_ok, of sample_args "Suc 0"] sample_facts(1) sample_upper
  by (simp add: numeral_2_eq_2 ends_def)

theorem dispatch_keeps_wellformed_witness:
  "world_ok fresh_world \<and>
   (\<exists>w'. Dispatch 2 sample_envs sample_args fresh_world = Inr w' \<and> world_ok w' \<and> w_opts w' = w_opts fresh_world)"
  using sample_run dispatch_keeps_wellformed [OF fresh_world_ok, of 2 sample_envs sample_args] fresh_world_ok by auto




theorem transaction_is_sequential_witness:
  "session sample_envs ([''MULTI''] # [sample_args, sample_args] @ [[''EXEC'']]) fresh_world =
   session sample_envs [sample_args, sample_args]
     (fresh_world\<lparr>w_cs := (w_cs fresh_world)\<lparr>multi_error := False\<rparr>,
        w_out := ''+OK'' @ CRLF @ ''+QUEUED'' @ CRLF @ ''+QUEUED'' @ CRLF @ ''*2'' @ CRLF\<rparr>)"
proof -
  have "int_str 2 = ''2''" by code_simp
  then show ?thesis
    using transaction_is_sequential [OF fresh_world_ok _ sample_facts(3), of sample_envs]
    by (simp add: fresh_world_def new_client_def append_defs)
qed

theorem transaction_aborts_witness:
  "\<exists>w' out. session sample_envs ([''MULTI''] # [sample_args, [''NOPE'']] @ [[''EXEC'']]) fresh_world = Inr w' \<and>
     same_data fresh_world w' \<and> \<not> in_multi (w_cs w') \<and> multi_queue (w_cs w') = [] \<and>
     w_out w' = AppendErrorReply out ''EXECABORT Transaction discarded because of previous errors.''"
proof (rule transaction_aborts)
  have "\<not> ArityOk (ToUpper ''NOPE'') 1" "\<not> MultiCommand (ToUpper ''NOPE'')" by code_simp+
  then show "list_all queueable [sample_args, [''NOPE'']]"
    "\<exists>argv\<in>set [sample_args, [''NOPE'']]. \<not> ArityOk (ToUpper (argv ! 0)) (length argv)"
    using sample_facts(2) by (simp_all add: queueable_def sample_upper MultiCommand_def)
qed (simp add: fresh_world_def new_client_def)

end
