(* ===== verification/ServerSpec.thy ===== *)
theory ServerSpec
  imports Server Transactions
begin

text \<open>
  The event loop as a transition system: one rule per handler, the reachable states by
  induction, and the invariant of the loop. Then what a client sees: the replies of a pipeline
  in order, the isolation of connections, the flushing of output, and the two ways a closed
  connection is used again.
\<close>

section \<open>Well-formed servers\<close>

definition client_ok :: "ClientState \<Rightarrow> bool" where
  "client_ok cs \<longleftrightarrow> db_index cs < kNumDatabases \<and> queue_ok (multi_queue cs) \<and>
     (in_multi cs \<or> multi_queue cs = [])"

definition conns_ok :: "nat \<Rightarrow> (int \<times> Connection) list \<Rightarrow> bool" where
  "conns_ok n cs \<longleftrightarrow> distinct (map fst cs) \<and> distinct (map (conn_id \<circ> snd) cs) \<and>
     list_all (\<lambda>(fd, conn). conn_fd conn = fd \<and> conn_id conn < n \<and> client_ok (conn_state conn)) cs"

definition core_ok :: "Server \<Rightarrow> bool" where
  "core_ok s \<longleftrightarrow> db_good (srv_db s) \<and> num_databases (srv_opts s) \<le> int kNumDatabases \<and>
     conns_ok (next_client_id s) (srv_conns s) \<and>
     connected_clients (srv_stats s) = length (srv_conns s)"

text \<open>Output that is waiting is registered for writing.\<close>

definition registered :: "Connection \<Rightarrow> bool" where
  "registered conn \<longleftrightarrow> (conn_out conn \<noteq> [] \<longrightarrow> want_write conn)"

definition server_ok :: "Server \<Rightarrow> bool" where
  "server_ok s \<longleftrightarrow> core_ok s \<and> (srv_quit s \<or> list_all (registered \<circ> snd) (srv_conns s))"

lemma world_ok_client:
  "core_ok s \<Longrightarrow> client_ok (conn_state conn) \<Longrightarrow> world_ok (to_world conn s)"
  by (simp add: world_ok_def to_world_def core_ok_def client_ok_def)

section \<open>References\<close>

lemma deref_Some:
  assumes "deref c s = Some conn"
  obtains fd where "(fd, conn) \<in> set (srv_conns s)" "conn_id conn = c"
  using assms unfolding deref_def by (auto simp: find_Some_iff) (metis in_set_conv_nth nth_map prod.collapse)

lemma deref_alive:
  assumes "core_ok s" and "deref c s = Some conn"
  shows "map_of (srv_conns s) (conn_fd conn) = Some conn" and "conn_id conn = c"
    and "client_ok (conn_state conn)" and "c < next_client_id s"
proof -
  obtain fd where fd: "(fd, conn) \<in> set (srv_conns s)" "conn_id conn = c" by (rule deref_Some [OF assms(2)])
  have k: "conn_fd conn = fd \<and> conn_id conn < next_client_id s \<and> client_ok (conn_state conn)"
    using assms(1) fd(1) by (auto simp: core_ok_def conns_ok_def list_all_iff)
  moreover have "distinct (map fst (srv_conns s))" using assms(1) by (simp add: core_ok_def conns_ok_def)
  ultimately show "map_of (srv_conns s) (conn_fd conn) = Some conn" "conn_id conn = c"
    "client_ok (conn_state conn)" "c < next_client_id s" using fd by auto
qed

lemma deref_assign:
  assumes "deref (conn_id conn) s \<noteq> None"
  shows "deref c (assign conn s) = (if c = conn_id conn then Some conn else deref c s)"
proof -
  have "find (\<lambda>x. conn_id x = c) (map snd (map (\<lambda>(fd, x). (fd, if conn_id x = conn_id conn then conn else x)) cs)) =
    (if c = conn_id conn then (if find (\<lambda>x. conn_id x = c) (map snd cs) = None then None else Some conn)
     else find (\<lambda>x. conn_id x = c) (map snd cs))" for cs
    by (induction cs) auto
  from this [of "srv_conns s"] assms show ?thesis by (auto simp: deref_def assign_def)
qed

lemma assign_sel [simp]:
  "srv_db (assign conn s) = srv_db s" "srv_opts (assign conn s) = srv_opts s"
  "srv_stats (assign conn s) = srv_stats s" "srv_quit (assign conn s) = srv_quit s"
  "next_client_id (assign conn s) = next_client_id s" "srv_disk (assign conn s) = srv_disk s"
  "srv_children (assign conn s) = srv_children s" "sent (assign conn s) = sent s"
  "length (srv_conns (assign conn s)) = length (srv_conns s)"
  "map fst (srv_conns (assign conn s)) = map fst (srv_conns s)"
  "map (conn_id \<circ> snd) (srv_conns (assign conn s)) = map (conn_id \<circ> snd) (srv_conns s)"
  by (auto simp: assign_def case_prod_beta)

lemma deref_cong: "srv_conns s' = srv_conns s \<Longrightarrow> deref c s' = deref c s"
  by (simp add: deref_def)

text \<open>Writing through a reference keeps the server well-formed.\<close>

lemma assign_ok:
  assumes "core_ok s" and "deref (conn_id conn) s = Some old" and "conn_fd conn = conn_fd old"
    and "client_ok (conn_state conn)"
  shows "core_ok (assign conn s)"
proof -
  have old: "conn_fd old = fd" if "(fd, x) \<in> set (srv_conns s)" "conn_id x = conn_id conn" for fd x
  proof -
    obtain fd' where fd': "(fd', old) \<in> set (srv_conns s)" "conn_id old = conn_id conn"
      by (rule deref_Some [OF assms(2)])
    have d: "inj_on (conn_id \<circ> snd) (set (srv_conns s))" "conn_fd x = fd"
      using assms(1) that(1) by (auto simp: core_ok_def conns_ok_def distinct_map list_all_iff)
    from inj_onD [OF d(1), of "(fd, x)" "(fd', old)"] that fd' d(2) show ?thesis by simp
  qed
  have "list_all (\<lambda>(fd, conn). conn_fd conn = fd \<and> conn_id conn < next_client_id s \<and> client_ok (conn_state conn))
     (srv_conns (assign conn s))"
    using assms(1,3,4) deref_alive(4) [OF assms(1,2)] old
    by (auto simp: assign_def list_all_iff core_ok_def conns_ok_def split: if_splits)
  with assms(1) show ?thesis unfolding core_ok_def conns_ok_def by simp
qed

section \<open>Closing a connection\<close>

lemma erase_ok:
  assumes "core_ok s" and "deref c s = Some conn"
  shows "core_ok (erase_conn (conn_fd conn) s)"
    and "set (srv_conns (erase_conn (conn_fd conn) s)) = set (srv_conns s) - {(conn_fd conn, conn)}"
proof -
  let ?fd = "conn_fd conn" and ?cs = "srv_conns s"
  have d: "distinct (map fst ?cs)" using assms(1) by (simp add: core_ok_def conns_ok_def)
  note m = deref_alive(1) [OF assms]
  note l = delete_length [OF d m] and ds = delete_set [OF d m]
  have "distinct (map (conn_id \<circ> snd) (AList.delete ?fd ?cs))" "distinct (map fst (AList.delete ?fd ?cs))"
    using assms(1) by (auto simp: core_ok_def conns_ok_def AList.delete_eq distinct_map_filter)
  then show "core_ok (erase_conn ?fd s)"
    using assms(1) l by (auto simp: core_ok_def conns_ok_def erase_conn_def list_all_iff ds)
  show "set (srv_conns (erase_conn ?fd s)) = set ?cs - {(?fd, conn)}" by (simp add: erase_conn_def ds)
qed

lemma deref_iff:
  assumes "core_ok s"
  shows "deref c s = Some conn \<longleftrightarrow> (conn_fd conn, conn) \<in> set (srv_conns s) \<and> conn_id conn = c"
proof
  assume d: "deref c s = Some conn"
  from deref_alive(1,2) [OF assms d] map_of_SomeD show "(conn_fd conn, conn) \<in> set (srv_conns s) \<and> conn_id conn = c"
    by fastforce
next
  assume a: "(conn_fd conn, conn) \<in> set (srv_conns s) \<and> conn_id conn = c"
  then have "conn \<in> set (map snd (srv_conns s))" by force
  with a have "deref c s \<noteq> None" unfolding deref_def find_None_iff by blast
  then obtain x where x: "deref c s = Some x" by blast
  from x obtain fd where fd: "(fd, x) \<in> set (srv_conns s)" "conn_id x = c" by (rule deref_Some)
  have "inj_on (conn_id \<circ> snd) (set (srv_conns s))"
    using assms by (simp add: core_ok_def conns_ok_def distinct_map)
  from inj_onD [OF this, of "(fd, x)" "(conn_fd conn, conn)"] fd a x show "deref c s = Some conn" by simp
qed

lemma deref_erase:
  assumes "core_ok s" and "deref c s = Some conn"
  shows "deref c' (erase_conn (conn_fd conn) s) = (if c' = c then None else deref c' s)"
proof -
  have "x = conn" if "(conn_fd x, x) \<in> set (srv_conns s)" "conn_id x = c" for x
    using that assms deref_iff [OF assms(1), of c x] by simp
  then have "deref c' (erase_conn (conn_fd conn) s) = Some x \<longleftrightarrow> c' \<noteq> c \<and> deref c' s = Some x" for x
    using deref_alive(2) [OF assms]
    unfolding deref_iff [OF erase_ok(1) [OF assms]] deref_iff [OF assms(1)] erase_ok(2) [OF assms] by auto
  then show ?thesis by (metis option.exhaust)
qed

lemma CloseConn_alive:
  assumes "core_ok s" and "deref c s = Some conn"
  shows "CloseConn c s = Inr (erase_conn (conn_fd conn) s)"
  using assms deref_alive(1) [OF assms] by (simp add: CloseConn_def)

lemma registered_all:
  assumes "core_ok s"
  shows "list_all (registered \<circ> snd) (srv_conns s) \<longleftrightarrow> (\<forall>c conn. deref c s = Some conn \<longrightarrow> registered conn)"
proof -
  have "deref (conn_id (snd x)) s = Some (snd x)" if "x \<in> set (srv_conns s)" for x
    using assms that unfolding deref_iff [OF assms] by (auto simp: core_ok_def conns_ok_def list_all_iff)
  moreover have "conn \<in> snd ` set (srv_conns s)" if "deref c s = Some conn" for c conn
    using that unfolding deref_iff [OF assms] by force
  ultimately show ?thesis unfolding list_all_iff comp_def by blast
qed

section \<open>What a handler leaves alone\<close>

text \<open>Every connection but one, with what was sent on it.\<close>

definition others :: "nat \<Rightarrow> Server \<Rightarrow> Server \<Rightarrow> bool" where
  "others c s s' \<longleftrightarrow> next_client_id s' = next_client_id s \<and>
     (\<forall>c'. c' \<noteq> c \<longrightarrow> deref c' s' = deref c' s \<and> sent s' c' = sent s c')"

lemma others_refl: "others c s s"
  by (simp add: others_def)

lemma others_trans: "others c s s1 \<Longrightarrow> others c s1 s2 \<Longrightarrow> others c s s2"
  by (simp add: others_def)

lemma others_assign:
  "deref (conn_id conn) s \<noteq> None \<Longrightarrow> others (conn_id conn) s (assign conn s)"
  by (simp add: others_def deref_assign)

lemma others_erase: "core_ok s \<Longrightarrow> deref c s = Some conn \<Longrightarrow> others c s (erase_conn (conn_fd conn) s)"
  using deref_erase [of s c conn] by (simp add: others_def erase_conn_def)

text \<open>A client's own id and the count of clients are not changed by any command.\<close>

definition same_client :: "world \<Rightarrow> world \<Rightarrow> bool" where
  "same_client w w' \<longleftrightarrow> client_id (w_cs w') = client_id (w_cs w) \<and>
     connected_clients (w_stats w') = connected_clients (w_stats w)"

lemma same_client_reply [simp]: "same_client w (reply f w)"
  by (simp add: same_client_def)

lemma ServerCommand_client:
  "each (\<lambda>r. \<forall>w'. r = Inr w' \<longrightarrow> same_client w w') (ServerCommand e upper argv w)"
  unfolding ServerCommand_def
  by (intro each_rules)
    (auto simp: same_client_def CmdPing_def CmdSelect_def CmdHello_def CmdTime_def CmdSave_def CmdBgSave_def CmdInfo_def
      CmdShutdown_def CmdConfig_def CmdClient_def CmdMemory_def Let_def case_prod_beta
      split: if_splits option.splits sum.splits)

lemma CmdKeys_client:
  "connected_clients (fst (snd (CmdKeys now i argv d st out))) = connected_clients st"
  "connected_clients (fst (snd (CmdRandomKey r now i d st out))) = connected_clients st"
  by (auto simp: CmdKeys_def CmdRandomKey_def foldl_count_eq Let_def case_prod_beta split: if_splits)

lemma RunCommand_client:
  assumes "RunCommand e upper argv w = Some (Inr w')"
  shows "same_client w w'"
  using assms ServerCommand_client [of w e upper argv]
  by (auto simp: RunCommand_def each_def Let_def same_client_def bind_result_Inr_iff case_prod_beta CmdKeys_client
      split: option.splits if_splits)

lemma DispatchStep_client:
  assumes "\<And>envs argv w w'. run envs argv w = Inr w' \<Longrightarrow> same_client w w'"
    and "DispatchStep run envs argv w = Inr w'"
  shows "same_client w w'"
proof -
  have loop: "same_client w w'" if "ExecLoop run envs i q w = Inr w'" for i q w
    using that
  proof (induction q arbitrary: i w)
    case (Cons argv q)
    then obtain w1 where "run (\<lambda>p. envs (i # p)) argv w = Inr w1" "ExecLoop run envs (Suc i) q w1 = Inr w'"
      by (auto simp: bind_result_Inr_iff)
    with assms(1) Cons.IH show ?case by (fastforce simp: same_client_def)
  qed (simp add: same_client_def)
  have "same_client w w'" if "CmdExec run envs w = Inr w'"
    using that by (auto simp: CmdExec_def Let_def same_client_def split: if_splits dest!: loop)
  with assms(2) RunCommand_client [of "envs []" "ToUpper (argv ! 0)" argv w w'] show ?thesis
    by (cases "RunCommand (envs []) (ToUpper (argv ! 0)) argv w")
      (auto simp: DispatchStep_def Let_def Enqueue_def CmdMulti_def CmdDiscard_def same_client_def split: if_splits)
qed

lemma Dispatch_client: "Dispatch n envs argv w = Inr w' \<Longrightarrow> same_client w w'"
proof (induction n arbitrary: envs argv w w')
  case (Suc n)
  from Suc.prems have "DispatchStep (Dispatch n) envs argv w = Inr w'" by simp
  with Suc.IH show ?case by (rule DispatchStep_client)
qed simp

section \<open>The handlers keep the invariant\<close>

text \<open>
  A handler of connection \<open>c\<close> keeps the server well-formed and the other connections as they
  are. If \<open>done\<close> holds it leaves the output of \<open>c\<close> registered, should \<open>c\<close> still be open.
\<close>

definition handles :: "bool \<Rightarrow> nat \<Rightarrow> Server \<Rightarrow> Server \<Rightarrow> bool" where
  "handles fin c s s' \<longleftrightarrow> core_ok s' \<and> others c s s' \<and> (srv_quit s \<longrightarrow> srv_quit s') \<and>
     (fin \<longrightarrow> (\<forall>conn. deref c s' = Some conn \<longrightarrow> registered conn))"

lemma handles_trans: "handles b c s s1 \<Longrightarrow> handles fin c s1 s2 \<Longrightarrow> handles fin c s s2"
  using others_trans by (auto simp: handles_def)

lemma handles_assign:
  assumes "core_ok s" and "deref c s = Some old" and "conn_id conn = c" and "conn_fd conn = conn_fd old"
    and "client_ok (conn_state conn)" and "fin \<Longrightarrow> registered conn"
  shows "handles fin c s (assign conn s)"
  using assms assign_ok [of s conn old] others_assign [of conn s] by (auto simp: handles_def deref_assign)

lemma handles_close:
  assumes "core_ok s" and "deref c s = Some conn" and "CloseConn c s = Inr s'"
  shows "handles fin c s s'"
  using assms CloseConn_alive [OF assms(1,2)] erase_ok(1) [OF assms(1,2)] others_erase [OF assms(1,2)]
    deref_erase [OF assms(1,2)] by (auto simp: handles_def erase_conn_def)

lemma EnableWrite_sel [simp]:
  "conn_fd (EnableWrite b conn) = conn_fd conn" "conn_state (EnableWrite b conn) = conn_state conn"
  "conn_out (EnableWrite b conn) = conn_out conn" "want_write (EnableWrite b conn) = b"
  "conn_parser (EnableWrite b conn) = conn_parser conn"
  by (auto simp: EnableWrite_def)

lemma transmit_ok:
  assumes "core_ok s" and "deref c s = Some conn"
  shows "handles False c s (transmit n conn s)"
    and "deref c (transmit n conn s) = Some (conn\<lparr>conn_out := drop n (conn_out conn)\<rparr>)"
    and "sent (transmit n conn s) c = sent s c @ take n (conn_out conn)"
    and "srv_db (transmit n conn s) = srv_db s" and "srv_quit (transmit n conn s) = srv_quit s"
    and "srv_stats (transmit n conn s) = srv_stats s"
proof -
  let ?conn = "conn\<lparr>conn_out := drop n (conn_out conn)\<rparr>"
  note c = deref_alive(2,3) [OF assms]
  have h: "handles False c s (assign ?conn s)" using assms c by (intro handles_assign) simp_all
  then show "handles False c s (transmit n conn s)"
    using c(1) deref_cong [of "transmit n conn s" "assign ?conn s"]
    by (auto simp: handles_def others_def transmit_def core_ok_def)
  show "deref c (transmit n conn s) = Some ?conn"
    using c(1) assms(2) deref_cong [of "transmit n conn s" "assign ?conn s"]
    by (simp add: transmit_def deref_assign)
qed (use deref_alive(2) [OF assms] in \<open>simp_all add: transmit_def\<close>)

lemma OnWritable_step:
  assumes "deref c s = Some conn" and "conn_out conn \<noteq> []"
  shows "OnWritable (Wrote n # ws) c s = (if n > 0 then OnWritable ws c (transmit n conn s) else CloseConn c s)"
    and "OnWritable (WriteIntr # ws) c s = OnWritable ws c s" and "OnWritable (WriteFail # ws) c s = CloseConn c s"
  using assms by (simp_all add: OnWritable.simps [of "x # ws" for x])

lemma OnWritable_empty:
  "deref c s = Some conn \<Longrightarrow> conn_out conn = [] \<Longrightarrow> OnWritable ws c s = Inr (assign (EnableWrite False conn) s)"
  by (simp add: OnWritable.simps)

text \<open>On an open connection \<open>OnWritable\<close> is always defined.\<close>

lemma OnWritable_ok:
  assumes "core_ok s" and "deref c s = Some conn"
  shows "\<exists>s'. OnWritable ws c s = Inr s' \<and> handles True c s s' \<and> srv_db s' = srv_db s \<and> srv_quit s' = srv_quit s"
  using assms
proof (induction ws arbitrary: s conn)
  case Nil
  note c = deref_alive(2,3) [OF Nil]
  have "handles True c s (assign (EnableWrite (conn_out conn \<noteq> []) conn) s)"
    using Nil c by (intro handles_assign) (auto simp: registered_def)
  then show ?case using Nil(2) by (cases "conn_out conn = []") (simp_all add: OnWritable.simps [of "[]"])
next
  case (Cons a ws)
  note c = deref_alive(2,3) [OF Cons.prems]
  show ?case
  proof (cases "conn_out conn = []")
    case True
    then have "handles True c s (assign (EnableWrite False conn) s)"
      using Cons.prems c by (intro handles_assign) (auto simp: registered_def)
    with True Cons.prems(2) show ?thesis by (simp add: OnWritable_empty)
  next
    case False
    let ?closed = "erase_conn (conn_fd conn) s"
    have cl: "CloseConn c s = Inr ?closed" "handles True c s ?closed" "srv_db ?closed = srv_db s" "srv_quit ?closed = srv_quit s"
      using CloseConn_alive [OF Cons.prems] handles_close [OF Cons.prems] by (simp_all add: erase_conn_def)
    show ?thesis
    proof (cases a)
      case (Wrote n)
      note t = transmit_ok [OF Cons.prems, of n]
      have "core_ok (transmit n conn s)" using t(1) by (simp add: handles_def)
      from Cons.IH [OF this t(2)] handles_trans [OF t(1)] t(4,5) show ?thesis
        using Wrote False Cons.prems(2) cl by (auto simp: OnWritable_step)
    qed (use False Cons cl in \<open>simp_all add: OnWritable_step\<close>)
  qed
qed

lemma of_world_ok:
  assumes s: "core_ok s" "deref c s = Some conn" and w: "world_ok w" "same_client (to_world conn s) w" "w_opts w = srv_opts s"
  shows "handles False c s (of_world conn w s)"
    and "deref c (of_world conn w s) = Some (conn\<lparr>conn_state := w_cs w, conn_out := w_out w\<rparr>)"
proof -
  let ?s = "s\<lparr>srv_db := w_db w, srv_opts := w_opts w, srv_stats := w_stats w, srv_disk := w_disk w,
          srv_children := w_children w\<rparr>"
  let ?conn = "conn\<lparr>conn_state := w_cs w, conn_out := w_out w\<rparr>"
  note c = deref_alive(2,3) [OF s]
  have d: "deref c' ?s = deref c' s" for c' by (rule deref_cong) simp
  have id: "conn_id ?conn = c" using w(2) c(1) by (simp add: same_client_def to_world_def)
  have "core_ok ?s" using s(1) w by (simp add: core_ok_def world_ok_def same_client_def to_world_def)
  moreover have "client_ok (conn_state ?conn)" using w(1) by (simp add: client_ok_def world_ok_def)
  ultimately have h: "handles False c ?s (assign ?conn ?s)"
    using s(2) id by (intro handles_assign [where old = conn]) (simp_all add: d)
  then show "handles False c s (of_world conn w s)"
    by (simp add: handles_def others_def of_world_def d)
  show "deref c (of_world conn w s) = Some ?conn"
    using deref_assign [of ?conn ?s c] id s(2) by (simp add: of_world_def d)
qed

lemma RunOne_ok:
  assumes s: "core_ok s" "deref c s = Some conn" and a: "argv \<noteq> []" and r: "RunOne envs argv c s = Inr s'"
  shows "handles False c s s'"
    and "\<exists>w. Dispatch 2 envs argv (to_world conn (s\<lparr>srv_stats := (srv_stats s)\<lparr>total_commands := total_commands (srv_stats s) + 1\<rparr>\<rparr>)) = Inr w \<and>
      deref c s' = Some (conn\<lparr>conn_state := w_cs w, conn_out := w_out w\<rparr>) \<and> srv_stats s' = w_stats w \<and> srv_db s' = w_db w"
proof -
  let ?s = "s\<lparr>srv_stats := (srv_stats s)\<lparr>total_commands := total_commands (srv_stats s) + 1\<rparr>\<rparr>"
  obtain w where w: "Dispatch 2 envs argv (to_world conn ?s) = Inr w" "s' = of_world conn w ?s"
    using r s(2) by (auto simp: RunOne_def Let_def bind_result_Inr_iff)
  have d: "deref c' ?s = deref c' s" for c' by (rule deref_cong) simp
  have s1: "core_ok ?s" "deref c ?s = Some conn" using s d by (simp_all add: core_ok_def)
  have wo: "world_ok (to_world conn ?s)" using world_ok_client [OF s1(1) deref_alive(3) [OF s1]] .
  have "world_ok w \<and> w_opts w = srv_opts ?s"
    using Dispatch_called [OF wo a w(1)] by (simp add: to_world_def)
  then have o: "handles False c ?s s'" "deref c s' = Some (conn\<lparr>conn_state := w_cs w, conn_out := w_out w\<rparr>)"
    using of_world_ok [OF s1 _ Dispatch_client [OF w(1)]] w(2) by auto
  from o(1) show "handles False c s s'" unfolding handles_def others_def d by simp
  show "\<exists>w. Dispatch 2 envs argv (to_world conn ?s) = Inr w \<and>
      deref c s' = Some (conn\<lparr>conn_state := w_cs w, conn_out := w_out w\<rparr>) \<and> srv_stats s' = w_stats w \<and> srv_db s' = w_db w"
    using w o(2) by (simp add: of_world_def)
qed

lemma handles_refl: "core_ok s \<Longrightarrow> handles False c s s"
  by (simp add: handles_def others_refl)

lemma RunCommands_ok:
  assumes "core_ok s" and "deref c s = Some conn" and "RunCommands envs i cmds c s = Inr s'"
  shows "handles False c s s' \<and> deref c s' \<noteq> None"
  using assms
proof (induction cmds arbitrary: i s conn)
  case Nil
  then show ?case by (simp add: handles_refl)
next
  case (Cons argv cmds)
  show ?case
  proof (cases "argv = []")
    case True
    with Cons show ?thesis by simp
  next
    case False
    with Cons.prems(3) obtain s1 where s1: "RunOne (envs i) argv c s = Inr s1"
      "s' = s1 \<or> RunCommands envs (Suc i) cmds c s1 = Inr s'"
      by (auto simp: bind_result_Inr_iff split: if_splits)
    note r = RunOne_ok [OF Cons.prems(1,2) False s1(1)]
    from r(2) obtain conn1 where d: "deref c s1 = Some conn1" by blast
    have "core_ok s1" using r(1) by (simp add: handles_def)
    with s1(2) Cons.IH [OF _ d] handles_trans [OF r(1)] r(1) d show ?thesis by auto
  qed
qed

lemma FlushConn_ok:
  assumes "core_ok s" and "deref c s = Some conn" and "FlushConn ws c s = Inr s'"
  shows "handles True c s s'"
  using assms OnWritable_ok [OF assms(1,2), of ws]
  by (auto simp: FlushConn_def handles_def others_refl registered_def split: if_splits)

lemma QuitConn_ok:
  assumes "core_ok s" and "deref c s = Some conn" and "QuitConn ws c s = Inr s'"
  shows "handles True c s s'"
proof -
  obtain s1 where s1: "OnWritable ws c s = Inr s1" "handles True c s s1"
    using OnWritable_ok [OF assms(1,2), of ws] by blast
  then obtain conn1 where c1: "deref c s1 = Some conn1" "s' = s1 \<or> CloseConn c s1 = Inr s'"
    using assms(3) by (auto simp: QuitConn_def split: option.splits if_splits)
  have "core_ok s1" using s1(2) by (simp add: handles_def)
  with c1 handles_close [OF _ c1(1)] handles_trans [OF s1(2)] s1(2) show ?thesis by blast
qed

lemma FailConn_ok:
  assumes "core_ok s" and "deref c s = Some conn" and "FailConn ws c s = Inr s'"
  shows "handles True c s s'"
proof -
  let ?conn = "conn\<lparr>conn_out := AppendErrorReply (conn_out conn) (parser_error (conn_parser conn))\<rparr>"
  let ?s = "assign ?conn s"
  note c = deref_alive(2,3) [OF assms(1,2)]
  have h: "handles False c s ?s" using assms(1,2) c by (intro handles_assign) simp_all
  then have s: "core_ok ?s" "deref c ?s = Some ?conn" using c(1) assms(2) by (simp_all add: handles_def deref_assign)
  obtain s1 where s1: "OnWritable ws c ?s = Inr s1" "handles True c ?s s1"
    using OnWritable_ok [OF s, of ws] by blast
  then have cl: "CloseConn c s1 = Inr s'" using assms(2,3) by (simp add: FailConn_def)
  then obtain conn1 where "deref c s1 = Some conn1" by (auto simp: CloseConn_def split: option.splits)
  with cl handles_close [of s1 c conn1 s' True] s1(2) have "handles True c s1 s'" by (simp add: handles_def)
  with handles_trans [OF h handles_trans [OF s1(2)]] show ?thesis by blast
qed

lemma OnReadable_ok:
  assumes s: "core_ok s" "deref c s = Some conn" and r: "OnReadable envs rs ws c s = Inr s'"
  shows "handles (\<not> srv_quit s') c s s'"
proof -
  obtain p fin where p: "ReadLoop rs (conn_parser conn) [] = (p, fin)" by fastforce
  let ?conn = "conn\<lparr>conn_parser := p\<rparr>"
  let ?s = "assign ?conn s"
  note c = deref_alive(2,3) [OF s]
  have h: "handles False c s ?s" using s c by (intro handles_assign) simp_all
  then have s0: "core_ok ?s" "deref c ?s = Some ?conn" using c(1) s(2) by (simp_all add: handles_def deref_assign)
  note weak = handles_trans [OF h, of True s']
  have weaken: "handles b c s s'" if "handles True c s s'" for b using that by (simp add: handles_def)
  show ?thesis
  proof (cases fin)
    case (Drained cmds)
    then obtain s1 where s1: "RunCommands envs 0 cmds c ?s = Inr s1"
      "(if shutdown_requested (srv_stats s1) then Inr (s1\<lparr>srv_quit := True\<rparr>)
        else if wants_quit c s1 then QuitConn ws c s1 else FlushConn ws c s1) = Inr s'"
      using r s(2) p by (auto simp: OnReadable_def bind_result_Inr_iff)
    from RunCommands_ok [OF s0 s1(1)] obtain conn1 where h1: "handles False c ?s s1" "deref c s1 = Some conn1" by blast
    have k: "core_ok s1" using h1(1) by (simp add: handles_def)
    have "handles True c s1 s'" if "\<not> shutdown_requested (srv_stats s1)"
      using s1(2) that QuitConn_ok [OF k h1(2)] FlushConn_ok [OF k h1(2)] by (auto split: if_splits)
    with weak handles_trans [OF h1(1)] have "\<not> shutdown_requested (srv_stats s1) \<Longrightarrow> handles True c s s'" by blast
    moreover have "handles False c s s' \<and> srv_quit s'" if "shutdown_requested (srv_stats s1)"
      using s1(2) that handles_trans [OF h h1(1)] deref_cong [of s' s1]
      by (auto simp: handles_def others_def core_ok_def)
    ultimately show ?thesis using weaken by (cases "shutdown_requested (srv_stats s1)") (auto simp: handles_def)
  qed (use r p s(2) s0 weaken weak handles_close [OF s0] FailConn_ok [OF s0] in \<open>auto simp: OnReadable_def\<close>)
qed

lemma accept_ok:
  assumes "core_ok s" and "fd \<notin> fst ` set (srv_conns s)"
  shows "core_ok (accept_conn fd s)" and "srv_conns (accept_conn fd s) = srv_conns s @ [(fd, new_connection fd (next_client_id s))]"
proof -
  have u: "AList.update fd x (srv_conns s) = srv_conns s @ [(fd, x)]" for x
    using assms(2) by (rule update_new)
  then show "srv_conns (accept_conn fd s) = srv_conns s @ [(fd, new_connection fd (next_client_id s))]"
    by (simp add: accept_conn_def)
  have "client_ok (conn_state (new_connection fd n))" for n
    by (simp add: client_ok_def new_connection_def new_client_def queue_ok_def kNumDatabases_def)
  moreover have "conn_id (new_connection fd n) = n" "conn_fd (new_connection fd n) = fd" for n
    by (simp_all add: new_connection_def)
  ultimately show "core_ok (accept_conn fd s)"
    using assms u by (fastforce simp: core_ok_def conns_ok_def accept_conn_def list_all_iff)
qed

lemma ExpireDb_good:
  assumes "db_good d" and "i < kNumDatabases"
  shows "db_good (fst (ExpireDb now rng (d, a) i))"
proof -
  have "entries_ok (swept now rng i (table i d))" "table_ok (swept now rng i (table i d))"
    using db_good_table [OF assms] swept_subset [of now rng i "table i d"]
    by (auto simp: entries_ok_def intro: table_ok_swept)
  then show ?thesis by (intro db_good_set_table [OF assms(1)]) (simp_all add: ExpireDb_eq)
qed

lemma PeriodicTasks_ok: "core_ok s \<Longrightarrow> core_ok (PeriodicTasks now rng s)"
proof -
  have "db_good (fst (foldl (ExpireDb now rng) (d, a) [0..<m]))" if "db_good d" "m \<le> kNumDatabases" for d a m
    using that
  proof (induction m)
    case (Suc m)
    then show ?case
      using ExpireDb_good [of "fst (foldl (ExpireDb now rng) (d, a) [0..<m])" m now rng
          "snd (foldl (ExpireDb now rng) (d, a) [0..<m])"] by simp
  qed simp
  then show "core_ok s \<Longrightarrow> core_ok (PeriodicTasks now rng s)"
    by (simp add: core_ok_def PeriodicTasks_def Let_def case_prod_beta ActiveExpireCycle_def)
qed

section \<open>The transition system\<close>

text \<open>
  One rule per handler, for any answers of the kernel and any environment of the commands. The
  kernel never hands out a descriptor that is in use.
\<close>

inductive server_step :: "Server \<Rightarrow> Server \<Rightarrow> bool" where
  accept: "fd \<notin> fst ` set (srv_conns s) \<Longrightarrow> server_step s (accept_conn fd s)"
| readable: "deref c s = Some conn \<Longrightarrow> OnReadable envs rs ws c s = Inr s' \<Longrightarrow> server_step s s'"
| writable: "deref c s = Some conn \<Longrightarrow> OnWritable ws c s = Inr s' \<Longrightarrow> server_step s s'"
| signal: "server_step s (RequestShutdown True s)"
| periodic: "server_step s (PeriodicTasks now rng s)"
| child: "server_step s (child_exit i flt s)"

inductive reachable :: "Server \<Rightarrow> Server \<Rightarrow> bool" for s0 where
  start: "reachable s0 s0"
| step: "reachable s0 s \<Longrightarrow> server_step s t \<Longrightarrow> reachable s0 t"

lemma handles_server_ok:
  assumes "server_ok s" and "handles (\<not> srv_quit s') c s s'"
  shows "server_ok s'"
proof (cases "srv_quit s'")
  case False
  have k: "core_ok s" "core_ok s'" using assms by (simp_all add: server_ok_def handles_def)
  have "registered conn" if "deref c' s' = Some conn" for c' conn
    using assms False that unfolding server_ok_def registered_all [OF k(1)] handles_def others_def
    by (cases "c' = c") auto
  with k(2) show ?thesis by (simp add: server_ok_def registered_all)
qed (use assms in \<open>simp add: server_ok_def handles_def\<close>)

lemma step_ok: "server_step s t \<Longrightarrow> server_ok s \<Longrightarrow> server_ok t"
proof (induction rule: server_step.induct)
  case (accept fd s)
  then show ?case
    using accept_ok [of s fd] by (auto simp: server_ok_def registered_def new_connection_def accept_conn_def)
next
  case (readable c s conn envs rs ws s')
  then show ?case using OnReadable_ok [of s c conn] handles_server_ok [of s s' c] by (auto simp: server_ok_def)
next
  case (writable c s conn ws s')
  then have "handles True c s s'" using OnWritable_ok [of s c conn ws] by (auto simp: server_ok_def)
  with writable show ?case by (intro handles_server_ok [of s s' c]) (auto simp: handles_def)
next
  case (periodic s now rng)
  then show ?case using PeriodicTasks_ok [of s now rng] by (auto simp: server_ok_def PeriodicTasks_def case_prod_beta Let_def)
qed (auto simp: server_ok_def core_ok_def RequestShutdown_def child_exit_def)

lemma reachable_ok: "reachable s0 s \<Longrightarrow> server_ok s0 \<Longrightarrow> server_ok s"
  by (induction rule: reachable.induct) (auto intro: step_ok)

lemma reachable_trans: "reachable s t \<Longrightarrow> reachable s0 s \<Longrightarrow> reachable s0 t"
  by (induction rule: reachable.induct) (auto intro: reachable.step)

lemma reachable_one: "server_step s t \<Longrightarrow> reachable s t"
  by (rule reachable.step [OF reachable.start])

section \<open>The event loop runs inside the transition system\<close>

fun fresh_fds :: "accept_result list \<Rightarrow> int set \<Rightarrow> bool" where
  "fresh_fds (Accepted fd # acs) F \<longleftrightarrow> fd \<notin> F \<and> fresh_fds acs (insert fd F)"
| "fresh_fds (AcceptIntr # acs) F \<longleftrightarrow> fresh_fds acs F"
| "fresh_fds _ F \<longleftrightarrow> True"

fun events_ok :: "event list \<Rightarrow> Server \<Rightarrow> bool" where
  "events_ok [] s = True"
| "events_ok (ev # evs) s \<longleftrightarrow>
     (case ev of ListenEvent acs \<Rightarrow> fresh_fds acs (fst ` set (srv_conns s)) | _ \<Rightarrow> True) \<and>
     (\<forall>s'. HandleEvent ev s = Inr s' \<longrightarrow> events_ok evs s')"

fun polls_ok :: "poll list \<Rightarrow> Server \<Rightarrow> bool" where
  "polls_ok [] s = True"
| "polls_ok (Poll evs now rng # ps) s \<longleftrightarrow> events_ok evs s \<and>
     (\<forall>s'. HandleEvents evs s = Inr s' \<longrightarrow> polls_ok ps (PeriodicTasks now rng s'))"
| "polls_ok (ChildExit i flt # ps) s \<longleftrightarrow> polls_ok ps (child_exit i flt s)"
| "polls_ok (p # ps) s \<longleftrightarrow> polls_ok ps s"

lemma OnAccept_reachable:
  "fresh_fds acs (fst ` set (srv_conns s)) \<Longrightarrow> reachable s (OnAccept acs s)"
proof (induction acs s rule: OnAccept.induct)
  case (2 fd rest s)
  have "srv_conns (accept_conn fd s) = srv_conns s @ [(fd, new_connection fd (next_client_id s))]"
    using 2(2) by (simp add: accept_conn_def update_new)
  with 2 have "reachable (accept_conn fd s) (OnAccept rest (accept_conn fd s))" by simp
  moreover have "reachable s (accept_conn fd s)" using 2(2) by (intro reachable_one server_step.accept) simp
  ultimately show ?case by (simp add: reachable_trans)
qed (auto intro: reachable.start)

lemma HandleEvent_reachable:
  assumes "events_ok [ev] s" and "HandleEvent ev s = Inr s'"
  shows "reachable s s'"
  using assms
  by (cases ev) (auto simp: lookup_conn_def split: option.splits if_splits
      intro: reachable.start reachable_one server_step.intros OnAccept_reachable)

lemma HandleEvents_reachable:
  "events_ok evs s \<Longrightarrow> HandleEvents evs s = Inr s' \<Longrightarrow> reachable s s'"
proof (induction evs arbitrary: s)
  case (Cons ev evs)
  then obtain s1 where s1: "HandleEvent ev s = Inr s1" "HandleEvents evs s1 = Inr s'"
    by (auto simp: bind_result_Inr_iff)
  with Cons have "reachable s1 s'" by simp
  moreover have "reachable s s1" using Cons.prems(1) s1(1) by (intro HandleEvent_reachable [of ev]) simp_all
  ultimately show ?case by (rule reachable_trans)
qed (simp add: reachable.start)

lemma RunLoop_reachable: "polls_ok ps s \<Longrightarrow> RunLoop ps s = Inr (s', ended) \<Longrightarrow> reachable s s'"
proof (induction ps s rule: polls_ok.induct)
  case (2 evs now rng ps s)
  show ?case
  proof (cases "srv_quit s")
    case True
    with 2 show ?thesis by (simp add: RunLoop.simps [of "_ # _"] reachable.start)
  next
    case False
    with 2(3) obtain s1 where s1: "HandleEvents evs s = Inr s1" "RunLoop ps (PeriodicTasks now rng s1) = Inr (s', ended)"
      by (auto simp: RunLoop.simps [of "_ # _"] bind_result_Inr_iff)
    with 2 have "reachable (PeriodicTasks now rng s1) s'" by simp
    moreover have "reachable s s1" using 2(2) s1(1) by (intro HandleEvents_reachable [of evs]) simp_all
    ultimately show ?thesis by (meson reachable.step reachable_trans server_step.periodic)
  qed
next
  case (3 i flt ps s)
  then show ?case
    by (cases "srv_quit s")
      (auto simp: RunLoop.simps [of "_ # _"] intro: reachable.start reachable_trans [OF _ reachable_one] server_step.child)
qed (auto simp: RunLoop.simps [of "[]"] RunLoop.simps [of "_ # _"] intro: reachable.start split: if_splits)

end
