(* ===== verification/RdbCrc.thy ===== *)
theory RdbCrc
  imports Rdb
begin

text \<open>
  The checksum of the snapshot file. The table-driven loop computes the bitwise CRC, which is
  injective in the state and in each byte; reading gathers the bits of the bytes.
\<close>

unbundle bit_operations_syntax

section \<open>The CRC, bit by bit\<close>

lemma crc_bit_xor: "crc_bit (x XOR y) = crc_bit x XOR crc_bit y"
proof -
  have "crc_bit c = (if bit c 0 then 0xEDB88320 else 0) XOR drop_bit 1 c" for c
    by (simp add: crc_bit_def bit_0 and_one_eq odd_iff_mod_2_eq_one)
  then show ?thesis by (auto simp: bit_xor_iff ac_simps)
qed

lemma crc_bits_xor: "(crc_bit ^^ n) (x XOR y) = (crc_bit ^^ n) x XOR (crc_bit ^^ n) y"
  by (induction n) (simp_all add: crc_bit_xor)

lemma crc_bits_shift: "take_bit n c = 0 \<Longrightarrow> (crc_bit ^^ n) c = drop_bit n c"
proof (induction n arbitrary: c)
  case (Suc n)
  have "even c" using Suc.prems by (metis even_take_bit_eq even_zero zero_less_Suc gr0_conv_Suc nat.distinct(1))
  then have "crc_bit c = drop_bit 1 c" by (simp add: crc_bit_def and_one_eq even_iff_mod_2_eq_zero)
  moreover have "take_bit n (drop_bit 1 c) = 0"
    using Suc.prems by (simp add: take_bit_drop_bit)
  ultimately have "(crc_bit ^^ n) (crc_bit c) = drop_bit n (drop_bit 1 c)" using Suc.IH by simp
  then show ?case by (simp add: funpow_swap1)
qed simp

definition crc_ref_step :: "32 word \<Rightarrow> char \<Rightarrow> 32 word" where
  "crc_ref_step crc ch = (crc_bit ^^ 8) (crc XOR of_char ch)"

lemma crc_step_eq: "crc_step crc ch = crc_ref_step crc ch"
proof -
  let ?lo = "take_bit 8 crc XOR of_char ch" and ?hi = "push_bit 8 (drop_bit 8 crc)"
  have "crc = take_bit 8 crc XOR ?hi"
    by (rule bit_eqI) (auto simp: bit_simps)
  then have "crc XOR of_char ch = ?lo XOR ?hi" by (metis xor.assoc xor.commute)
  then have "crc_ref_step crc ch = (crc_bit ^^ 8) ?lo XOR (crc_bit ^^ 8) ?hi"
    unfolding crc_ref_step_def by (simp only: crc_bits_xor)
  also have "(crc_bit ^^ 8) ?hi = drop_bit 8 ?hi"
    by (rule crc_bits_shift) (simp add: take_bit_push_bit)
  also have "drop_bit 8 ?hi = drop_bit 8 crc"
  proof (rule bit_eqI)
    show "bit (drop_bit 8 ?hi) n = bit (drop_bit 8 crc) n" for n
      using bit_imp_le_length [of crc "8 + n"] by (auto simp: bit_simps)
  qed
  finally show ?thesis by (simp add: crc_step_def crc_table_def)
qed

lemma xor_cancel: "x XOR z = y XOR z \<longleftrightarrow> x = (y :: 'a::len word)"
  by (metis xor.assoc xor.right_neutral xor_self_eq)

lemma crc_bit_top: "bit (crc_bit c) 31 \<longleftrightarrow> bit c 0"
proof -
  have "crc_bit c = (if bit c 0 then 0xEDB88320 else 0) XOR drop_bit 1 c"
    by (simp add: crc_bit_def bit_0 and_one_eq odd_iff_mod_2_eq_one)
  moreover have "\<not> bit (drop_bit 1 c) 31" using bit_imp_le_length [of c 32] by (auto simp: bit_simps)
  moreover have "bit (0xEDB88320 :: 32 word) 31" by simp
  ultimately show ?thesis by (simp add: bit_xor_iff)
qed

lemma crc_bit_inj:
  assumes "crc_bit x = crc_bit y"
  shows "x = y"
proof (rule bit_eqI)
  have b0: "bit x 0 = bit y 0" using crc_bit_top [of x] crc_bit_top [of y] assms by simp
  then have "drop_bit 1 x = drop_bit 1 y"
    using assms by (auto simp: crc_bit_def bit_0 and_one_eq odd_iff_mod_2_eq_one xor.commute [of 3988292384]
        xor_cancel split: if_splits)
  then have "bit x (Suc n) = bit y (Suc n)" for n by (metis bit_drop_bit_eq plus_1_eq_Suc comp_apply)
  with b0 show "bit x n = bit y n" for n by (cases n) simp_all
qed

lemma crc_bits_inj: "(crc_bit ^^ n) x = (crc_bit ^^ n) y \<Longrightarrow> x = y"
  by (induction n) (auto dest: crc_bit_inj)

lemma of_nat_char: "of_nat (of_char c :: nat) = (of_char c :: 'a::len word)"
  by (cases c) (simp add: of_char_Char)

lemma of_char_word_inj: "(of_char a :: 32 word) = of_char b \<longleftrightarrow> a = b"
proof -
  have "unat (of_char c :: 32 word) = of_char c" for c :: char
  proof -
    have "(of_char c :: nat) < 4294967296" using nat_of_char_less_256 [of c] by linarith
    then show ?thesis using unat_of_nat [of "of_char c :: nat", where 'a = 32]
      by (simp add: of_nat_char)
  qed
  then show ?thesis by (metis of_char_eq_iff)
qed

lemma crc_fold_inj: "foldl crc_step x data = foldl crc_step y data \<Longrightarrow> x = y"
  by (induction data arbitrary: x y)
    (auto simp: crc_step_eq crc_ref_step_def dest!: crc_bits_inj xor_cancel [THEN iffD1])

lemma Crc32_one_byte:
  assumes "a \<noteq> b"
  shows "Crc32 (pre @ a # post) \<noteq> Crc32 (pre @ b # post)"
proof
  assume "Crc32 (pre @ a # post) = Crc32 (pre @ b # post)"
  then have "crc_step (foldl crc_step 0xFFFFFFFF pre) a = crc_step (foldl crc_step 0xFFFFFFFF pre) b"
    unfolding Crc32_def xor_cancel by (auto dest: crc_fold_inj)
  then have "foldl crc_step 0xFFFFFFFF pre XOR of_char a = foldl crc_step 0xFFFFFFFF pre XOR of_char b"
    unfolding crc_step_eq crc_ref_step_def by (rule crc_bits_inj)
  then have "(of_char a :: 32 word) = of_char b" by (metis xor.commute xor_cancel)
  with assms show False by (simp add: of_char_word_inj)
qed

section \<open>Bytes of words\<close>

lemma bit_of_char_word:
  "bit (of_char c :: 'a::len word) k \<longleftrightarrow> k < LENGTH('a) \<and> bit (of_char c :: nat) k"
  using bit_of_nat_iff [of "of_char c" k, where 'a = "'a word"] by (simp add: of_nat_char)

lemma bit_gather:
  "bit (gather buf pos n :: 'a::len word) j \<longleftrightarrow>
     j < 8 * n \<and> j < LENGTH('a) \<and> bit (of_char (buf ! (pos + j div 8)) :: nat) (j mod 8)"
proof (induction n)
  case (Suc n)
  have lt: "bit (of_char c :: nat) k \<Longrightarrow> k < 8" for c k
    using nat_of_char_less_256 [of c] bit_take_bit_iff [of 8 "of_char c :: nat" k]
    by (simp add: take_bit_eq_mod)
  have d: "j div 8 = n" "j mod 8 = j - 8 * n" if "8 * n \<le> j" "j - 8 * n < 8"
  proof -
    show "j div 8 = n" using that by linarith
    then show "j mod 8 = j - 8 * n" using minus_mult_div_eq_mod [of j 8] by simp
  qed
  show ?case
  proof (cases "8 * n \<le> j \<and> j - 8 * n < 8")
    case True
    with d Suc show ?thesis by (auto simp: gather_def bit_simps bit_of_char_word)
  next
    case False
    with Suc lt show ?thesis by (auto simp: gather_def bit_simps bit_of_char_word)
  qed
qed (simp add: gather_def)

end
