(* ===== verification/RdbCodec.thy ===== *)
theory RdbCodec
  imports RdbCrc
begin

text \<open>
  Snapshots are read back as they were written: every reader and writer of \<open>rdb.cpp\<close> is an
  instance of one contract, a codec, and the loops of the loader are loops over codecs.
\<close>

unbundle bit_operations_syntax

lemma bit_byte_at:
  "bit (of_char (byte_at i v) :: nat) k \<longleftrightarrow> k < 8 \<and> bit (v :: 'a::len word) (8 * i + k)"
proof -
  have "(0xff :: 'a word) = mask 8" by (simp add: mask_eq_exp_minus_1)
  then have "drop_bit (8 * i) v AND 0xff = take_bit 8 (drop_bit (8 * i) v)"
    by (simp add: take_bit_eq_mask)
  then have "(of_char (byte_at i v) :: nat) = take_bit 8 (unat (take_bit 8 (drop_bit (8 * i) v)))"
    by (simp add: byte_at_def take_bit_eq_mod)
  then show ?thesis using bit_imp_le_length [of v "8 * i + k"] by (auto simp: bit_simps)
qed

lemma gather_bytes:
  fixes v :: "'a::len word"
  assumes "\<forall>i<n. buf ! (pos + i) = byte_at i v" and "8 * n = LENGTH('a)"
  shows "gather buf pos n = v"
proof (rule bit_eqI)
  fix j
  have "j div 8 < n \<Longrightarrow> buf ! (pos + j div 8) = byte_at (j div 8) v" using assms(1) by simp
  then show "bit (gather buf pos n :: 'a word) j = bit v j"
    using assms(2) bit_imp_le_length [of v j] by (auto simp: bit_gather bit_byte_at)
qed

lemma Put_append [simp]:
  "PutU32 out v = out @ map (\<lambda>i. byte_at i v) [0..<4]"
  "PutU64 out w = out @ map (\<lambda>i. byte_at i w) [0..<8]"
  "PutF64 out x = out @ map (\<lambda>i. byte_at i x) [0..<8]"
proof -
  have "foldl (\<lambda>out i. out @ [f i]) out xs = out @ map f xs" for f :: "nat \<Rightarrow> char" and out xs
    by (induction xs arbitrary: out) simp_all
  then show "PutU32 out v = out @ map (\<lambda>i. byte_at i v) [0..<4]"
    "PutU64 out w = out @ map (\<lambda>i. byte_at i w) [0..<8]"
    "PutF64 out x = out @ map (\<lambda>i. byte_at i x) [0..<8]"
    by (simp_all only: PutU32_def PutU64_def PutF64_def)
qed

section \<open>Readers and writers as codecs\<close>

text \<open>The reader stands in front of the bytes \<open>s\<close>.\<close>

definition at :: "string \<Rightarrow> reader \<Rightarrow> string \<Rightarrow> bool" where
  "at buf r s \<longleftrightarrow> rd_ok r \<and> rd_pos r \<le> length buf \<and> drop (rd_pos r) buf = s"

lemma at_skip: "at buf r (s @ rest) \<Longrightarrow> at buf (skip (length s) r) rest"
proof -
  assume "at buf r (s @ rest)"
  then have d: "drop (rd_pos r) buf = s @ rest" and "rd_ok r" "rd_pos r \<le> length buf"
    by (simp_all add: at_def)
  moreover from d have "length buf - rd_pos r = length s + length rest" by (metis length_append length_drop)
  moreover have "drop (rd_pos r + length s) buf = rest"
    using d by (metis add.commute append_eq_conv_conj drop_drop)
  ultimately show ?thesis by (simp add: at_def skip_def)
qed

lemma at_Need: "at buf r (s @ rest) \<Longrightarrow> length s = n \<Longrightarrow> Need buf n r = (r, True)"
proof -
  assume a: "at buf r (s @ rest)" and n: "length s = n"
  then have "length buf - rd_pos r = length s + length rest" "rd_ok r" "rd_pos r \<le> length buf"
    unfolding at_def by (metis length_append length_drop)+
  with n show ?thesis by (auto simp: Need_def)
qed

lemma at_nth: "at buf r (s @ rest) \<Longrightarrow> i < length s \<Longrightarrow> buf ! (rd_pos r + i) = s ! i"
  unfolding at_def by (metis nth_append nth_drop)

lemma at_take: "at buf r (s @ rest) \<Longrightarrow> take (length s) (drop (rd_pos r) buf) = s"
  by (simp add: at_def)

lemma skip_skip [simp]: "skip m (skip n r) = skip (n + m) r" "skip 0 r = r"
  by (simp_all add: skip_def add.assoc)

lemma rd_ok_skip [simp]: "rd_ok (skip n r) = rd_ok r"
  by (simp add: skip_def)

text \<open>
  A codec: reading what was written gives it back and moves behind it. The loop of the
  loader over a codec reads a list.
\<close>

locale codec =
  fixes enc :: "'a \<Rightarrow> string"
    and dec :: "string \<Rightarrow> reader \<Rightarrow> reader \<times> 'a"
    and valid :: "'a \<Rightarrow> bool"
  assumes decode: "valid x \<Longrightarrow> at buf r (enc x @ rest) \<Longrightarrow> dec buf r = (skip (length (enc x)) r, x)"
begin

lemma decode_loop:
  assumes "\<forall>x\<in>set xs. valid x" and "at buf r (concat (map enc xs) @ rest)"
  shows "ReadLoop dec add buf (length xs) r acc =
    (skip (length (concat (map enc xs))) r, foldl add acc xs)"
  using assms
proof (induction xs arbitrary: r acc)
  case Nil
  then show ?case by simp
next
  case (Cons x xs)
  have r: "rd_ok r" using Cons.prems(2) by (simp add: at_def)
  have d: "dec buf r = (skip (length (enc x)) r, x)"
    using decode [of x buf r "concat (map enc xs) @ rest"] Cons.prems by simp
  have "at buf (skip (length (enc x)) r) (concat (map enc xs) @ rest)"
    using at_skip [of buf r "enc x"] Cons.prems(2) by simp
  with Cons.IH Cons.prems(1) r d show ?case by simp
qed

end

definition put_string :: "string \<Rightarrow> string" where
  "put_string s = PutBytes [] s"

definition short :: "string \<Rightarrow> bool" where
  "short s \<longleftrightarrow> length s < 2 ^ 32"

lemma put_string_eq: "put_string s = map (\<lambda>i. byte_at i (of_nat (length s) :: 32 word)) [0..<4] @ s"
  by (simp add: put_string_def PutBytes_def)

lemma PutBytes_append [simp]: "PutBytes out s = out @ put_string s"
  by (simp add: put_string_eq PutBytes_def)

lemma ReadU32_at:
  assumes "at buf r (map (\<lambda>i. byte_at i v) [0..<4] @ rest)"
  shows "ReadU32 buf r = (skip 4 r, v)"
proof -
  have "gather buf (rd_pos r) 4 = v"
    using at_nth [OF assms] by (intro gather_bytes) simp_all
  then show ?thesis using at_Need [OF assms, of 4] by (simp add: ReadU32_def)
qed

lemma Read64_at:
  assumes "at buf r (map (\<lambda>i. byte_at i v) [0..<8] @ rest)"
  shows "ReadU64 buf r = (skip 8 r, v)" "ReadF64 buf r = (skip 8 r, v)"
proof -
  have "gather buf (rd_pos r) 8 = v"
    using at_nth [OF assms] by (intro gather_bytes) simp_all
  then show "ReadU64 buf r = (skip 8 r, v)" "ReadF64 buf r = (skip 8 r, v)"
    using at_Need [OF assms, of 8] by (simp_all add: ReadU64_def ReadF64_def)
qed

lemma ReadU8_at:
  assumes "at buf r (char_of (unat v) # rest)"
  shows "ReadU8 buf r = (skip 1 r, v)"
proof -
  have a: "at buf r ([char_of (unat v)] @ rest)" using assms by simp
  have "unat v < 256" using unsigned_less [of v, where 'a = nat] by simp
  then have "(of_char (char_of (unat v)) :: nat) = unat v" by simp
  then have "of_char (char_of (unat v)) = v"
    using of_nat_char [of "char_of (unat v)", where 'a = 8] by simp
  with at_nth [OF a, of 0] at_Need [OF a, of 1] show ?thesis by (simp add: ReadU8_def)
qed

lemma ReadBytes_at:
  assumes "at buf r (s @ rest)" and "unat n = length s"
  shows "ReadBytes buf n r = (skip (length s) r, s)"
  using at_Need [OF assms(1)] at_take [OF assms(1)] assms(2) by (simp add: ReadBytes_def)

interpretation string_codec: codec put_string ReadString short
proof
  fix s buf r rest
  assume s: "short s" and a: "at buf r (put_string s @ rest)"
  let ?n = "of_nat (length s) :: 32 word"
  have a1: "at buf r (map (\<lambda>i. byte_at i ?n) [0..<4] @ s @ rest)"
    using a by (simp add: put_string_eq)
  from at_skip [OF this] have a2: "at buf (skip 4 r) (s @ rest)" by simp
  have "unat ?n = length s" using s by (simp add: short_def unat_of_nat)
  from ReadU32_at [OF a1] ReadBytes_at [OF a2 this]
  show "ReadString buf r = (skip (length (put_string s)) r, s)"
    by (simp add: ReadString_def put_string_eq)
qed

definition put_field :: "string \<times> string \<Rightarrow> string" where
  "put_field kv = put_string (fst kv) @ put_string (snd kv)"

interpretation field_codec: codec put_field ReadField "\<lambda>kv. short (fst kv) \<and> short (snd kv)"
proof
  fix kv buf r rest
  assume s: "short (fst kv) \<and> short (snd kv)" and a: "at buf r (put_field kv @ rest)"
  have a1: "at buf r (put_string (fst kv) @ put_string (snd kv) @ rest)"
    using a by (simp add: put_field_def)
  from string_codec.decode [OF _ a1] string_codec.decode [OF _ at_skip [OF a1]] s
  show "ReadField buf r = (skip (length (put_field kv)) r, kv)"
    by (simp add: ReadField_def put_field_def)
qed

definition put_scored :: "string \<times> double \<Rightarrow> string" where
  "put_scored ms = put_string (fst ms) @ map (\<lambda>i. byte_at i (snd ms)) [0..<8]"

interpretation scored_codec: codec put_scored ReadScored "\<lambda>ms. short (fst ms)"
proof
  fix ms buf r rest
  assume s: "short (fst ms)" and a: "at buf r (put_scored ms @ rest)"
  have a1: "at buf r (put_string (fst ms) @ map (\<lambda>i. byte_at i (snd ms)) [0..<8] @ rest)"
    using a by (simp add: put_scored_def)
  from string_codec.decode [OF s a1] Read64_at(2) [OF at_skip [OF a1]]
  show "ReadScored buf r = (skip (length (put_scored ms)) r, ms)"
    by (simp add: ReadScored_def put_scored_def)
qed

section \<open>Values\<close>

text \<open>
  A value is storable when all lengths fit the 32-bit fields of the file.
\<close>
primrec storable :: "Value \<Rightarrow> bool" where
  "storable (RawString s) = short s"
| "storable (HashValue h) = (length h < 2 ^ 32 \<and> (\<forall>kv\<in>set h. short (fst kv) \<and> short (snd kv)))"
| "storable (ListValue l) = (length l < 2 ^ 32 \<and> (\<forall>s\<in>set l. short s))"
| "storable (SetValue s) = (length s < 2 ^ 32 \<and> (\<forall>e\<in>set s. short e))"
| "storable (ZSetValue sl dict) = (length dict < 2 ^ 32 \<and> (\<forall>ms\<in>set dict. short (fst ms)))"

text \<open>Equal up to the levels of the skip lists.\<close>

fun same_value :: "Value \<Rightarrow> Value \<Rightarrow> bool" where
  "same_value (ZSetValue sl dict) (ZSetValue sl' dict') \<longleftrightarrow>
     dict' = dict \<and> (\<exists>xs. sl_rel sl xs \<and> sl_rel sl' xs)"
| "same_value v v' \<longleftrightarrow> v' = v"

lemma foldl_emplace: "distinct (map fst (acc @ h)) \<Longrightarrow> foldl emplace acc h = acc @ h"
proof (induction h arbitrary: acc)
  case (Cons kv h)
  then have "map_of acc (fst kv) = None" by (auto simp: map_of_eq_None_iff)
  with Cons show ?case by (simp add: emplace_def)
qed simp

lemma foldl_set_insert: "distinct (acc @ s) \<Longrightarrow> foldl set_insert acc s = acc @ s"
  by (induction s arbitrary: acc) (auto simp: set_insert_def)

lemma foldl_snoc: "foldl (\<lambda>l s. l @ [s]) acc xs = acc @ xs"
  by (induction xs arbitrary: acc) simp_all

lemma zsorted_unique: "zsorted xs \<Longrightarrow> zsorted ys \<Longrightarrow> set xs = set ys \<Longrightarrow> xs = ys"
proof -
  assume xs: "zsorted xs" and ys: "zsorted ys" and eq: "set xs = set ys"
  then have "map zkey xs = map zkey ys"
    by (intro sorted_distinct_set_unique) (auto simp: zsorted_def strict_sorted_iff)
  moreover have "inj_on zkey (set xs)"
    using xs by (auto simp: zsorted_def strict_sorted_iff distinct_map)
  ultimately show "xs = ys" using eq by (metis Un_absorb map_inj_on)
qed

lemma set_foldl_zinsert:
  assumes "zsorted xs" and "\<forall>ms\<in>set dict. \<not> d_isnan (snd ms)"
    and "distinct (map fst dict)" and "\<forall>ms\<in>set dict. \<forall>q\<in>set xs. snd q \<noteq> fst ms"
  shows "zsorted (foldl (\<lambda>xs ms. zinsert (snd ms, fst ms) xs) xs dict) \<and>
    set (foldl (\<lambda>xs ms. zinsert (snd ms, fst ms) xs) xs dict) = set xs \<union> (\<lambda>(m, sc). (sc, m)) ` set dict"
  using assms
proof (induction dict arbitrary: xs)
  case (Cons ms dict)
  let ?ys = "zinsert (snd ms, fst ms) xs"
  have "{q \<in> set xs. zkey q \<noteq> zkey (snd ms, fst ms)} = set xs"
    using Cons.prems(4) by (auto simp: zkey_def)
  then have set: "set ?ys = insert (snd ms, fst ms) (set xs)"
    by (simp add: set_zinsert [OF Cons.prems(1)])
  have "zsorted ?ys" using Cons.prems(1,2) by (intro zsorted_zinsert) (simp_all add: num_score_def)
  moreover have "\<forall>ms'\<in>set dict. \<forall>q\<in>set ?ys. snd q \<noteq> fst ms'"
    using Cons.prems(3,4) by (auto simp: set)
  ultimately show ?case using Cons.IH [of ?ys] Cons.prems(2,3) set by (auto simp: case_prod_unfold)
qed simp

lemma foldl_add_scored:
  assumes "sl_rel sl xs" and "\<forall>ms\<in>set dict. \<not> d_isnan (snd ms)" and "distinct (map fst (d0 @ dict))"
  shows "\<exists>sl'. foldl (add_scored rnds) (Some (c, sl, d0)) dict = Some (c + length dict, sl', d0 @ dict) \<and>
    sl_rel sl' (foldl (\<lambda>xs ms. zinsert (snd ms, fst ms) xs) xs dict)"
  using assms
proof (induction dict arbitrary: c sl xs d0)
  case (Cons ms dict)
  have "\<not> d_isnan (snd ms)" using Cons.prems(2) by simp
  with Cons.prems(1) obtain sl1 where
    1: "Insert sl (rnds c) (snd ms) (fst ms) = Some (sl1, zkey (snd ms, fst ms) \<notin> zkey ` set xs)"
      "sl_rel sl1 (zinsert (snd ms, fst ms) xs)" by (rule Insert_correct)
  have "AList.update (fst ms) (snd ms) d0 = d0 @ [ms]" using Cons.prems(3) by (auto simp: update_new)
  then have "add_scored rnds (Some (c, sl, d0)) ms = Some (Suc c, sl1, d0 @ [ms])"
    using 1(1) by (simp add: add_scored_def)
  with Cons.IH [OF 1(2), of "d0 @ [ms]" "Suc c"] Cons.prems(2,3) show ?case by simp
qed simp

lemma load_zset:
  assumes "zset_ok sl dict"
  shows "\<exists>sl'. foldl (add_scored rnds) (Some (c, new_skiplist, [])) dict = Some (c + length dict, sl', dict) \<and>
    zset_ok sl' dict \<and> same_value (ZSetValue sl dict) (ZSetValue sl' dict)"
proof -
  let ?f = "\<lambda>(m, sc). (sc, m)"
  let ?ys = "foldl (\<lambda>xs ms. zinsert (snd ms, fst ms) xs) [] dict"
  obtain xs where xs: "sl_rel sl xs" "set xs = ?f ` set dict" and d: "distinct (map fst dict)"
    using assms by (auto simp: zset_ok_def)
  have nums: "\<forall>ms\<in>set dict. \<not> d_isnan (snd ms)"
    using sl_rel_sorted [OF xs(1)] xs(2) by (fastforce simp: zsorted_def num_score_def)
  obtain sl' where sl': "foldl (add_scored rnds) (Some (c, new_skiplist, [])) dict = Some (c + length dict, sl', dict)"
    "sl_rel sl' ?ys"
    using foldl_add_scored [OF new_skiplist_rel nums, of "[]"] d by auto
  have ys: "zsorted ?ys" "set ?ys = ?f ` set dict"
    using set_foldl_zinsert [of "[]" dict] nums d by auto
  then have "?ys = xs" using zsorted_unique [OF ys(1) sl_rel_sorted [OF xs(1)]] xs(2) by simp
  with sl' xs d show ?thesis by (auto simp: zset_ok_def)
qed

text \<open>Writing appends.\<close>

lemma foldl_append: "foldl (\<lambda>out x. out @ f x) out xs = out @ concat (map f xs)"
  by (induction xs arbitrary: out) simp_all

abbreviation len32 :: "'a list \<Rightarrow> string" where
  "len32 xs \<equiv> map (\<lambda>i. byte_at i (of_nat (length xs) :: 32 word)) [0..<4]"

primrec put_value :: "Value \<Rightarrow> string" where
  "put_value (RawString s) = put_string s"
| "put_value (HashValue h) = len32 h @ concat (map put_field h)"
| "put_value (ListValue l) = len32 l @ concat (map put_string l)"
| "put_value (SetValue s) = len32 s @ concat (map put_string s)"
| "put_value (ZSetValue sl dict) = len32 dict @ concat (map put_scored dict)"

lemma PutValue_append [simp]: "PutValue out v = out @ put_value v"
proof -
  have "foldl PutBytes out xs = out @ concat (map put_string xs)" for out xs
    by (induction xs arbitrary: out) simp_all
  moreover have "foldl (\<lambda>out hk. PutBytes (PutBytes out (fst hk)) (snd hk)) out h = out @ concat (map put_field h)"
    for out h by (induction h arbitrary: out) (simp_all add: put_field_def)
  moreover have "foldl (\<lambda>out mk. PutF64 (PutBytes out (fst mk)) (snd mk)) out d = out @ concat (map put_scored d)"
    for out d by (induction d arbitrary: out) (simp_all add: put_scored_def)
  ultimately show ?thesis by (cases v) simp_all
qed

lemma len32_at:
  assumes "at buf r (len32 xs @ rest)" and "length xs < 2 ^ 32"
  shows "ReadU32 buf r = (skip 4 r, of_nat (length xs))" "unat (of_nat (length xs) :: 32 word) = length xs"
    "at buf (skip 4 r) rest"
  using ReadU32_at [OF assms(1)] at_skip [OF assms(1)] assms(2) by (simp_all add: unat_of_nat)

lemma LoadValue_at:
  assumes "value_ok v" and "storable v" and "at buf r (put_value v @ rest)"
  shows "\<exists>c' v'. LoadValue rnds buf (type_code (TypeOf v)) r c =
    Some (Inr (skip (length (put_value v)) r, c', v')) \<and> same_value v v' \<and> value_ok v'"
proof (cases v)
  case (RawString s)
  with assms string_codec.decode [of s buf r rest] show ?thesis by (simp add: LoadValue_def)
next
  case (HashValue h)
  with assms have a: "at buf r (len32 h @ concat (map put_field h) @ rest)" by simp
  with assms(2) HashValue have n: "length h < 2 ^ 32" by simp
  note l = len32_at [OF a n]
  from field_codec.decode_loop [OF _ l(3), of emplace "[]"] assms HashValue l show ?thesis
    by (simp add: LoadValue_def foldl_emplace)
next
  case (ListValue xs)
  with assms have a: "at buf r (len32 xs @ concat (map put_string xs) @ rest)" by simp
  with assms(2) ListValue have n: "length xs < 2 ^ 32" by simp
  note l = len32_at [OF a n]
  from string_codec.decode_loop [OF _ l(3), of "\<lambda>l s. l @ [s]" "[]"] assms ListValue l show ?thesis
    by (simp add: LoadValue_def foldl_snoc)
next
  case (SetValue xs)
  with assms have a: "at buf r (len32 xs @ concat (map put_string xs) @ rest)" by simp
  with assms(2) SetValue have n: "length xs < 2 ^ 32" by simp
  note l = len32_at [OF a n]
  from string_codec.decode_loop [OF _ l(3), of set_insert "[]"] assms SetValue l show ?thesis
    by (simp add: LoadValue_def foldl_set_insert)
next
  case (ZSetValue sl dict)
  with assms have a: "at buf r (len32 dict @ concat (map put_scored dict) @ rest)" by simp
  with assms(2) ZSetValue have n: "length dict < 2 ^ 32" by simp
  note l = len32_at [OF a n]
  obtain sl' where "foldl (add_scored rnds) (Some (c, new_skiplist, [])) dict = Some (c + length dict, sl', dict)"
    "zset_ok sl' dict" "same_value (ZSetValue sl dict) (ZSetValue sl' dict)"
    using load_zset [of sl dict rnds c] assms(1) ZSetValue by auto
  with scored_codec.decode_loop [OF _ l(3), of "add_scored rnds" "Some (c, new_skiplist, [])"] assms(2) ZSetValue l
  show ?thesis by (simp add: LoadValue_def)
qed

section \<open>Entries and tables\<close>

definition put_entry :: "string \<times> Entry \<Rightarrow> string" where
  "put_entry kv = PutEntry [] kv"

lemma put_entry_eq:
  "put_entry kv = char_of (unat (type_code (TypeOf (ent_value (snd kv))))) # put_string (fst kv) @
     map (\<lambda>i. byte_at i (of_int (expires_at_ms (snd kv)) :: 64 word)) [0..<8] @ put_value (ent_value (snd kv))"
  by (simp add: put_entry_def PutEntry_def PutU8_def Let_def)

lemma PutEntry_append: "PutEntry out kv = out @ put_entry kv"
  by (simp add: put_entry_eq PutEntry_def PutU8_def Let_def)

definition entry_ok :: "string \<times> Entry \<Rightarrow> bool" where
  "entry_ok kv \<longleftrightarrow> short (fst kv) \<and> in_ll (expires_at_ms (snd kv)) \<and>
     value_ok (ent_value (snd kv)) \<and> storable (ent_value (snd kv))"

definition same_entry :: "string \<times> Entry \<Rightarrow> string \<times> Entry \<Rightarrow> bool" where
  "same_entry kv kv' \<longleftrightarrow> fst kv' = fst kv \<and> expires_at_ms (snd kv') = expires_at_ms (snd kv) \<and>
     same_value (ent_value (snd kv)) (ent_value (snd kv')) \<and> value_ok (ent_value (snd kv'))"

lemma expires_roundtrip:
  "in_ll x \<Longrightarrow> (if (of_int x :: 64 word) \<noteq> 0 then sint (of_int x :: 64 word) else 0) = x"
proof -
  assume "in_ll x"
  then have "sint (of_int x :: 64 word) = x"
    by (simp add: signed_of_int signed_take_bit_int_eq_self in_ll_def LLONG_MAX_def LLONG_MIN_def)
  then show ?thesis by (metis signed_0)
qed

lemma LoadEntry_at:
  assumes "entry_ok kv" and "at buf r (put_entry kv @ rest)"
  shows "\<exists>c' kv'. LoadEntry rnds buf idx (r, c, db) =
      Some (Inr (skip (length (put_entry kv)) r, c', Set idx (fst kv') (ent_value (snd kv')) (expires_at_ms (snd kv')) db)) \<and>
    same_entry kv kv'"
proof -
  let ?e = "snd kv" and ?k = "fst kv"
  let ?v = "ent_value ?e" and ?x = "of_int (expires_at_ms ?e) :: 64 word"
  have ok: "short ?k" "in_ll (expires_at_ms ?e)" "value_ok ?v" "storable ?v"
    using assms(1) by (simp_all add: entry_ok_def)
  have a0: "at buf r (char_of (unat (type_code (TypeOf ?v))) # len32 ?k @ ?k @
      map (\<lambda>i. byte_at i ?x) [0..<8] @ put_value ?v @ rest)"
    using assms(2) by (simp add: put_entry_eq put_string_eq)
  then have a1: "at buf (skip 1 r) (len32 ?k @ ?k @ map (\<lambda>i. byte_at i ?x) [0..<8] @ put_value ?v @ rest)"
    using at_skip [of buf r "[char_of (unat (type_code (TypeOf ?v)))]"] by simp
  have "length ?k < 2 ^ 32" using ok(1) by (simp add: short_def)
  note l = len32_at [OF a1 this]
  note b = ReadBytes_at [OF l(3) l(2)]
  have a2: "at buf (skip (5 + length ?k) r) (map (\<lambda>i. byte_at i ?x) [0..<8] @ put_value ?v @ rest)"
    using at_skip [OF l(3)] by simp
  have a3: "at buf (skip (13 + length ?k) r) (put_value ?v @ rest)"
    using at_skip [OF a2] by (simp add: ac_simps)
  obtain c' v' where v': "LoadValue rnds buf (type_code (TypeOf ?v)) (skip (13 + length ?k) r) c =
    Some (Inr (skip (13 + length ?k + length (put_value ?v)) r, c', v'))" "same_value ?v v'" "value_ok v'"
    using LoadValue_at [OF ok(3,4) a3, of rnds c] by auto
  let ?kv' = "(?k, \<lparr>ent_value = v', expires_at_ms = expires_at_ms ?e\<rparr>)"
  have len: "length (put_entry kv) = 13 + length ?k + length (put_value ?v)"
    by (simp add: put_entry_eq put_string_eq)
  have "rd_ok r" using assms(2) by (simp add: at_def)
  then have "LoadEntry rnds buf idx (r, c, db) =
      Some (Inr (skip (length (put_entry kv)) r, c', Set idx ?k v' (expires_at_ms ?e) db))"
    using ReadU8_at [OF a0] l(1) b Read64_at(1) [OF a2] v'(1) expires_roundtrip [OF ok(2)] len
    by (simp add: LoadEntry_def Let_def ac_simps)
  then show ?thesis using v'(2,3) by (intro exI [of _ c'] exI [of _ ?kv']) (simp add: same_entry_def)
qed

lemma Set_frame:
  assumes "j \<noteq> idx"
  shows "table j (Set idx k v x db) = table j db"
  using assms by (simp add: table_def Set_dbs)

lemma max_memory_Set [simp]: "max_memory (Set idx k v x db) = max_memory db"
  by (simp add: Set_def Let_def MemAdd_def MemSub_def set_table_def split: option.splits)

text \<open>Reading a table appends entries that are the same up to the levels of skip lists.\<close>

lemma LoadEntries_at:
  assumes "\<forall>kv\<in>set t. entry_ok kv" and "at buf r (concat (map put_entry t) @ rest)"
    and "db_inv db" and "idx < kNumDatabases" and "distinct (map fst (table idx db @ t))"
  shows "\<exists>c' db' t'. LoadEntries rnds buf idx (length t) (r, c, db) =
      Some (Inr (skip (length (concat (map put_entry t))) r, c', db')) \<and>
    db_inv db' \<and> table idx db' = table idx db @ t' \<and> list_all2 same_entry t t' \<and>
    (\<forall>j. j \<noteq> idx \<longrightarrow> table j db' = table j db)"
  using assms
proof (induction t arbitrary: r c db)
  case Nil
  then show ?case by simp
next
  case (Cons kv t)
  have a: "at buf r (put_entry kv @ concat (map put_entry t) @ rest)" using Cons.prems(2) by simp
  obtain c1 kv' where 1: "LoadEntry rnds buf idx (r, c, db) =
      Some (Inr (skip (length (put_entry kv)) r, c1, Set idx (fst kv') (ent_value (snd kv')) (expires_at_ms (snd kv')) db))"
    "same_entry kv kv'" using LoadEntry_at [OF _ a, of rnds idx c db] Cons.prems(1) by auto
  let ?db = "Set idx (fst kv') (ent_value (snd kv')) (expires_at_ms (snd kv')) db"
  have i: "idx < length (dbs db)" using Cons.prems(3,4) by (simp add: db_inv_def db_shape_def)
  have "fst kv' \<notin> fst ` set (table idx db)" using 1(2) Cons.prems(5) by (auto simp: same_entry_def)
  then have tab: "table idx ?db = table idx db @ [kv']"
    using i by (cases kv') (simp add: table_def Set_dbs update_new)
  have inv: "db_inv ?db"
    using Cons.prems(3,4) by (simp add: db_inv_def Set_live mem_exact_Set)
  have dist: "distinct (map fst (table idx ?db @ t))"
    using Cons.prems(5) 1(2) unfolding tab by (auto simp: same_entry_def)
  have ok: "\<forall>kv\<in>set t. entry_ok kv" using Cons.prems(1) by simp
  obtain c' db' t' where IH: "LoadEntries rnds buf idx (length t) (skip (length (put_entry kv)) r, c1, ?db) =
      Some (Inr (skip (length (concat (map put_entry t))) (skip (length (put_entry kv)) r), c', db'))"
    "db_inv db'" "table idx db' = table idx ?db @ t'" "list_all2 same_entry t t'"
    "\<forall>j. j \<noteq> idx \<longrightarrow> table j db' = table j ?db"
    using Cons.IH [OF ok at_skip [OF a] inv Cons.prems(4) dist, of c1] by blast
  show ?case
    using 1 IH tab Set_frame by (intro exI [of _ c'] exI [of _ db'] exI [of _ "kv' # t'"]) auto
qed

definition put_table :: "Database \<Rightarrow> nat \<Rightarrow> string" where
  "put_table d idx = char_of (unat (of_nat idx :: 8 word)) # len32 (table idx d) @ concat (map put_entry (table idx d))"

lemma PutTable_append: "PutTable d out idx = out @ put_table d idx"
proof -
  have "foldl PutEntry out t = out @ concat (map put_entry t)" for out t
    by (induction t arbitrary: out) (simp_all add: PutEntry_append)
  then show ?thesis by (simp add: PutTable_def put_table_def PutU8_def Let_def)
qed

definition storable_db :: "Database \<Rightarrow> bool" where
  "storable_db d \<longleftrightarrow> db_shape d \<and>
     (\<forall>i<kNumDatabases. length (table i d) < 2 ^ 32 \<and> (\<forall>kv\<in>set (table i d). entry_ok kv))"

lemma LoadTable_at:
  assumes "storable_db d" and "idx < kNumDatabases" and "at buf r (put_table d idx @ rest)"
    and "db_inv db" and "table idx db = []"
  shows "\<exists>c' db'. LoadTable rnds buf (r, c, db) = Some (Inr (skip (length (put_table d idx)) r, c', db')) \<and>
    db_inv db' \<and> list_all2 same_entry (table idx d) (table idx db') \<and>
    (\<forall>j. j \<noteq> idx \<longrightarrow> table j db' = table j db)"
proof -
  let ?t = "table idx d"
  have st: "length ?t < 2 ^ 32" "\<forall>kv\<in>set ?t. entry_ok kv" and d: "distinct (map fst ?t)"
    using assms(1,2) table_ok_table [of d idx] by (auto simp: storable_db_def table_ok_def)
  have a0: "at buf r (char_of (unat (of_nat idx :: 8 word)) # len32 ?t @ concat (map put_entry ?t) @ rest)"
    using assms(3) by (simp add: put_table_def)
  then have a1: "at buf (skip 1 r) (len32 ?t @ concat (map put_entry ?t) @ rest)"
    using at_skip [of buf r "[char_of (unat (of_nat idx :: 8 word))]"] by simp
  note l = len32_at [OF a1 st(1)]
  have idx: "unat (of_nat idx :: 8 word) = idx" using assms(2) by (simp add: unat_of_nat kNumDatabases_def)
  obtain c' db' where "LoadEntries rnds buf idx (length ?t) (skip 4 (skip 1 r), c, db) =
      Some (Inr (skip (length (concat (map put_entry ?t))) (skip 4 (skip 1 r)), c', db'))"
    "db_inv db'" "list_all2 same_entry ?t (table idx db')" "\<forall>j. j \<noteq> idx \<longrightarrow> table j db' = table j db"
    using LoadEntries_at [OF st(2) l(3) assms(4,2), of rnds c] assms(5) d by auto
  moreover have "rd_ok r" using assms(3) by (simp add: at_def)
  ultimately show ?thesis
    using ReadU8_at [OF a0] l(1,2) idx assms(2)
    by (intro exI [of _ c'] exI [of _ db']) (simp add: LoadTable_def put_table_def)
qed

lemma LoadTables_at:
  assumes "storable_db d" and "\<forall>i\<in>set is. i < kNumDatabases" and "distinct is"
    and "at buf r (concat (map (put_table d) is) @ rest)" and "db_inv db" and "\<forall>i\<in>set is. table i db = []"
  shows "\<exists>r' c' db'. LoadTables rnds buf (length is) (r, c, db) = Some (Inr (r', c', db')) \<and> db_inv db' \<and>
    (\<forall>i\<in>set is. list_all2 same_entry (table i d) (table i db')) \<and>
    (\<forall>j. j \<notin> set is \<longrightarrow> table j db' = table j db)"
  using assms
proof (induction "is" arbitrary: r c db)
  case Nil
  then show ?case by simp
next
  case (Cons i "is")
  have a: "at buf r (put_table d i @ concat (map (put_table d) is) @ rest)" using Cons.prems(4) by simp
  obtain c1 db1 where 1: "LoadTable rnds buf (r, c, db) = Some (Inr (skip (length (put_table d i)) r, c1, db1))"
    "db_inv db1" "list_all2 same_entry (table i d) (table i db1)" "\<forall>j. j \<noteq> i \<longrightarrow> table j db1 = table j db"
    using LoadTable_at [OF Cons.prems(1) _ a Cons.prems(5), of rnds c] Cons.prems(2,6) by auto
  obtain r' c' db' where 2: "LoadTables rnds buf (length is) (skip (length (put_table d i)) r, c1, db1) = Some (Inr (r', c', db'))"
    "db_inv db'" "\<forall>i\<in>set is. list_all2 same_entry (table i d) (table i db')"
    "\<forall>j. j \<notin> set is \<longrightarrow> table j db' = table j db1"
    using Cons.IH [OF Cons.prems(1) _ _ at_skip [OF a] 1(2), of c1] Cons.prems(2,3,6) 1(4) by fastforce
  have "table i db' = table i db1" using 2(4) Cons.prems(3) by simp
  with 1 2 Cons.prems(3) show ?case
    by (intro exI [of _ r'] exI [of _ c'] exI [of _ db']) auto
qed

section \<open>Whole snapshots\<close>

lemma Serialize_eq:
  obtains body where "Serialize d = body @ map (\<lambda>i. byte_at i (Crc32 body)) [0..<4]"
    "body = kMagic @ char_of (unat (of_nat (length (used_dbs d)) :: 8 word)) # concat (map (put_table d) (used_dbs d))"
proof -
  have "foldl (PutTable d) out is = out @ concat (map (put_table d) is)" for out "is"
    by (induction "is" arbitrary: out) (simp_all add: PutTable_append)
  then show thesis by (intro that [OF _ refl]) (simp add: Serialize_def PutU8_def Let_def)
qed

lemma length_kMagic [simp]: "length kMagic = kMagicLen"
  by (simp add: kMagic_def kMagicLen_def)

lemma gather_trailer: "gather (body @ map (\<lambda>i. byte_at i v) [0..<4]) (length body) 4 = (v :: 32 word)"
  by (rule gather_bytes) (simp_all add: nth_append)

lemma LoadData_Serialize:
  assumes "storable_db d"
  shows "\<exists>d'. LoadData rnds (Serialize d) db = Some (Inr d') \<and> db_inv d' \<and> max_memory d' = max_memory db \<and>
    (\<forall>i<kNumDatabases. list_all2 same_entry (table i d) (table i d'))"
proof -
  let ?is = "used_dbs d" and ?n = "of_nat (length (used_dbs d)) :: 8 word"
  obtain body where S: "Serialize d = body @ map (\<lambda>i. byte_at i (Crc32 body)) [0..<4]"
    and body: "body = kMagic @ char_of (unat ?n) # concat (map (put_table d) ?is)"
    by (rule Serialize_eq)
  let ?crc = "map (\<lambda>i. byte_at i (Crc32 body)) [0..<4]"
  have "length ?is \<le> kNumDatabases"
    using length_filter_le [of "\<lambda>i. table i d \<noteq> []" "[0..<kNumDatabases]"] by (simp add: used_dbs_def)
  then have n: "unat ?n = length ?is" by (simp add: unat_of_nat kNumDatabases_def)
  let ?r = "\<lparr>rd_pos = kMagicLen, rd_ok = True\<rparr>"
  have "Serialize d = kMagic @ char_of (unat ?n) # concat (map (put_table d) ?is) @ ?crc"
    unfolding S by (subst body) simp
  then have a0: "at (Serialize d) ?r (char_of (unat ?n) # concat (map (put_table d) ?is) @ ?crc)"
    by (simp add: at_def)
  then have a1: "at (Serialize d) (skip 1 ?r) (concat (map (put_table d) ?is) @ ?crc)"
    using at_skip [of "Serialize d" ?r "[char_of (unat ?n)]"] by simp
  have "\<forall>i\<in>set ?is. i < kNumDatabases" "distinct ?is" "\<forall>i\<in>set ?is. table i new_database = []"
    by (auto simp: used_dbs_def new_database_def table_def)
  from LoadTables_at [OF assms this(1,2) a1 db_inv_new this(3), of rnds 0] obtain r' c' db' where
    L: "LoadTables rnds (Serialize d) (length ?is) (skip 1 ?r, 0, new_database) = Some (Inr (r', c', db'))"
    "db_inv db'" "\<forall>i\<in>set ?is. list_all2 same_entry (table i d) (table i db')"
    "\<forall>j. j \<notin> set ?is \<longrightarrow> table j db' = table j new_database" by auto
  have len: "length (Serialize d) = length body + 4" "kMagicLen + 1 \<le> length body" "take kMagicLen (Serialize d) = kMagic"
    unfolding S by (simp, simp_all add: body)
  have crc: "Crc32 (take (length (Serialize d) - 4) (Serialize d)) = gather (Serialize d) (length (Serialize d) - 4) 4"
    unfolding len(1) unfolding S by (simp add: gather_trailer)
  have "list_all2 same_entry (table i d) (table i db')" if "i < kNumDatabases" for i
  proof (cases "i \<in> set ?is")
    case False
    then have "table i d = []" "table i db' = []"
      using that L(4) by (auto simp: used_dbs_def new_database_def table_def)
    then show ?thesis by simp
  qed (use L(3) in blast)
  moreover have "LoadData rnds (Serialize d) db = Some (Inr (db'\<lparr>max_memory := max_memory db\<rparr>))"
    using len(2,3) crc ReadU8_at [OF a0] L(1) n by (simp add: LoadData_def len(1) Let_def)
  moreover have "db_inv (db'\<lparr>max_memory := max_memory db\<rparr>)"
    using L(2) by (simp add: db_inv_def db_shape_def mem_exact_def)
  ultimately show ?thesis by (intro exI [of _ "db'\<lparr>max_memory := max_memory db\<rparr>"]) (simp add: table_def)
qed

text \<open>One changed byte.\<close>

lemma gather_inj:
  assumes "\<And>i. i < n \<Longrightarrow> i \<noteq> j \<Longrightarrow> buf' ! (pos + i) = buf ! (pos + i)"
    and "j < n" and "buf' ! (pos + j) \<noteq> buf ! (pos + j)" and "8 * n = LENGTH('a)"
  shows "(gather buf' pos n :: 'a::len word) \<noteq> gather buf pos n"
proof
  assume eq: "(gather buf' pos n :: 'a word) = gather buf pos n"
  have "bit (of_char (buf' ! (pos + j)) :: nat) k = bit (of_char (buf ! (pos + j)) :: nat) k" for k
  proof (cases "k < 8")
    case True
    then have "(8 * j + k) div 8 = j" "(8 * j + k) mod 8 = k" "8 * j + k < 8 * n" using assms(2) by auto
    with arg_cong [OF eq, of "\<lambda>w. bit w (8 * j + k)"] assms(4) show ?thesis by (simp add: bit_gather)
  next
    case False
    have "\<not> bit (of_char c :: nat) k" for c
      using False nat_of_char_less_256 [of c] bit_take_bit_iff [of 8 "of_char c :: nat" k]
      by (simp add: take_bit_eq_mod)
    then show ?thesis by simp
  qed
  then have "(of_char (buf' ! (pos + j)) :: nat) = of_char (buf ! (pos + j))" by (rule bit_eqI)
  with assms(3) show False by simp
qed

lemma Crc32_update:
  assumes "i < length data" and "b \<noteq> data ! i"
  shows "Crc32 (data[i := b]) \<noteq> Crc32 data"
proof -
  have "data = take i data @ data ! i # drop (Suc i) data"
    "data[i := b] = take i data @ b # drop (Suc i) data"
    using assms(1) by (simp_all add: id_take_nth_drop upd_conv_take_nth_drop)
  then show ?thesis using Crc32_one_byte [OF assms(2), of "take i data" "drop (Suc i) data"] by simp
qed

lemma LoadData_corrupt:
  assumes "LoadData rnds data db = Some (Inr d)" and "i < length data" and "b \<noteq> data ! i"
  shows "LoadData rnds (data[i := b]) db' \<in> {Some (Inl ''bad magic (not a TINYREDIS dump)''),
    Some (Inl ''CRC mismatch (corrupt dump)'')}"
proof -
  let ?n = "length data - 4" and ?data = "data[i := b]"
  have len: "kMagicLen + 5 \<le> length data" and crc: "Crc32 (take ?n data) = gather data ?n 4"
    using assms(1) by (auto simp: LoadData_def Let_def split: if_splits)
  have "Crc32 (take ?n ?data) \<noteq> gather ?data ?n 4"
  proof (cases "i < ?n")
    case True
    then have "Crc32 (take ?n ?data) \<noteq> Crc32 (take ?n data)"
      using Crc32_update [of i "take ?n data" b] assms(2,3) by (simp add: take_update_swap)
    moreover have "gather ?data ?n 4 = (gather data ?n 4 :: 32 word)"
      using True by (simp add: gather_def)
    ultimately show ?thesis using crc by simp
  next
    case False
    then have "take ?n ?data = take ?n data" by simp
    moreover have "(gather ?data ?n 4 :: 32 word) \<noteq> gather data ?n 4"
      using False assms(2,3) len by (intro gather_inj [where j = "i - ?n"]) (auto simp: nth_list_update)
    ultimately show ?thesis using crc by metis
  qed
  then show ?thesis using len by (simp add: LoadData_def Let_def)
qed

section \<open>Properties\<close>



text \<open>
  C14: saving is atomic. Whatever step fails, the file at the path afterwards is the old one or
  the complete new snapshot; it is the new one exactly when the save reports success. The
  same holds for the child of a background save.
\<close>

theorem save_is_atomic:
  "files (fst (SaveToFile io now path d dk)) path =
     (case snd (SaveToFile io now path d dk) of Inl err \<Rightarrow> files dk path | Inr u \<Rightarrow> Some (Serialize d)) \<and>
   files (BgSaveChild io (path, data) dk) path \<in> {files dk path, Some data}"
  by (simp add: SaveToFile_def BgSaveChild_def write_rename_def tmp_path_def)

text \<open>
  C15: the table-driven \<open>Crc32\<close> is the bitwise CRC with the reflected polynomial 0xEDB88320: each
  byte is added to the low end of the register and the register is shifted eight times, with
  the polynomial added whenever a one falls out.
\<close>

theorem crc32_equals_bitwise:
  "Crc32 data = foldl (\<lambda>crc ch. (crc_bit ^^ 8) (crc XOR of_char ch)) 0xFFFFFFFF data XOR 0xFFFFFFFF"
proof -
  have "crc_step = (\<lambda>crc ch. (crc_bit ^^ 8) (crc XOR of_char ch))"
    by (simp add: fun_eq_iff crc_step_eq crc_ref_step_def)
  then show ?thesis by (simp add: Crc32_def)
qed

text \<open>
  C16: no single-byte corruption of a loadable snapshot goes unnoticed: with any one byte
  changed, in the magic, the body or the checksum, loading fails with an error, whatever the
  database it was to replace.
\<close>

theorem snapshot_detects_byte_corruption:
  assumes "LoadData rnds data db = Some (Inr d)" and "i < length data" and "b \<noteq> data ! i"
  shows "LoadData rnds (data[i := b]) db' = Some (Inl ''bad magic (not a TINYREDIS dump)'') \<or>
    LoadData rnds (data[i := b]) db' = Some (Inl ''CRC mismatch (corrupt dump)'')"
  using LoadData_corrupt [OF assms, of db'] by simp

theorem snapshot_detects_byte_corruption_witness:
  "\<exists>d. LoadData (\<lambda>_ _. 0) (Serialize new_database) new_database = Some (Inr d) \<and>
    (LoadData (\<lambda>_ _. 0) ((Serialize new_database)[0 := CHR ''X'']) new_database
       = Some (Inl ''bad magic (not a TINYREDIS dump)'') \<or>
     LoadData (\<lambda>_ _. 0) ((Serialize new_database)[0 := CHR ''X'']) new_database
       = Some (Inl ''CRC mismatch (corrupt dump)''))"
proof -
  have "storable_db new_database"
    using db_inv_new by (simp add: storable_db_def db_inv_def new_database_def table_def)
  then obtain d where d: "LoadData (\<lambda>_ _. 0) (Serialize new_database) new_database = Some (Inr d)"
    using LoadData_Serialize by blast
  obtain body where "Serialize new_database = kMagic @ body" by (rule Serialize_eq [of new_database]) auto
  then have "0 < length (Serialize new_database)" "CHR ''X'' \<noteq> Serialize new_database ! 0"
    by (simp_all add: kMagic_def)
  from snapshot_detects_byte_corruption [OF d this, of new_database] d show ?thesis by blast
qed

end
