(* ===== verification/Boot.thy ===== *)
theory Boot
  imports Server
begin

text \<open>
  The start of the program: \<open>src/main.cpp\<close> and \<open>Server::Start\<close> of \<open>src/server.cpp\<close>. The system
  calls of \<open>Start\<close> are a record of their outcomes; \<open>inet_pton\<close> is a predicate on the text of
  the address. Messages to the terminal are not modelled, except that the ways to leave
  \<open>main\<close> are told apart by the exit code.
\<close>

section \<open>Starting to listen\<close>

record start_io =
  socket_ok :: bool
  pton_ok :: "string \<Rightarrow> bool"
  bind_ok :: bool
  listen_ok :: bool
  kqueue_ok :: bool
  kevent_ok :: bool
  start_errno :: string
  start_us :: int

text \<open>\<open>htons((uint16_t)opts_.port)\<close>: the port the socket is bound to.\<close>

definition listen_port :: "ServerOptions \<Rightarrow> 16 word" where
  "listen_port opts = word_of_int (port opts)"

definition Start :: "start_io \<Rightarrow> Server \<Rightarrow> string + Server" where
  "Start sio s =
     (let addr = bind_addr (srv_opts s)
      in if \<not> socket_ok sio then Inl (''socket: '' @ start_errno sio)
         else if addr \<noteq> [] \<and> addr \<noteq> ''0.0.0.0'' \<and> \<not> pton_ok sio (c_str addr)
         then Inl (''invalid bind address: '' @ addr)
         else if \<not> bind_ok sio then Inl (''bind: '' @ start_errno sio)
         else if \<not> listen_ok sio then Inl (''listen: '' @ start_errno sio)
         else if \<not> kqueue_ok sio then Inl (''kqueue: '' @ start_errno sio)
         else if \<not> kevent_ok sio then Inl (''kevent(listen): '' @ start_errno sio)
         else Inr (s\<lparr>srv_stats := (srv_stats s)\<lparr>start_time_us := start_us sio\<rparr>\<rparr>))"

section \<open>Command line\<close>

text \<open>\<open>atoi\<close> is undefined when the value does not fit an \<open>int\<close>.\<close>

definition atoi :: "string \<Rightarrow> int result" where
  "atoi s =
     (let (v, rest, erange) = strtoll s
      in if - 2147483648 \<le> v \<and> v \<le> 2147483647 \<and> \<not> erange then Inr v else Inl SignedOverflow)"

text \<open>\<open>strtoull\<close> in base 10: saturating, and a minus sign negates modulo \<open>2\<^sup>64\<close>.\<close>

definition strtoull :: "string \<Rightarrow> nat" where
  "strtoull s =
     (let (neg, t) = read_sign (dropWhile is_space s); v = dec_val (takeWhile is_digit t)
      in if v \<ge> 2 ^ 64 then 2 ^ 64 - 1
         else if neg then (2 ^ 64 - v) mod 2 ^ 64 else v)"

datatype command_line = Serve ServerOptions | ExitWith nat

fun ParseOptions :: "string list \<Rightarrow> ServerOptions \<Rightarrow> command_line result" where
  "ParseOptions [] opts = Inr (Serve opts)"
| "ParseOptions (a # rest) opts =
     (if a = ''-p'' \<or> a = ''--port'' then
        (case rest of
           [] \<Rightarrow> Inr (ExitWith 1)
         | v # rest' \<Rightarrow> bind_result (atoi v) (\<lambda>n. ParseOptions rest' (opts\<lparr>port := n\<rparr>)))
      else if a = ''-b'' \<or> a = ''--bind'' then
        (case rest of [] \<Rightarrow> Inr (ExitWith 1) | v # rest' \<Rightarrow> ParseOptions rest' (opts\<lparr>bind_addr := v\<rparr>))
      else if a = ''-d'' \<or> a = ''--dir'' then
        (case rest of [] \<Rightarrow> Inr (ExitWith 1) | v # rest' \<Rightarrow> ParseOptions rest' (opts\<lparr>dir := v\<rparr>))
      else if a = ''-f'' \<or> a = ''--dbfilename'' then
        (case rest of [] \<Rightarrow> Inr (ExitWith 1) | v # rest' \<Rightarrow> ParseOptions rest' (opts\<lparr>dbfilename := v\<rparr>))
      else if a = ''-m'' \<or> a = ''--maxmemory'' then
        (case rest of [] \<Rightarrow> Inr (ExitWith 1) | v # rest' \<Rightarrow> ParseOptions rest' (opts\<lparr>maxmemory := strtoull v\<rparr>))
      else if a = ''-v'' \<or> a = ''--version'' then Inr (ExitWith 0)
      else if a = ''-h'' \<or> a = ''--help'' then Inr (ExitWith 0)
      else Inr (ExitWith 1))"

text \<open>Restoring the dump; \<open>None\<close> is an undefined run of the loader. A failed load leaves the
  database as it was.\<close>

definition Restore :: "io_faults \<Rightarrow> (nat \<Rightarrow> nat \<Rightarrow> int) \<Rightarrow> Server \<Rightarrow> Server option" where
  "Restore flt rs s =
     (let path = dump_path (srv_opts s)
      in if FileExists path (srv_disk s)
         then (case LoadFromFile flt rs path (srv_db s) (srv_disk s) of
                 None \<Rightarrow> None
               | Some (Inl err) \<Rightarrow> Some s
               | Some (Inr d) \<Rightarrow> Some (s\<lparr>srv_db := d\<rparr>))
         else Some s)"

text \<open>\<open>main\<close> on the arguments after the program name. The result is the exit code, or a server
  that is still running, with the disk it leaves.\<close>

datatype program_end = Exited nat disk | StillRunning Server

definition main ::
  "string list \<Rightarrow> io_faults \<Rightarrow> (nat \<Rightarrow> nat \<Rightarrow> int) \<Rightarrow> start_io \<Rightarrow> poll list \<Rightarrow> io_faults \<Rightarrow> int \<Rightarrow> disk \<Rightarrow>
   program_end result" where
  "main args load_io rs sio ps save_io save_s dk =
     bind_result (ParseOptions args default_options)
       (\<lambda>cl. case cl of
          ExitWith code \<Rightarrow> Inr (Exited code dk)
        | Serve opts \<Rightarrow>
            (case Restore load_io rs (new_server opts dk) of
               None \<Rightarrow> Inl Diverges
             | Some s \<Rightarrow>
                 (case Start sio s of
                    Inl err \<Rightarrow> Inr (Exited 1 dk)
                  | Inr s1 \<Rightarrow>
                      bind_result (Run ps save_io save_s s1)
                        (\<lambda>(s2, ended). Inr (if ended then Exited 0 (srv_disk s2) else StillRunning s2)))))"

end
