(* ===== verification/ServerProps.thy ===== *)
theory ServerProps
  imports ServerSpec RdbCodec Boot
begin

text \<open>
  What the server promises its clients and its operator: the invariant of every reachable
  state, the replies to a pipeline, isolation, flushing, shutdown and restart, and the uses
  of a closed connection.
\<close>

section \<open>Flags a command leaves alone\<close>








section \<open>A pipeline and its replies\<close>





text \<open>Writes that do not fail: what was sent and what is left make up the output.\<close>

definition write_works :: "write_result \<Rightarrow> bool" where
  "write_works w \<longleftrightarrow> w \<noteq> WriteFail \<and> w \<noteq> Wrote 0"

lemma OnWritable_stream:
  assumes "core_ok s" and "deref c s = Some conn" and "list_all write_works ws"
  shows "\<exists>s' conn'. OnWritable ws c s = Inr s' \<and> deref c s' = Some conn' \<and>
    sent s' c @ conn_out conn' = sent s c @ conn_out conn"
  using assms
proof (induction ws arbitrary: s conn)
  case Nil
  note c = deref_alive(2) [OF Nil(1,2)]
  from Nil c show ?case
    by (cases "conn_out conn = []") (auto simp: OnWritable.simps [of "[]"] deref_assign)
next
  case (Cons a ws)
  note c = deref_alive(2) [OF Cons.prems(1,2)]
  show ?case
  proof (cases "conn_out conn = []")
    case True
    with Cons.prems(2) c show ?thesis by (auto simp: OnWritable_empty deref_assign)
  next
    case False
    show ?thesis
    proof (cases a)
      case (Wrote n)
      then have n: "0 < n" using Cons.prems(3) by (auto simp: write_works_def)
      note t = transmit_ok [OF Cons.prems(1,2), of n]
      have "core_ok (transmit n conn s)" using t(1) by (simp add: handles_def)
      from Cons.IH [OF this t(2)] Cons.prems(3) t(3) show ?thesis
        using Wrote n False Cons.prems(2) by (simp add: OnWritable_step)
    qed (use False Cons in \<open>simp_all add: OnWritable_step write_works_def\<close>)
  qed
qed





section \<open>What closing and writing leave alone\<close>

definition same_store :: "Server \<Rightarrow> Server \<Rightarrow> bool" where
  "same_store s s' \<longleftrightarrow> srv_db s' = srv_db s \<and> srv_disk s' = srv_disk s \<and> srv_opts s' = srv_opts s \<and>
     total_commands (srv_stats s') = total_commands (srv_stats s) \<and>
     shutdown_nosave (srv_stats s') = shutdown_nosave (srv_stats s)"

lemma CloseConn_frame: "CloseConn c s = Inr s' \<Longrightarrow> same_store s s'"
  by (auto simp: CloseConn_def erase_conn_def same_store_def split: option.splits if_splits)

lemma OnWritable_frame: "OnWritable ws c s = Inr s' \<Longrightarrow> same_store s s'"
proof (induction ws arbitrary: s)
  case Nil
  then show ?case by (auto simp: OnWritable.simps [of "[]"] same_store_def split: option.splits if_splits)
next
  case (Cons a ws)
  from Cons.prems obtain conn where conn: "deref c s = Some conn"
    by (auto simp: OnWritable.simps [of "a # ws"] split: option.splits)
  show ?case
  proof (cases "conn_out conn = []")
    case True
    with Cons.prems conn show ?thesis by (auto simp: OnWritable_empty same_store_def)
  next
    case False
    have "same_store s (transmit n conn s)" for n by (simp add: same_store_def transmit_def)
    with Cons False conn show ?thesis
      by (cases a) (auto simp: OnWritable_step same_store_def dest!: CloseConn_frame split: if_splits)
  qed
qed

lemma FailConn_frame:
  assumes "core_ok s" and "deref c s = Some conn" and "FailConn ws c s = Inr s'"
  shows "same_store s s' \<and> deref c s' = None"
proof -
  obtain s1 where s1: "OnWritable ws c (assign (conn\<lparr>conn_out := AppendErrorReply (conn_out conn)
      (parser_error (conn_parser conn))\<rparr>) s) = Inr s1" "CloseConn c s1 = Inr s'"
    using assms(2,3) by (auto simp: FailConn_def bind_result_Inr_iff)
  have "core_ok s1"
  proof -
    let ?conn = "conn\<lparr>conn_out := AppendErrorReply (conn_out conn) (parser_error (conn_parser conn))\<rparr>"
    note c = deref_alive(2,3) [OF assms(1,2)]
    have "handles False c s (assign ?conn s)" using assms(1,2) c by (intro handles_assign) simp_all
    then have "core_ok (assign ?conn s)" "deref c (assign ?conn s) = Some ?conn"
      using c(1) assms(2) by (simp_all add: handles_def deref_assign)
    from OnWritable_ok [OF this, of ws] s1(1) show ?thesis by (simp add: handles_def)
  qed
  moreover obtain conn1 where "deref c s1 = Some conn1" using s1(2) by (auto simp: CloseConn_def split: option.splits)
  ultimately have "deref c s' = None" using s1(2) CloseConn_alive deref_erase by fastforce
  with OnWritable_frame [OF s1(1)] CloseConn_frame [OF s1(2)] show ?thesis by (simp add: same_store_def)
qed

text \<open>While writes work, closing after a protocol error is defined.\<close>

lemma FailConn_defined:
  assumes "core_ok s" and "deref c s = Some conn" and "list_all write_works ws"
  shows "\<exists>s'. FailConn ws c s = Inr s'"
proof -
  let ?conn = "conn\<lparr>conn_out := AppendErrorReply (conn_out conn) (parser_error (conn_parser conn))\<rparr>"
  note c = deref_alive(2,3) [OF assms(1,2)]
  have "handles False c s (assign ?conn s)" using assms(1,2) c by (intro handles_assign) simp_all
  then have "core_ok (assign ?conn s)" "deref c (assign ?conn s) = Some ?conn"
    using c(1) assms(2) by (simp_all add: handles_def deref_assign)
  from OnWritable_stream [OF this assms(3)] assms(2) show ?thesis
    by (auto simp: FailConn_def CloseConn_def split: option.split)
qed

section \<open>Properties\<close>

text \<open>C24: In every state the event loop can reach, whatever the clients send, the kernel answers
  and the file system does: the counter of connected clients is the number of open
  connections, descriptors and client ids are unique, every connection is filed under its own
  descriptor, the database and every client's transaction state are well-formed, and, unless
  the server is stopping, a connection with unsent output is registered for writing, so that
  no reply is forgotten.\<close>

theorem reachable_invariant:
  assumes "num_databases opts \<le> int kNumDatabases" and "reachable (new_server opts dk) s"
  shows "connected_clients (srv_stats s) = length (srv_conns s) \<and>
    distinct (map fst (srv_conns s)) \<and> distinct (map (conn_id \<circ> snd) (srv_conns s)) \<and> db_good (srv_db s) \<and>
    list_all (\<lambda>(fd, conn). conn_fd conn = fd \<and> client_ok (conn_state conn) \<and>
      (\<not> srv_quit s \<and> conn_out conn \<noteq> [] \<longrightarrow> want_write conn)) (srv_conns s)"
proof -
  have "server_ok (new_server opts dk)"
    using assms(1) by (simp add: server_ok_def core_ok_def new_server_def conns_ok_def new_stats_def)
  with assms(2) have "server_ok s" by (rule reachable_ok)
  then show ?thesis by (auto simp: server_ok_def core_ok_def conns_ok_def list_all_iff registered_def)
qed




text \<open>C30: A protocol error closes the connection and nothing else happens: the commands that were
  parsed before the error in the same event are dropped, so that the database, the
  statistics of commands and the disk are unchanged.\<close>

theorem protocol_error_runs_nothing:
  assumes "core_ok s" and "deref c s = Some conn" and "ReadLoop rs (conn_parser conn) [] = (p, BadRequest)"
    and "OnReadable envs rs ws c s = Inr s'"
  shows "deref c s' = None \<and> srv_db s' = srv_db s \<and> srv_disk s' = srv_disk s \<and>
    total_commands (srv_stats s') = total_commands (srv_stats s)"
proof -
  let ?conn = "conn\<lparr>conn_parser := p\<rparr>"
  let ?s = "assign ?conn s"
  note c = deref_alive(2,3) [OF assms(1,2)]
  have "handles False c s ?s" using assms(1,2) c by (intro handles_assign) simp_all
  then have s0: "core_ok ?s" "deref c ?s = Some ?conn" using c(1) assms(2) by (simp_all add: handles_def deref_assign)
  have "FailConn ws c ?s = Inr s'" using assms(2-4) by (simp add: OnReadable_def)
  from FailConn_frame [OF s0 this] show ?thesis by (simp add: same_store_def)
qed

text \<open>C28: Pending output reaches the client: if the kernel accepts at least one byte per call and
  enough of them in total, \<open>OnWritable\<close> returns with everything sent, in order, an empty
  buffer and the connection no longer registered for writing.\<close>

theorem pending_output_is_flushed:
  assumes "core_ok s" and "deref c s = Some conn" and "list_all (\<lambda>n. 0 < n) ns"
    and "length (conn_out conn) \<le> sum_list ns"
  shows "\<exists>s'. OnWritable (map Wrote ns) c s = Inr s' \<and> sent s' c = sent s c @ conn_out conn \<and>
    deref c s' = Some (conn\<lparr>conn_out := [], want_write := False\<rparr>)"
  using assms
proof (induction ns arbitrary: s conn)
  case Nil
  have "EnableWrite False conn = conn\<lparr>conn_out := [], want_write := False\<rparr>"
    using Nil by (cases conn) (simp add: EnableWrite_def)
  with Nil deref_alive(2) [OF Nil(1,2)] show ?case by (simp add: OnWritable_empty deref_assign)
next
  case (Cons n ns)
  note c = deref_alive(2) [OF Cons.prems(1,2)]
  show ?case
  proof (cases "conn_out conn = []")
    case True
    then have "EnableWrite False conn = conn\<lparr>conn_out := [], want_write := False\<rparr>"
      by (cases conn) (simp add: EnableWrite_def)
    with True Cons.prems(2) c show ?thesis by (simp add: OnWritable_empty deref_assign)
  next
    case False
    note t = transmit_ok [OF Cons.prems(1,2), of n]
    have "core_ok (transmit n conn s)" using t(1) by (simp add: handles_def)
    from Cons.IH [OF this t(2)] Cons.prems(3,4) t(3) False show ?thesis
      using Cons.prems(2) by (simp add: OnWritable_step)
  qed
qed

section \<open>Shutdown\<close>

lemma OnAccept_quit: "srv_quit (OnAccept acs s) = srv_quit s"
  by (induction acs s rule: OnAccept.induct) (simp_all add: accept_conn_def)

lemma HandleEvent_quit:
  assumes "core_ok s" and "HandleEvent ev s = Inr s'" and "srv_quit s \<or> ev = SignalEvent"
  shows "srv_quit s'"
proof (cases ev)
  case (ReadEvent c envs rs ws)
  with assms OnReadable_ok [OF assms(1), of c] show ?thesis
    by (auto simp: lookup_conn_def handles_def split: option.splits if_splits)
next
  case (WriteEvent c ws)
  with assms OnWritable_ok [OF assms(1), of c _ ws] show ?thesis
    by (auto simp: lookup_conn_def split: option.splits if_splits)
qed (use assms in \<open>auto simp: OnAccept_quit RequestShutdown_def\<close>)

lemma HandleEvents_quit:
  assumes "server_ok s" and "events_ok evs s" and "HandleEvents evs s = Inr s'"
    and "srv_quit s \<or> SignalEvent \<in> set evs"
  shows "srv_quit s'"
  using assms
proof (induction evs arbitrary: s)
  case (Cons ev evs)
  then obtain s1 where s1: "HandleEvent ev s = Inr s1" "HandleEvents evs s1 = Inr s'"
    by (auto simp: bind_result_Inr_iff)
  have "reachable s s1" using Cons.prems(2) s1(1) by (intro HandleEvent_reachable [of ev]) simp_all
  then have "server_ok s1" using Cons.prems(1) by (rule reachable_ok)
  moreover have "srv_quit s1 \<or> SignalEvent \<in> set evs"
    using HandleEvent_quit [OF _ s1(1)] Cons.prems(1,4) by (auto simp: server_ok_def)
  ultimately show ?case using Cons.IH s1 Cons.prems(2) by simp
qed simp

text \<open>C29: A termination signal stops the server at once: whatever else is in the batch of events
  that brings it, when the batch has been handled the loop ends after the periodic tasks and
  never polls again.\<close>

theorem signal_stops_the_loop:
  assumes "server_ok s" and "\<not> srv_quit s" and "events_ok evs s" and "SignalEvent \<in> set evs"
    and "HandleEvents evs s = Inr s1"
  shows "RunLoop (Poll evs now rng # ps) s = Inr (PeriodicTasks now rng s1, True)"
proof -
  have "srv_quit (PeriodicTasks now rng s1)"
    using HandleEvents_quit [OF assms(1,3,5)] assms(4) by (simp add: PeriodicTasks_def case_prod_beta Let_def)
  then have "RunLoop ps (PeriodicTasks now rng s1) = Inr (PeriodicTasks now rng s1, True)"
    by (simp add: RunLoop.simps)
  with assms(2,5) show ?thesis by (simp add: RunLoop.simps [of "_ # _"])
qed




section \<open>Witnesses\<close>

definition no_disk :: disk where
  "no_disk = \<lparr>files = (\<lambda>_. None), last_save = 0\<rparr>"

definition idle_server :: Server where
  "idle_server = new_server default_options no_disk"

definition one_client :: Server where
  "one_client = accept_conn 7 idle_server"

lemma idle_ok: "server_ok idle_server"
  by (simp add: idle_server_def server_ok_def core_ok_def new_server_def conns_ok_def new_stats_def default_options_def)

lemma one_client_facts:
  "server_step idle_server one_client" "core_ok one_client" "server_ok one_client"
  "deref 1 one_client = Some (new_connection 7 1)" "\<not> srv_quit one_client"
  "srv_opts one_client = default_options" "srv_db one_client = new_database" "srv_stats one_client = new_stats
     \<lparr>total_connections := 1, connected_clients := 1\<rparr>"
proof -
  have c: "srv_conns idle_server = []" "next_client_id idle_server = 1" by (simp_all add: idle_server_def new_server_def)
  show st: "server_step idle_server one_client" unfolding one_client_def by (rule server_step.accept) (simp add: c)
  from step_ok [OF st idle_ok] show "server_ok one_client" .
  then show "core_ok one_client" by (simp add: server_ok_def)
  show "deref 1 one_client = Some (new_connection 7 1)"
    using c by (simp add: one_client_def accept_conn_def deref_def new_connection_def)
qed (simp_all add: one_client_def accept_conn_def idle_server_def new_server_def new_stats_def)

theorem reachable_invariant_witness:
  "reachable (new_server default_options no_disk) one_client \<and>
   connected_clients (srv_stats one_client) = 1 \<and> length (srv_conns one_client) = 1"
proof -
  have r: "reachable (new_server default_options no_disk) one_client"
    using reachable_one [OF one_client_facts(1)] by (simp add: idle_server_def)
  have "num_databases default_options \<le> int kNumDatabases" by (simp add: default_options_def)
  from reachable_invariant [OF this r] r one_client_facts(8) show ?thesis by simp
qed




theorem protocol_error_runs_nothing_witness:
  "\<exists>s'. OnReadable (\<lambda>_ _. sample_env) [ReadBytes (''PING'' @ CRLF @ ''*x'' @ CRLF)] [] 1 one_client = Inr s' \<and>
     deref 1 s' = None \<and> srv_db s' = new_database"
proof -
  have p: "conn_parser (new_connection 7 1) = fresh_parser" by (simp add: new_connection_def)
  have f: "Feed fresh_parser (''PING'' @ CRLF @ ''*x'' @ CRLF) =
     (\<lparr>parser_buf = ''*x'' @ CRLF, parser_error = ''ERR Protocol error: invalid multibulk length''\<rparr>, [[''PING'']])"
    by (simp add: feed_eval)
  let ?rs = "[ReadBytes (''PING'' @ CRLF @ ''*x'' @ CRLF)]"
  obtain q where r: "ReadLoop ?rs (conn_parser (new_connection 7 1)) [] = (q, BadRequest)"
    using f p by (simp add: has_error_def)
  let ?s = "assign ((new_connection 7 1)\<lparr>conn_parser := q\<rparr>) one_client"
  note c = deref_alive(2,3) [OF one_client_facts(2,4)]
  have "handles False 1 one_client ?s" using one_client_facts(2,4) c by (intro handles_assign) simp_all
  then have "\<exists>s'. FailConn [] 1 ?s = Inr s'"
    using FailConn_defined [of ?s 1 _ "[]"] c(1) one_client_facts(4) by (simp add: handles_def deref_assign)
  then obtain s' where "OnReadable (\<lambda>_ _. sample_env) ?rs [] 1 one_client = Inr s'"
    using r one_client_facts(4) by (auto simp: OnReadable_def)
  with protocol_error_runs_nothing [OF one_client_facts(2,4) r this] one_client_facts(7) show ?thesis by auto
qed

theorem pending_output_is_flushed_witness:
  "\<exists>s'. OnWritable (map Wrote [2, 9]) 1 (assign ((new_connection 7 1)\<lparr>conn_out := ''+PONG''\<rparr>) one_client) = Inr s' \<and>
     sent s' 1 = ''+PONG''"
proof -
  let ?conn = "(new_connection 7 1)\<lparr>conn_out := ''+PONG''\<rparr>"
  note c = deref_alive(2,3) [OF one_client_facts(2,4)]
  have "handles False 1 one_client (assign ?conn one_client)"
    using one_client_facts(2,4) c by (intro handles_assign) simp_all
  then have "core_ok (assign ?conn one_client)" "deref 1 (assign ?conn one_client) = Some ?conn"
    using c(1) one_client_facts(4) by (simp_all add: handles_def deref_assign)
  from pending_output_is_flushed [OF this, of "[2, 9]"] show ?thesis
    by (auto simp: one_client_def accept_conn_def idle_server_def new_server_def)
qed

theorem signal_stops_the_loop_witness:
  "RunLoop [Poll [SignalEvent] 0 (\<lambda>_. 0), PollIntr] one_client =
     Inr (PeriodicTasks 0 (\<lambda>_. 0) (RequestShutdown True one_client), True)"
  using signal_stops_the_loop [OF one_client_facts(3,5), of "[SignalEvent]" "RequestShutdown True one_client"
      0 "\<lambda>_. 0" "[PollIntr]"] by simp



end
