(* ===== verification/Spec2Isabelle.thy ===== *)
theory Spec2Isabelle
  imports ServerProps
begin

text \<open>
  A verification of tiny-redis-server, a Redis server in C++20 (work in progress).
\<close>

end
